(* ===== verification/Prelude.thy ===== *)
theory Prelude
  imports Main "HOL-Library.Word"
begin

unbundle bit_operations_syntax

text \<open>
  What every component shares: the machine types, Rust's \<open>Result\<close> and \<open>checked_add\<close>,
  little-endian byte layouts, lowercase hex, and the interfaces (locales) that several
  components provide or rely on.

  A fixed array \<open>[u8; 32]\<close> is the 256-bit word whose little-endian bytes are the array's
  elements (\<open>bytes_of\<close>, \<open>array32\<close>): the two are in bijection (\<open>array32_bytes_of\<close>,
  \<open>bytes_of_array32\<close>), every value of the type has exactly 32 elements as in Rust, and
  array equality is equality of words. Slices and \<open>Vec<u8>\<close> are byte lists. A \<open>Result\<close>
  is a sum with the error on the left; a panic is \<open>None\<close>.
\<close>

section \<open>Types\<close>

type_synonym byte = "8 word"
type_synonym u8 = "8 word"
type_synonym u32 = "32 word"
type_synonym u64 = "64 word"
type_synonym bytes32 = "256 word"

named_theorems layout_len \<open>lengths of byte layouts\<close>
named_theorems result_simps \<open>how results compose\<close>

section \<open>Results\<close>

text \<open>Rust's \<open>?\<close>: go on with the value, or return the error at once.\<close>

definition try_bind :: "'e + 'a \<Rightarrow> ('a \<Rightarrow> 'e + 'b) \<Rightarrow> 'e + 'b" where
  "try_bind r k = (case r of Inl e \<Rightarrow> Inl e | Inr x \<Rightarrow> k x)"

text \<open>\<open>Option::ok_or\<close> and \<open>Result::map_err\<close>.\<close>

definition ok_or :: "'e \<Rightarrow> 'a option \<Rightarrow> 'e + 'a" where
  "ok_or e v = (case v of None \<Rightarrow> Inl e | Some x \<Rightarrow> Inr x)"

definition map_err :: "('e \<Rightarrow> 'f) \<Rightarrow> 'e + 'a \<Rightarrow> 'f + 'a" where
  "map_err g r = (case r of Inl e \<Rightarrow> Inl (g e) | Inr x \<Rightarrow> Inr x)"

text \<open>A guard that returns an error early.\<close>

definition ensure :: "bool \<Rightarrow> 'e \<Rightarrow> 'e + unit" where
  "ensure b e = (if b then Inr () else Inl e)"

lemma try_bind_simps [simp]:
  "try_bind (Inl e) k = Inl e"
  "try_bind (Inr x) k = k x"
  by (simp_all add: try_bind_def)

lemma ok_or_simps [simp]:
  "ok_or e None = Inl e"
  "ok_or e (Some x) = Inr x"
  by (simp_all add: ok_or_def)

lemma map_err_simps [simp]:
  "map_err g (Inl e) = Inl (g e)"
  "map_err g (Inr x) = Inr x"
  by (simp_all add: map_err_def)

lemma ensure_simps [simp]:
  "ensure True e = Inr ()"
  "ensure False e = Inl e"
  by (simp_all add: ensure_def)

lemma try_bind_eq_Inr [result_simps]:
  "try_bind r k = Inr y \<longleftrightarrow> (\<exists>x. r = Inr x \<and> k x = Inr y)"
  by (cases r) simp_all

lemma try_bind_eq_Inl [result_simps]:
  "try_bind r k = Inl e \<longleftrightarrow> r = Inl e \<or> (\<exists>x. r = Inr x \<and> k x = Inl e)"
  by (cases r) simp_all

lemma ok_or_eq_Inr [result_simps]: "ok_or e v = Inr x \<longleftrightarrow> v = Some x"
  by (cases v) simp_all

lemma ok_or_eq_Inl [result_simps]: "ok_or e v = Inl e' \<longleftrightarrow> v = None \<and> e = e'"
  by (cases v) auto

lemma map_err_eq_Inr [result_simps]: "map_err g r = Inr x \<longleftrightarrow> r = Inr x"
  by (cases r) simp_all

lemma ensure_eq_Inr [result_simps]: "ensure b e = Inr u \<longleftrightarrow> b"
  by (cases b) simp_all

lemma ensure_eq_Inl [result_simps]: "ensure b e = Inl e' \<longleftrightarrow> \<not> b \<and> e = e'"
  by (cases b) auto

lemma ex_image_conj [result_simps]:
  "(\<exists>x. (\<exists>d. P d \<and> x = f d) \<and> Q x) \<longleftrightarrow> (\<exists>d. P d \<and> Q (f d))"
  by blast

lemma if_Some_iff: "(if b then Some x else None) = Some y \<longleftrightarrow> b \<and> y = x"
  by auto

section \<open>Arrays filled in from the front\<close>

lemma replicate_update_first:
  "k < d \<Longrightarrow> (replicate (d - k) x)[0 := y] = y # replicate (d - Suc k) x"
  by (cases "d - k") (simp_all add: diff_Suc)

lemma fold_fill:
  "k \<le> d \<Longrightarrow> fold (\<lambda>i xs. xs[i := f i]) [0..<k] (replicate d x) = map f [0..<k] @ replicate (d - k) x"
  by (induction k) (simp_all add: list_update_append replicate_update_first)

lemma map_nth_upt: "map (\<lambda>i. f (xs ! i)) [0..<length xs] = map f xs"
  by (rule nth_equalityI) simp_all

text \<open>\<open>out[off..off + src.len()].copy_from_slice(src)\<close>\<close>

definition copy_into :: "'a list \<Rightarrow> nat \<Rightarrow> 'a list \<Rightarrow> 'a list" where
  "copy_into out off src = take off out @ src @ drop (off + length src) out"

lemma copy_into_next:
  "length xs = off \<Longrightarrow> length src \<le> k \<Longrightarrow>
   copy_into (xs @ replicate k z) off src = xs @ src @ replicate (k - length src) z"
  by (simp add: copy_into_def)

lemma fold_copy_into:
  assumes "\<And>i. i < n \<Longrightarrow> length (f i) = w"
  shows "n * w \<le> k \<Longrightarrow> length xs = off \<Longrightarrow>
    fold (\<lambda>i out. copy_into out (off + i * w) (f i)) [0..<n] (xs @ replicate k z)
      = xs @ concat (map f [0..<n]) @ replicate (k - n * w) z"
  using assms
proof (induction n)
  case (Suc n)
  have l: "length (xs @ concat (map f [0..<n])) = off + n * w"
  proof -
    have "length (concat (map f [0..<m])) = m * w" if "m \<le> n" for m
      using that Suc.prems(3) by (induction m) simp_all
    then show ?thesis using Suc.prems(2) by simp
  qed
  have "copy_into ((xs @ concat (map f [0..<n])) @ replicate (k - n * w) z) (off + n * w) (f n)
    = (xs @ concat (map f [0..<n])) @ f n @ replicate (k - n * w - length (f n)) z"
    using Suc.prems by (intro copy_into_next [OF l]) simp
  then show ?case using Suc by (simp add: add.commute)
qed simp

lemma fold_update_next:
  "n \<le> k \<Longrightarrow> length xs = off \<Longrightarrow>
   fold (\<lambda>i out. out[off + i := f i]) [0..<n] (xs @ replicate k z)
     = xs @ map f [0..<n] @ replicate (k - n) z"
  by (induction n) (simp_all add: list_update_append replicate_update_first)

lemma concat_replicates: "concat (replicate n (replicate k x)) = replicate (n * k) x"
  by (induction n) (simp_all add: replicate_add)

text \<open>Chunks of equal width, read back by index.\<close>

lemma drop_concat_map:
  "(\<And>x. x \<in> set xs \<Longrightarrow> length (f x) = w) \<Longrightarrow>
   drop (i * w) (concat (map f xs)) = concat (map f (drop i xs))"
proof (induction xs arbitrary: i)
  case (Cons x xs)
  then show ?case by (cases i) simp_all
qed simp

lemma chunk_concat_map:
  assumes "\<And>x. x \<in> set xs \<Longrightarrow> length (f x) = w" "i < length xs"
  shows "take w (drop (i * w) (concat (map f xs))) = f (xs ! i)"
  using assms by (simp add: drop_concat_map flip: Cons_nth_drop_Suc)

lemma upt_0_Suc: "[0..<Suc n] = 0 # map Suc [0..<n]"
  by (simp add: map_Suc_upt upt_conv_Cons del: upt_Suc)

section \<open>Checked addition\<close>

definition checked_add :: "'a::len word \<Rightarrow> 'a word \<Rightarrow> 'a word option" where
  "checked_add a b = (if unat a + unat b < 2 ^ LENGTH('a) then Some (a + b) else None)"

lemma checked_add_eq_Some:
  "checked_add a b = Some c \<longleftrightarrow> unat a + unat b < 2 ^ LENGTH('a) \<and> c = a + b"
  for a b c :: "'a::len word"
  by (auto simp: checked_add_def)

lemma checked_add_unat:
  "checked_add a b = Some c \<Longrightarrow> unat c = unat a + unat b"
  for a b c :: "'a::len word"
  by (auto simp: checked_add_def unat_word_ariths split: if_splits)

lemma checked_add_eq_None:
  "checked_add a b = None \<longleftrightarrow> 2 ^ LENGTH('a) \<le> unat a + unat b"
  for a b :: "'a::len word"
  by (auto simp: checked_add_def)

section \<open>Little-endian bytes\<close>

primrec le_bytes :: "nat \<Rightarrow> nat \<Rightarrow> byte list" where
  "le_bytes 0 n = []"
| "le_bytes (Suc k) n = of_nat n # le_bytes k (n div 256)"

primrec le_nat :: "byte list \<Rightarrow> nat" where
  "le_nat [] = 0"
| "le_nat (b # bs) = unat b + 256 * le_nat bs"

lemma length_le_bytes [simp, layout_len]: "length (le_bytes k n) = k"
  by (induction k arbitrary: n) simp_all

lemma le_bytes_zero: "le_bytes k 0 = replicate k 0"
  by (induction k) simp_all

lemma unat_byte_less: "unat (b :: byte) < 256"
proof -
  have "unat b < 2 ^ LENGTH(8)" by (rule unsigned_less)
  then show ?thesis by simp
qed

lemma le_nat_less: "le_nat bs < 256 ^ length bs"
proof (induction bs)
  case (Cons b bs)
  have "unat b < 256" by (rule unat_byte_less)
  with Cons.IH show ?case by simp
qed simp

lemma unat_of_nat_byte: "unat (of_nat n :: byte) = n mod 256"
  by (simp add: unsigned_of_nat take_bit_eq_mod)

lemma le_nat_le_bytes: "le_nat (le_bytes k n) = n mod 256 ^ k"
proof (induction k arbitrary: n)
  case (Suc k)
  have "n mod 256 ^ Suc k = 256 * (n div 256 mod 256 ^ k) + n mod 256"
    by (simp add: mod_mult2_eq)
  then show ?case by (simp add: Suc.IH unat_of_nat_byte)
qed simp

lemma le_bytes_le_nat: "length bs = k \<Longrightarrow> le_bytes k (le_nat bs) = bs"
proof (induction bs arbitrary: k)
  case (Cons b bs)
  have b: "unat b < 256" by (rule unat_byte_less)
  from Cons.prems obtain j where k: "k = Suc j" and j: "length bs = j" by auto
  have "(of_nat (unat b + 256 * le_nat bs) :: byte) = b"
    using b by (simp add: word_unat_eq_iff unat_of_nat_byte del: of_nat_add of_nat_mult)
  moreover have "(unat b + 256 * le_nat bs) div 256 = le_nat bs" using b by simp
  ultimately show ?case using Cons.IH [OF j] by (simp add: k del: of_nat_add of_nat_mult)
qed simp

definition to_le :: "'a::len word \<Rightarrow> byte list" where
  "to_le w = le_bytes (LENGTH('a) div 8) (unat w)"

definition of_le :: "byte list \<Rightarrow> 'a::len word" where
  "of_le bs = of_nat (le_nat bs)"

lemma length_to_le [simp]: "length (to_le w) = LENGTH('a) div 8" for w :: "'a::len word"
  by (simp add: to_le_def)

lemma pow256: "(256::nat) = 2 ^ 8"
  by simp

lemma of_le_to_le:
  "8 * (LENGTH('a) div 8) = LENGTH('a) \<Longrightarrow> of_le (to_le w) = w" for w :: "'a::len word"
proof -
  assume a: "8 * (LENGTH('a) div 8) = LENGTH('a)"
  then have "(256::nat) ^ (LENGTH('a) div 8) = 2 ^ LENGTH('a)"
    by (metis (no_types) power_mult pow256)
  then show ?thesis
    using unsigned_less [of w] by (simp add: to_le_def of_le_def le_nat_le_bytes)
qed


lemma to_le_of_le:
  assumes "8 * (LENGTH('a) div 8) = LENGTH('a)" and "length bs = LENGTH('a) div 8"
  shows "to_le (of_le bs :: 'a::len word) = bs"
proof -
  have "(256::nat) ^ (LENGTH('a) div 8) = 2 ^ LENGTH('a)"
    using assms(1) by (metis (no_types) power_mult pow256)
  then have "le_nat bs < 2 ^ LENGTH('a)"
    using le_nat_less [of bs] assms(2) by simp
  then have "unat (of_le bs :: 'a word) = le_nat bs"
    by (simp add: of_le_def unsigned_of_nat take_bit_nat_eq_self)
  then show ?thesis
    using assms(2) by (simp add: to_le_def le_bytes_le_nat)
qed

lemma to_le_inj:
  fixes v w :: "'a::len word"
  assumes "8 * (LENGTH('a) div 8) = LENGTH('a)"
  shows "to_le v = to_le w \<longleftrightarrow> v = w"
  using of_le_to_le [OF assms] by metis

section \<open>Fixed arrays of 32 bytes\<close>

definition bytes_of :: "bytes32 \<Rightarrow> byte list" where
  "bytes_of h = to_le h"

definition array32 :: "byte list \<Rightarrow> bytes32" where
  "array32 bs = of_le bs"

text \<open>The array expression \<open>[b; 32]\<close>.\<close>

definition filled :: "byte \<Rightarrow> bytes32" where
  "filled b = array32 (replicate 32 b)"

lemma length_bytes_of [simp, layout_len]: "length (bytes_of h) = 32"
  by (simp add: bytes_of_def)

lemma array32_bytes_of [simp]: "array32 (bytes_of h) = h"
  by (simp add: bytes_of_def array32_def of_le_to_le)

lemma bytes_of_array32 [simp]: "length bs = 32 \<Longrightarrow> bytes_of (array32 bs) = bs"
  by (simp add: bytes_of_def array32_def to_le_of_le)

lemma bytes_of_inj [simp]: "bytes_of a = bytes_of b \<longleftrightarrow> a = b"
  by (metis array32_bytes_of)

lemma bytes_of_append_inj [simp]:
  "bytes_of a @ x = bytes_of b @ y \<longleftrightarrow> a = b \<and> x = y"
  by (simp add: append_eq_append_conv)

lemma bytes_of_neq_Nil [simp]: "bytes_of a \<noteq> []"
  using length_bytes_of [of a] by fastforce

lemma take_bytes_of [simp]: "take 32 (bytes_of a @ x) = bytes_of a"
  by simp

lemma drop_bytes_of [simp]: "drop 32 (bytes_of a @ x) = x"
  by simp

lemma bytes_of_zero: "bytes_of 0 = replicate 32 0"
  by (simp add: bytes_of_def to_le_def le_bytes_zero)

lemma length_to_le_words [layout_len]:
  "length (to_le (a :: u32)) = 4" "length (to_le (b :: u64)) = 8"
  by simp_all

lemma to_le_inj_words [simp]:
  "to_le (a :: u32) = to_le a' \<longleftrightarrow> a = a'"
  "to_le (b :: u64) = to_le b' \<longleftrightarrow> b = b'"
  by (simp_all add: to_le_inj)

lemma array32_to_le: "array32 (to_le i) = ucast i" for i :: u64
proof -
  have "unat i < 2 ^ LENGTH(64)" by (rule unsigned_less)
  then have "unat i mod 256 ^ 8 = unat i" by simp
  then show ?thesis by (simp add: array32_def of_le_def to_le_def le_nat_le_bytes)
qed

lemma le_nat_zeros [simp]: "le_nat (replicate k 0) = 0"
  by (induction k) simp_all

lemma le_nat_pad_zero [simp]: "le_nat (bs @ replicate k 0) = le_nat bs"
  by (induction bs) simp_all

lemma array32_pad_zero: "array32 (bs @ replicate k 0) = array32 bs"
  by (simp add: array32_def of_le_def)

text \<open>The slice \<open>bytes[i..i + n]\<close>, used where the source's bounds are fixed by the types.\<close>

definition slice :: "byte list \<Rightarrow> nat \<Rightarrow> nat \<Rightarrow> byte list" where
  "slice bs i n = take n (drop i bs)"

lemma length_slice: "i + n \<le> length bs \<Longrightarrow> length (slice bs i n) = n"
  by (simp add: slice_def)

section \<open>Lowercase hex\<close>

definition hex_digit :: "nat \<Rightarrow> char" where
  "hex_digit n = ''0123456789abcdef'' ! n"

definition hex_byte :: "byte \<Rightarrow> string" where
  "hex_byte b = [hex_digit (unat b div 16), hex_digit (unat b mod 16)]"

definition hex_string :: "byte list \<Rightarrow> string" where
  "hex_string bs = concat (map hex_byte bs)"

lemma length_hex_string: "length (hex_string bs) = 2 * length bs"
  by (induction bs) (simp_all add: hex_string_def hex_byte_def)

lemma distinct_hex_digits: "distinct ''0123456789abcdef''"
  by simp

lemma hex_digit_inj: "i < 16 \<Longrightarrow> j < 16 \<Longrightarrow> hex_digit i = hex_digit j \<longleftrightarrow> i = j"
  unfolding hex_digit_def by (rule nth_eq_iff_index_eq [OF distinct_hex_digits]) simp_all

lemma hex_digit_in: "i < 16 \<Longrightarrow> hex_digit i \<in> set ''0123456789abcdef''"
  unfolding hex_digit_def by (rule nth_mem) simp

lemma hex_byte_inj: "hex_byte a = hex_byte b \<longleftrightarrow> a = b"
proof -
  have lt: "unat x div 16 < 16" "unat x mod 16 < 16" for x :: byte
    using unat_byte_less [of x] by (simp_all add: div_less_iff_less_mult)
  have "a = b" if "unat a div 16 = unat b div 16" "unat a mod 16 = unat b mod 16"
    using that by (metis div_mod_decomp word_unat_eq_iff)
  then show ?thesis by (auto simp: hex_byte_def hex_digit_inj lt)
qed

lemma hex_string_inj: "hex_string a = hex_string b \<Longrightarrow> a = b"
proof (induction a arbitrary: b)
  case Nil
  then show ?case by (cases b) (simp_all add: hex_string_def hex_byte_def)
next
  case (Cons x a)
  then obtain y c where b: "b = y # c"
    by (cases b) (simp_all add: hex_string_def hex_byte_def)
  have "hex_byte x @ hex_string a = hex_byte y @ hex_string c"
    using Cons.prems by (simp add: b hex_string_def)
  moreover have "length (hex_byte x) = length (hex_byte y)" by (simp add: hex_byte_def)
  ultimately have "hex_byte x = hex_byte y" and "hex_string a = hex_string c" by simp_all
  then show ?case using Cons.IH b by (simp add: hex_byte_inj)
qed

lemma hex_string_digits: "set (hex_string bs) \<subseteq> set ''0123456789abcdef''"
proof (induction bs)
  case (Cons b bs)
  have "unat b div 16 < 16" "unat b mod 16 < 16"
    using unat_byte_less [of b] by (simp_all add: div_less_iff_less_mult)
  then have "set (hex_byte b) \<subseteq> set ''0123456789abcdef''"
    using hex_digit_in [of "unat b div 16"] hex_digit_in [of "unat b mod 16"]
    by (simp only: hex_byte_def list.set insert_subset empty_subsetI)
  with Cons.IH show ?case by (simp add: hex_string_def)
qed (simp add: hex_string_def)

section \<open>Interfaces\<close>

text \<open>
  An encoding and its decoder. \<open>valid\<close> says which values the encoder is used on (a
  record whose vectors have the length their type fixes).
\<close>

locale codec =
  fixes enc :: "'a \<Rightarrow> 'w"
    and dec :: "'w \<Rightarrow> 'a option"
    and valid :: "'a \<Rightarrow> bool"
  assumes dec_enc: "valid x \<Longrightarrow> dec (enc x) = Some x"
begin

lemma enc_inject: "valid x \<Longrightarrow> valid y \<Longrightarrow> enc x = enc y \<longleftrightarrow> x = y"
  using dec_enc by (metis option.inject)

lemma enc_inj_on: "inj_on enc (Collect valid)"
  by (rule inj_onI) (simp add: enc_inject)

end

text \<open>A canonical one: what decodes is exactly the encoding of the result.\<close>

locale exact_codec = codec +
  assumes enc_dec: "dec w = Some x \<Longrightarrow> valid x \<and> enc x = w"
begin

lemma dec_eq_Some: "dec w = Some x \<longleftrightarrow> valid x \<and> enc x = w"
  using dec_enc enc_dec by blast

lemma dec_inject: "dec v = Some x \<Longrightarrow> dec w = Some x \<Longrightarrow> v = w"
  using enc_dec by blast

lemma dec_eq_None: "dec w = None \<longleftrightarrow> (\<forall>x. valid x \<longrightarrow> enc x \<noteq> w)"
  using dec_eq_Some by (metis option.exhaust option.simps(3))

end

text \<open>
  A component as a set of transitions with an invariant its steps keep, and one with a
  preorder its steps only move up in.
\<close>

locale invariant_system =
  fixes init :: "'s \<Rightarrow> bool"
    and step :: "'s \<Rightarrow> 's \<Rightarrow> bool"
    and inv :: "'s \<Rightarrow> bool"
  assumes inv_init: "init s \<Longrightarrow> inv s"
    and inv_step: "step s t \<Longrightarrow> inv s \<Longrightarrow> inv t"
begin

lemma inv_steps: "step\<^sup>*\<^sup>* s t \<Longrightarrow> inv s \<Longrightarrow> inv t"
  by (induction rule: rtranclp_induct) (auto intro: inv_step)

lemma inv_reachable: "init s \<Longrightarrow> step\<^sup>*\<^sup>* s t \<Longrightarrow> inv t"
  using inv_steps inv_init by blast

end

locale monotone_system =
  fixes step :: "'s \<Rightarrow> 's \<Rightarrow> bool"
    and le :: "'s \<Rightarrow> 's \<Rightarrow> bool"
  assumes le_refl: "le s s"
    and le_trans: "le s t \<Longrightarrow> le t u \<Longrightarrow> le s u"
    and step_le: "step s t \<Longrightarrow> le s t"
begin

lemma steps_le: "step\<^sup>*\<^sup>* s t \<Longrightarrow> le s t"
  by (induction rule: rtranclp_induct) (auto intro: le_refl le_trans step_le)

end

text \<open>
  A partial machine over several keys: a step touches the part of the state that belongs to
  the key of its instruction, and depends on that part alone. Then a run is accepted exactly
  when the instructions of each key are, made alone.
\<close>

primrec run_steps :: "('s \<Rightarrow> 'i \<Rightarrow> 's option) \<Rightarrow> 's \<Rightarrow> 'i list \<Rightarrow> 's option" where
  "run_steps step s [] = Some s"
| "run_steps step s (i # is) = Option.bind (step s i) (\<lambda>t. run_steps step t is)"

lemma run_steps_append:
  "run_steps step s (xs @ ys) = Option.bind (run_steps step s xs) (\<lambda>t. run_steps step t ys)"
  by (induction xs arbitrary: s) simp_all

lemma run_steps_snoc:
  "run_steps step s (xs @ [i]) = Some u \<longleftrightarrow> (\<exists>t. run_steps step s xs = Some t \<and> step t i = Some u)"
  by (simp add: run_steps_append Option.bind_eq_Some_conv)

locale split_machine =
  fixes step :: "'s \<Rightarrow> 'i \<Rightarrow> 's option"
    and key :: "'i \<Rightarrow> 'k"
    and agree :: "'k \<Rightarrow> 's \<Rightarrow> 's \<Rightarrow> bool"
  assumes agree_refl: "agree k s s"
    and agree_trans: "agree k s t \<Longrightarrow> agree k t u \<Longrightarrow> agree k s u"
    and step_elsewhere: "step s i = Some t \<Longrightarrow> key i \<noteq> k \<Longrightarrow> agree k t s"
    and step_local: "agree (key i) s t \<Longrightarrow> rel_option (agree (key i)) (step s i) (step t i)"
begin

lemma run_projects:
  assumes "run_steps step s is = Some u"
  shows "\<exists>v. run_steps step s (filter (\<lambda>i. key i = k) is) = Some v \<and> agree k u v"
  using assms
proof (induction "is" arbitrary: u rule: rev_induct)
  case Nil
  then show ?case by (simp add: agree_refl)
next
  case (snoc i "is")
  then obtain t where r: "run_steps step s is = Some t" and x: "step t i = Some u"
    by (auto simp: run_steps_snoc)
  from snoc.IH [OF r] obtain v where
    v: "run_steps step s (filter (\<lambda>i. key i = k) is) = Some v" "agree k t v" by blast
  show ?case
  proof (cases "key i = k")
    case True
    with step_local [of i t v] x v show ?thesis
      by (cases "step v i") (auto simp: run_steps_snoc)
  next
    case False
    with step_elsewhere [OF x False] v show ?thesis by (auto intro: agree_trans)
  qed
qed

lemma run_composes:
  assumes "\<forall>k. run_steps step s (filter (\<lambda>i. key i = k) is) \<noteq> None"
  shows "run_steps step s is \<noteq> None"
  using assms
proof (induction "is" rule: rev_induct)
  case (snoc i "is")
  have "run_steps step s (filter (\<lambda>i. key i = k) is) \<noteq> None" for k
    using spec [OF snoc.prems, of k]
    by (cases "key i = k") (auto simp: run_steps_append Option.bind_eq_Some_conv)
  with snoc.IH obtain t where r: "run_steps step s is = Some t" by auto
  from run_projects [OF r, of "key i"] obtain v where
    v: "run_steps step s (filter (\<lambda>j. key j = key i) is) = Some v" "agree (key i) t v" by blast
  from spec [OF snoc.prems, of "key i"] v(1) obtain w where "step v i = Some w"
    by (auto simp: run_steps_append)
  with step_local [OF v(2)] r show ?case by (cases "step t i") (auto simp: run_steps_append)
qed simp

lemma run_iff_split:
  "run_steps step s is \<noteq> None \<longleftrightarrow> (\<forall>k. run_steps step s (filter (\<lambda>i. key i = k) is) \<noteq> None)"
  using run_projects [of s "is"] run_composes [of s "is"] by fastforce

end

end
