(* ===== verification/Core_Error.thy ===== *)
theory Core_Error
  imports Prelude
begin

text \<open>
  The verifier's error catalog (\<open>private_multisig_core/src/error.rs\<close>): the variants, their
  stable numeric codes, the inverse of the code and the \<open>Display\<close> text.
\<close>

datatype core_error =
    InstanceNotActive
  | ProposalExpiredOrExecuted
  | ActionBytesTooLong
  | InvalidThreshold
  | SerializationError
  | ArithmeticOverflow
  | InvalidReceipt
  | ImageIdMismatch
  | RootMismatch
  | ProposalIdMismatch
  | NullifierAlreadyUsed
  | ThresholdNotMet
  | AlreadyExecuted

fun code :: "core_error \<Rightarrow> u32" where
  "code InstanceNotActive = 1000"
| "code ProposalExpiredOrExecuted = 1001"
| "code ActionBytesTooLong = 1002"
| "code InvalidThreshold = 1003"
| "code SerializationError = 1004"
| "code ArithmeticOverflow = 1005"
| "code InvalidReceipt = 2000"
| "code ImageIdMismatch = 2001"
| "code RootMismatch = 2002"
| "code ProposalIdMismatch = 2003"
| "code NullifierAlreadyUsed = 3000"
| "code ThresholdNotMet = 4000"
| "code AlreadyExecuted = 4001"

definition from_code :: "u32 \<Rightarrow> core_error option" where
  "from_code c =
     (if c = 1000 then Some InstanceNotActive
      else if c = 1001 then Some ProposalExpiredOrExecuted
      else if c = 1002 then Some ActionBytesTooLong
      else if c = 1003 then Some InvalidThreshold
      else if c = 1004 then Some SerializationError
      else if c = 1005 then Some ArithmeticOverflow
      else if c = 2000 then Some InvalidReceipt
      else if c = 2001 then Some ImageIdMismatch
      else if c = 2002 then Some RootMismatch
      else if c = 2003 then Some ProposalIdMismatch
      else if c = 3000 then Some NullifierAlreadyUsed
      else if c = 4000 then Some ThresholdNotMet
      else if c = 4001 then Some AlreadyExecuted
      else None)"

fun display :: "core_error \<Rightarrow> string" where
  "display InstanceNotActive = ''E1000: instance not active''"
| "display ProposalExpiredOrExecuted = ''E1001: proposal expired or executed''"
| "display ActionBytesTooLong = ''E1002: action bytes too long''"
| "display InvalidThreshold = ''E1003: invalid threshold''"
| "display SerializationError = ''E1004: serialization error''"
| "display ArithmeticOverflow = ''E1005: arithmetic overflow''"
| "display InvalidReceipt = ''E2000: invalid receipt''"
| "display ImageIdMismatch = ''E2001: image id mismatch''"
| "display RootMismatch = ''E2002: root mismatch''"
| "display ProposalIdMismatch = ''E2003: proposal id mismatch''"
| "display NullifierAlreadyUsed = ''E3000: nullifier already used''"
| "display ThresholdNotMet = ''E4000: threshold not met''"
| "display AlreadyExecuted = ''E4001: already executed''"

text \<open>Four decimal digits, as the texts carry their codes.\<close>

definition dec_digit :: "nat \<Rightarrow> char" where
  "dec_digit n = ''0123456789'' ! n"

definition dec4 :: "nat \<Rightarrow> string" where
  "dec4 n = [dec_digit (n div 1000 mod 10), dec_digit (n div 100 mod 10),
             dec_digit (n div 10 mod 10), dec_digit (n mod 10)]"

lemma from_code_code: "from_code (code e) = Some e"
  by (cases e) (simp_all add: from_code_def)

lemma code_from_code: "from_code c = Some e \<Longrightarrow> code e = c"
  by (auto simp: from_code_def split: if_splits)

interpretation catalog: exact_codec code from_code "\<lambda>_. True"
  by unfold_locales (auto simp: from_code_code code_from_code)

text \<open>
  The error codes are a stable, canonical encoding. \<open>from_code\<close> answers a variant exactly
  for that variant's own code, so no two variants share a code and every other number is
  rejected.
\<close>

theorem from_code_iff: "from_code c = Some e \<longleftrightarrow> code e = c"
  using catalog.dec_eq_Some by simp

lemma code_inject: "code e = code e' \<longleftrightarrow> e = e'"
  using catalog.enc_inject by simp

lemma display_code: "take 6 (display e) = ''E'' @ dec4 (unat (code e)) @ '':''"
  by (cases e) (simp_all add: dec4_def dec_digit_def)

text \<open>The class of an error is the thousands digit of its code.\<close>

lemma code_classes: "unat (code e) div 1000 \<in> {1, 2, 3, 4}"
  by (cases e) simp_all

end
