(* ===== verification/Core_State.thy ===== *)
theory Core_State
  imports Core_Error
begin

text \<open>
  The account bodies of the verifier program (\<open>private_multisig_core/src/state.rs\<close>) and its
  instructions (\<open>instructions.rs\<close>), with the two validations. How the bodies are laid out in
  account data is the Borsh crate's business: the components that need it take an encoder
  and a decoder (\<open>Borsh\<close> gives the layout the repository's tests pin).
\<close>

definition MAX_ACTION_BYTES_LEN :: nat where
  "MAX_ACTION_BYTES_LEN = 4096"

record multisig_state =
  create_key :: bytes32
  members_root :: bytes32
  st_m :: u8
  st_n :: u32
  proposal_count :: u64

record proposal =
  action_bytes :: "byte list"
  target_program :: bytes32
  approvals_count :: u32
  executed :: bool

datatype nullifier_entry = NullifierEntry

record vault =
  vault_create_key :: bytes32

definition validate_threshold :: "u8 \<Rightarrow> u32 \<Rightarrow> core_error + unit" where
  "validate_threshold m' n' =
     (if m' = 0 \<or> n' = 0 \<or> ucast m' > n' then Inl InvalidThreshold else Inr ())"

definition validate :: "multisig_state \<Rightarrow> core_error + unit" where
  "validate s = validate_threshold (st_m s) (st_n s)"

definition validate_action_bytes :: "byte list \<Rightarrow> core_error + unit" where
  "validate_action_bytes bs =
     (if length bs > MAX_ACTION_BYTES_LEN then Inl ActionBytesTooLong else Inr ())"

datatype instruction =
    CreateMultisig (ix_create_key: bytes32) bytes32 u8 u32
  | Propose (ix_create_key: bytes32) u64 "byte list" bytes32
  | Approve (ix_create_key: bytes32) u64 bytes32 "byte list"
  | Execute (ix_create_key: bytes32) u64
  | CreateVault (ix_create_key: bytes32)
  | Reject (ix_create_key: bytes32)

lemma unat_ucast_u8: "unat (ucast b :: u32) = unat b" for b :: u8
  by (simp add: unsigned_ucast_eq take_bit_nat_eq_self_iff order_less_trans [OF unat_byte_less])

lemma validate_threshold_ok:
  "validate_threshold m' n' = Inr u \<longleftrightarrow> 1 \<le> unat m' \<and> unat m' \<le> unat n'"
proof -
  have "ucast m' > n' \<longleftrightarrow> unat n' < unat m'"
    by (simp add: word_less_nat_alt unat_ucast_u8)
  moreover have "m' = 0 \<longleftrightarrow> unat m' = 0" "n' = 0 \<longleftrightarrow> unat n' = 0"
    by (simp_all add: unsigned_eq_0_iff)
  ultimately show ?thesis by (auto simp: validate_threshold_def)
qed

lemma validate_threshold_err: "validate_threshold m' n' = Inl e \<Longrightarrow> e = InvalidThreshold"
  by (auto simp: validate_threshold_def split: if_splits)

text \<open>
  \<open>validate_threshold\<close> accepts exactly the reachable quorums: it succeeds if and only if
  \<open>1 <= m <= n\<close> as numbers (the \<open>u8\<close> threshold is widened to \<open>u32\<close> without loss), and every
  other pair is \<open>InvalidThreshold\<close>.
\<close>

theorem validate_threshold_spec:
  "validate_threshold m' n' =
     (if 1 \<le> unat m' \<and> unat m' \<le> unat n' then Inr () else Inl InvalidThreshold)"
  using validate_threshold_ok [of m' n' "()"]
  by (cases "validate_threshold m' n'") (auto dest: validate_threshold_err)

end
