(* ===== verification/Borsh.thy ===== *)
theory Borsh
  imports Core_State
begin

text \<open>
  The layout of the account bodies that the known-answer tests pin
  (\<open>private_multisig_core/tests/abi_wire_format.rs\<close>): fields in order, integers
  little-endian, vectors with a four-byte length, a flag as one byte 0 or 1. The encoder is
  the Borsh crate's and a parameter of the program's model; this concrete pair is the
  instance on which the examples run, and shows that what is assumed of the parameter holds
  of the pinned layout.
\<close>

definition state_bytes :: "multisig_state \<Rightarrow> byte list" where
  "state_bytes s = bytes_of (create_key s) @ bytes_of (members_root s) @ [st_m s] @
     to_le (st_n s) @ to_le (proposal_count s)"

definition parse_state :: "byte list \<Rightarrow> multisig_state option" where
  "parse_state bs =
     (if length bs = 77
      then Some \<lparr>create_key = array32 (slice bs 0 32), members_root = array32 (slice bs 32 32),
                 st_m = bs ! 64, st_n = of_le (slice bs 65 4), proposal_count = of_le (slice bs 69 8)\<rparr>
      else None)"

definition proposal_bytes :: "proposal \<Rightarrow> byte list" where
  "proposal_bytes p = to_le (of_nat (length (action_bytes p)) :: u32) @ action_bytes p @
     bytes_of (target_program p) @ to_le (approvals_count p) @ [of_bool (executed p)]"

definition parse_proposal :: "byte list \<Rightarrow> proposal option" where
  "parse_proposal bs =
     (let k = le_nat (take 4 bs); rest = drop (4 + k) bs
      in if length bs = k + 41 \<and> (rest ! 36 = 0 \<or> rest ! 36 = 1)
         then Some \<lparr>action_bytes = slice bs 4 k, target_program = array32 (slice rest 0 32),
                    approvals_count = of_le (slice rest 32 4), executed = (rest ! 36 = 1)\<rparr>
         else None)"

lemma split_at: "take n (drop k s) @ drop (k + n) s = drop k s"
  by (metis append_take_drop_id drop_drop add.commute)

lemma length_state_bytes [layout_len]: "length (state_bytes s) = 77"
  by (simp add: state_bytes_def)

lemma parse_state_bytes: "parse_state (state_bytes s) = Some s"
  by (cases s) (simp add: parse_state_def length_state_bytes,
    simp add: state_bytes_def slice_def nth_append of_le_to_le)

lemma state_bytes_parse:
  assumes "parse_state bs = Some s" shows "state_bytes s = bs"
proof -
  have l: "length bs = 77" using assms by (simp add: parse_state_def split: if_splits)
  have "bs = take 32 bs @ take 32 (drop 32 bs) @ take 1 (drop 64 bs) @ take 4 (drop 65 bs) @
      take 8 (drop 69 bs)"
    using split_at [of 4 65 bs] split_at [of 1 64 bs] split_at [of 32 32 bs] split_at [of 32 0 bs] l
    by simp
  moreover have "take 1 (drop 64 bs) = [bs ! 64]" using l by (simp add: take_Suc_conv_app_nth)
  moreover have "s = \<lparr>create_key = array32 (slice bs 0 32), members_root = array32 (slice bs 32 32),
      st_m = bs ! 64, st_n = of_le (slice bs 65 4), proposal_count = of_le (slice bs 69 8)\<rparr>"
    using assms l by (simp add: parse_state_def)
  ultimately show ?thesis using l by (simp add: state_bytes_def slice_def to_le_of_le)
qed

interpretation state_layout: exact_codec state_bytes parse_state "\<lambda>_. True"
  by unfold_locales (simp_all add: parse_state_bytes state_bytes_parse)

lemma le_nat_to_le: "8 * (LENGTH('a) div 8) = LENGTH('a) \<Longrightarrow> le_nat (to_le w) = unat w"
  for w :: "'a::len word"
  using to_le_of_le [where 'a = 'a] of_le_to_le [of w]
proof -
  assume a: "8 * (LENGTH('a) div 8) = LENGTH('a)"
  then have "(256::nat) ^ (LENGTH('a) div 8) = 2 ^ LENGTH('a)"
    by (metis (no_types) power_mult pow256)
  then show ?thesis using unsigned_less [of w] by (simp add: to_le_def le_nat_le_bytes)
qed

lemma parse_proposal_bytes:
  assumes "length (action_bytes p) < 2 ^ 32"
  shows "parse_proposal (proposal_bytes p) = Some p"
proof -
  let ?a = "action_bytes p"
  have k: "le_nat (to_le (of_nat (length ?a) :: u32)) = length ?a"
    using assms by (simp add: le_nat_to_le unsigned_of_nat take_bit_nat_eq_self)
  have t: "take 4 (proposal_bytes p) = to_le (of_nat (length ?a) :: u32)"
    by (simp add: proposal_bytes_def)
  have d: "drop (4 + length ?a) (proposal_bytes p)
      = bytes_of (target_program p) @ to_le (approvals_count p) @ [of_bool (executed p)]"
    by (simp add: proposal_bytes_def)
  have s: "slice (proposal_bytes p) 4 (length ?a) = ?a"
    by (simp add: proposal_bytes_def slice_def)
  show ?thesis
    unfolding parse_proposal_def Let_def t k d s
    by (cases p) (simp add: proposal_bytes_def slice_def nth_append of_le_to_le)
qed

definition storable :: "proposal \<Rightarrow> bool" where
  "storable p \<longleftrightarrow> length (action_bytes p) < 2 ^ 32"

lemma proposal_bytes_parse:
  assumes "parse_proposal bs = Some p" shows "storable p \<and> proposal_bytes p = bs"
proof -
  define k where "k = le_nat (take 4 bs)"
  let ?r = "drop (4 + k) bs"
  have l: "length bs = k + 41" and f: "?r ! 36 = 0 \<or> ?r ! 36 = 1"
    and p: "p = \<lparr>action_bytes = slice bs 4 k, target_program = array32 (slice ?r 0 32),
       approvals_count = of_le (slice ?r 32 4), executed = (?r ! 36 = 1)\<rparr>"
    using assms unfolding parse_proposal_def Let_def if_Some_iff k_def by blast+
  have t4: "length (take 4 bs) = 4" using l by simp
  have k32: "k < 2 ^ 32" using le_nat_less [of "take 4 bs"] by (simp add: k_def t4 del: length_take)
  have a: "length (action_bytes p) = k" using p l by (simp add: slice_def)
  have t: "to_le (of_nat k :: u32) = take 4 bs"
    using to_le_of_le [of "take 4 bs", where 'a = 32] t4 by (simp add: of_le_def k_def del: length_take)
  have r: "?r = take 32 ?r @ take 4 (drop 32 ?r) @ [?r ! 36]"
    using split_at [of 4 32 ?r] split_at [of 32 0 ?r] l
    by (simp add: take_Suc_conv_app_nth flip: Cons_nth_drop_Suc)
  have "bs = take 4 bs @ take k (drop 4 bs) @ ?r"
    using split_at [of k 4 bs] split_at [of 4 0 bs] by simp
  with r have "bs = take 4 bs @ take k (drop 4 bs) @ take 32 ?r @ take 4 (drop 32 ?r) @ [?r ! 36]"
    by simp
  moreover have "of_bool (?r ! 36 = 1) = ?r ! 36" using f by auto
  ultimately have "proposal_bytes p = bs"
    using l t by (simp add: proposal_bytes_def a p slice_def to_le_of_le)
  with a k32 show ?thesis by (simp add: storable_def)
qed

interpretation proposal_layout: exact_codec proposal_bytes parse_proposal storable
  by unfold_locales (auto simp: storable_def intro: parse_proposal_bytes dest: proposal_bytes_parse)

end
