(* ===== verification/Hashing.thy ===== *)
theory Hashing
  imports Prelude
begin

text \<open>
  The \<open>Hasher\<close> trait (\<open>crypto/src/hash.rs\<close>). Its one required method,
  \<open>hash : &[u8] -> [u8; 32]\<close>, is the parameter \<open>H\<close> of every definition that hashes;
  \<open>Sha256Hasher\<close> implements it with the \<open>sha2\<close> crate. The provided methods are
  modelled with the buffers they build. Nothing is assumed of \<open>H\<close> in general (no function
  onto 32 bytes is injective): where a property rests on collision resistance it names the
  finitely many strings that are hashed, and says that \<open>H\<close> tells those apart.
\<close>

type_synonym hasher = "byte list \<Rightarrow> bytes32"

definition HASH_LEN :: nat where
  "HASH_LEN = 32"

definition DOMAIN_LEAF :: byte where
  "DOMAIN_LEAF = 0x00"

definition DOMAIN_NODE :: byte where
  "DOMAIN_NODE = 0x01"

definition hash_pair :: "hasher \<Rightarrow> bytes32 \<Rightarrow> bytes32 \<Rightarrow> bytes32" where
  "hash_pair H left right = H (bytes_of left @ bytes_of right)"

definition leaf_preimage :: "bytes32 \<Rightarrow> byte list" where
  "leaf_preimage leaf = [DOMAIN_LEAF] @ bytes_of leaf"

definition hash_leaf :: "hasher \<Rightarrow> bytes32 \<Rightarrow> bytes32" where
  "hash_leaf H leaf = H (leaf_preimage leaf)"

definition node_preimage :: "bytes32 \<Rightarrow> bytes32 \<Rightarrow> byte list" where
  "node_preimage left right = [DOMAIN_NODE] @ bytes_of left @ bytes_of right"

definition hash_node :: "hasher \<Rightarrow> bytes32 \<Rightarrow> bytes32 \<Rightarrow> bytes32" where
  "hash_node H left right = H (node_preimage left right)"

text \<open>\<open>H\<close> has no collision among the strings \<open>qs\<close>.\<close>

definition collision_free :: "hasher \<Rightarrow> byte list list \<Rightarrow> bool" where
  "collision_free H qs \<longleftrightarrow> (\<forall>x \<in> set qs. \<forall>y \<in> set qs. H x = H y \<longrightarrow> x = y)"

lemma collision_freeD:
  "collision_free H qs \<Longrightarrow> H x = H y \<Longrightarrow> x \<in> set qs \<Longrightarrow> y \<in> set qs \<Longrightarrow> x = y"
  by (auto simp: collision_free_def)

lemma collision_free_subset:
  "collision_free H qs \<Longrightarrow> set rs \<subseteq> set qs \<Longrightarrow> collision_free H rs"
  unfolding collision_free_def by blast

lemma collision_free_distinct: "distinct (map H qs) \<Longrightarrow> collision_free H qs"
  by (auto simp: collision_free_def distinct_map inj_on_def)

lemma collision_free_code [code]:
  "collision_free H qs \<longleftrightarrow> distinct (map H (remdups qs))"
  by (auto simp: collision_free_def distinct_map inj_on_def)

section \<open>Domain separation\<close>

lemma leaf_preimage_inj [simp]: "leaf_preimage a = leaf_preimage b \<longleftrightarrow> a = b"
  by (simp add: leaf_preimage_def)

lemma node_preimage_inj [simp]:
  "node_preimage a b = node_preimage c d \<longleftrightarrow> a = c \<and> b = d"
  by (simp add: node_preimage_def)

lemma length_leaf_preimage [layout_len]: "length (leaf_preimage a) = 1 + HASH_LEN"
  by (simp add: leaf_preimage_def HASH_LEN_def)

lemma length_node_preimage [layout_len]: "length (node_preimage a b) = 1 + 2 * HASH_LEN"
  by (simp add: node_preimage_def HASH_LEN_def)

lemma leaf_neq_node_preimage [simp]:
  "leaf_preimage a \<noteq> node_preimage b c" "node_preimage b c \<noteq> leaf_preimage a"
  by (simp_all add: leaf_preimage_def node_preimage_def DOMAIN_LEAF_def DOMAIN_NODE_def)

lemma hash_leaf_inject:
  "collision_free H qs \<Longrightarrow> leaf_preimage a \<in> set qs \<Longrightarrow> leaf_preimage b \<in> set qs \<Longrightarrow>
   hash_leaf H a = hash_leaf H b \<longleftrightarrow> a = b"
  unfolding hash_leaf_def by (auto dest: collision_freeD)

lemma hash_node_inject:
  "collision_free H qs \<Longrightarrow> node_preimage a b \<in> set qs \<Longrightarrow> node_preimage c d \<in> set qs \<Longrightarrow>
   hash_node H a b = hash_node H c d \<longleftrightarrow> a = c \<and> b = d"
  unfolding hash_node_def by (auto dest: collision_freeD)

lemma hash_leaf_neq_node:
  "collision_free H qs \<Longrightarrow> leaf_preimage a \<in> set qs \<Longrightarrow> node_preimage b c \<in> set qs \<Longrightarrow>
   hash_leaf H a \<noteq> hash_node H b c"
  unfolding hash_leaf_def hash_node_def by (auto dest: collision_freeD)

section \<open>A concrete hasher for the examples\<close>

text \<open>
  The examples that show a property's hypotheses can hold instantiate \<open>H\<close> with this
  computable function, a linear form over the 32-byte words of the input; it stands for no
  code of the repository. Its values on the shapes the code hashes are closed forms, so
  that a whole Merkle path evaluates by word arithmetic.
\<close>

definition sample_word :: "byte list \<Rightarrow> nat \<Rightarrow> bytes32" where
  "sample_word bs i = array32 (take 32 (drop i bs))"

definition sample_hash :: hasher where
  "sample_hash bs =
     (if length bs = 136 then
        136 + sample_word bs 0 + 3 * sample_word bs 32 + 5 * array32 (take 8 (drop 64 bs))
          + 7 * sample_word bs 72 + 11 * sample_word bs 104
      else
        let k = length bs mod 32
        in of_nat (length bs) + of_nat (le_nat (take k bs)) + sample_word bs k
             + 3 * sample_word bs (k + 32) + 5 * sample_word bs (k + 64))"

lemma array32_Nil [simp]: "array32 [] = 0"
  by (simp add: array32_def of_le_def)

lemma sample_hash_leaf: "hash_leaf sample_hash a = 33 + a"
  by (simp add: hash_leaf_def leaf_preimage_def sample_hash_def sample_word_def DOMAIN_LEAF_def)

lemma sample_hash_node: "hash_node sample_hash a b = 66 + a + 3 * b"
  by (simp add: hash_node_def node_preimage_def sample_hash_def sample_word_def DOMAIN_NODE_def)

lemma sample_hash_1: "sample_hash (bytes_of a) = 32 + a"
  by (simp add: sample_hash_def sample_word_def)

lemma sample_hash_2: "sample_hash (bytes_of a @ bytes_of b) = 64 + a + 3 * b"
  by (simp add: sample_hash_def sample_word_def)

lemma sample_hash_3:
  "sample_hash (bytes_of a @ bytes_of b @ bytes_of c) = 96 + a + 3 * b + 5 * c"
  by (simp add: sample_hash_def sample_word_def)

lemma sample_hash_byte: "sample_hash [b] = 1 + of_nat (unat b)"
  by (simp add: sample_hash_def sample_word_def)

lemmas sample_hash_eqs =
  sample_hash_leaf sample_hash_node sample_hash_1 sample_hash_2 sample_hash_3 sample_hash_byte

end
