(* ===== verification/Identity.thy ===== *)
theory Identity
  imports Hashing
begin

text \<open>
  Member identities and nullifiers (\<open>crypto/src/identity.rs\<close>, \<open>crypto/src/nullifier.rs\<close>):
  \<open>commitment = H(sk || salt)\<close> is what is enrolled as a Merkle leaf,
  \<open>nullifier = H(sk || proposal_id)\<close> marks a member's one vote on a proposal.
\<close>

definition SK_LEN :: nat where
  "SK_LEN = 32"

definition SALT_LEN :: nat where
  "SALT_LEN = 32"

record identity =
  sk :: bytes32
  salt :: bytes32

definition identity_new :: "bytes32 \<Rightarrow> bytes32 \<Rightarrow> identity" where
  "identity_new sk' salt' = \<lparr>sk = sk', salt = salt'\<rparr>"

datatype identity_commitment = IdentityCommitment bytes32

fun commitment_bytes :: "identity_commitment \<Rightarrow> bytes32" where
  "commitment_bytes (IdentityCommitment h) = h"

definition commitment_preimage :: "identity \<Rightarrow> byte list" where
  "commitment_preimage i = bytes_of (sk i) @ bytes_of (salt i)"

definition commitment :: "hasher \<Rightarrow> identity \<Rightarrow> identity_commitment" where
  "commitment H i = IdentityCommitment (H (commitment_preimage i))"

definition nullifier_preimage :: "bytes32 \<Rightarrow> bytes32 \<Rightarrow> byte list" where
  "nullifier_preimage sk' proposal_id = bytes_of sk' @ bytes_of proposal_id"

definition nullifier :: "hasher \<Rightarrow> bytes32 \<Rightarrow> bytes32 \<Rightarrow> bytes32" where
  "nullifier H sk' proposal_id = H (nullifier_preimage sk' proposal_id)"

definition identity_nullifier :: "hasher \<Rightarrow> identity \<Rightarrow> bytes32 \<Rightarrow> bytes32" where
  "identity_nullifier H i proposal_id = nullifier H (sk i) proposal_id"

text \<open>The \<open>Debug\<close> output of both types.\<close>

definition debug_identity :: "identity \<Rightarrow> string" where
  "debug_identity i =
     ''Identity { sk: '' @ [CHR 0x22] @ ''[REDACTED]'' @ [CHR 0x22] @ '', salt: ''
       @ [CHR 0x22] @ ''[REDACTED]'' @ [CHR 0x22] @ '' }''"

definition debug_commitment :: "identity_commitment \<Rightarrow> string" where
  "debug_commitment c =
     ''IdentityCommitment(0x'' @ hex_string (bytes_of (commitment_bytes c)) @ '')''"

lemma identity_new_sel [simp]:
  "sk (identity_new a b) = a" "salt (identity_new a b) = b" "identity_new (sk i) (salt i) = i"
  by (simp_all add: identity_new_def)

section \<open>What the two hashes bind\<close>

lemma commitment_preimage_inj [simp]:
  "commitment_preimage i = commitment_preimage j \<longleftrightarrow> i = j"
  by (cases i; cases j) (simp add: commitment_preimage_def)

lemma nullifier_preimage_inj [simp]:
  "nullifier_preimage a p = nullifier_preimage b q \<longleftrightarrow> a = b \<and> p = q"
  by (simp add: nullifier_preimage_def)

lemma commitment_bytes_inj [simp]: "commitment_bytes c = commitment_bytes d \<longleftrightarrow> c = d"
  by (cases c; cases d) simp

lemma commitment_inject:
  "collision_free H qs \<Longrightarrow> commitment_preimage i \<in> set qs \<Longrightarrow> commitment_preimage j \<in> set qs \<Longrightarrow>
   commitment H i = commitment H j \<longleftrightarrow> i = j"
  unfolding commitment_def by (auto dest: collision_freeD)

lemma nullifier_inject:
  "collision_free H qs \<Longrightarrow> nullifier_preimage a p \<in> set qs \<Longrightarrow>
   nullifier_preimage b q \<in> set qs \<Longrightarrow>
   nullifier H a p = nullifier H b q \<longleftrightarrow> a = b \<and> p = q"
  unfolding nullifier_def by (auto dest: collision_freeD)

text \<open>Without any assumption: different nullifiers for one proposal come from different keys.\<close>

lemma nullifier_neq_sk: "nullifier H a p \<noteq> nullifier H b p \<Longrightarrow> a \<noteq> b"
  by auto

end
