(* ===== verification/Merkle.thy ===== *)
theory Merkle
  imports Identity
begin

text \<open>
  The fixed-depth Merkle tree (\<open>crypto/src/merkle.rs\<close>): the tree keeps only its leaves and a
  table of the hashes of all-empty subtrees; \<open>node_at\<close> recomputes a node on demand and takes
  the table entry for a subtree with no leaf. \<open>verify_proof\<close> walks from a leaf to the root.
  The loops over \<open>0..MERKLE_DEPTH\<close> are folds over the levels with the loop's variables as
  the accumulator, arrays are lists updated in place by index.
\<close>

definition MERKLE_DEPTH :: nat where
  "MERKLE_DEPTH = 20"

definition MAX_LEAVES :: nat where
  "MAX_LEAVES = push_bit MERKLE_DEPTH 1"

datatype merkle_error = Full nat | IndexOutOfRange nat nat

record merkle_proof =
  siblings :: "bytes32 list"
  indices :: "bool list"

record merkle_tree =
  leaves :: "bytes32 list"
  zero_hashes :: "bytes32 list"

definition merkle_new :: "hasher \<Rightarrow> merkle_tree" where
  "merkle_new H =
     (let zs = (replicate (MERKLE_DEPTH + 1) 0)[0 := hash_leaf H 0];
          zs = fold (\<lambda>i zs. let prev = zs ! (i - 1) in zs[i := hash_node H prev prev])
                 [1..<MERKLE_DEPTH + 1] zs
      in \<lparr>leaves = [], zero_hashes = zs\<rparr>)"

definition merkle_len :: "merkle_tree \<Rightarrow> nat" where
  "merkle_len t = length (leaves t)"

definition merkle_is_empty :: "merkle_tree \<Rightarrow> bool" where
  "merkle_is_empty t \<longleftrightarrow> leaves t = []"

definition merkle_capacity :: "merkle_tree \<Rightarrow> nat" where
  "merkle_capacity t = MAX_LEAVES"

definition merkle_insert :: "merkle_tree \<Rightarrow> bytes32 \<Rightarrow> (merkle_error + nat) \<times> merkle_tree" where
  "merkle_insert t leaf =
     (if length (leaves t) \<ge> MAX_LEAVES then (Inl (Full MAX_LEAVES), t)
      else let index = length (leaves t)
           in (Inr index, t\<lparr>leaves := leaves t @ [leaf]\<rparr>))"

definition merkle_leaf :: "merkle_tree \<Rightarrow> nat \<Rightarrow> bytes32 option" where
  "merkle_leaf t index = (if index < length (leaves t) then Some (leaves t ! index) else None)"

fun node_at :: "hasher \<Rightarrow> merkle_tree \<Rightarrow> nat \<Rightarrow> nat \<Rightarrow> bytes32" where
  "node_at H t 0 pos =
     (if pos < length (leaves t) then hash_leaf H (leaves t ! pos) else zero_hashes t ! 0)"
| "node_at H t (Suc level) pos =
     (let span = push_bit (Suc level) 1;
          start = pos * span
      in if start \<ge> length (leaves t) then zero_hashes t ! Suc level
         else hash_node H (node_at H t level (pos * 2)) (node_at H t level (pos * 2 + 1)))"

definition merkle_root :: "hasher \<Rightarrow> merkle_tree \<Rightarrow> bytes32" where
  "merkle_root H t = node_at H t MERKLE_DEPTH 0"

text \<open>The body of the loop in \<open>MerkleTree::proof\<close>; its variables are \<open>(current, siblings, indices)\<close>.\<close>

fun proof_step ::
  "hasher \<Rightarrow> merkle_tree \<Rightarrow> nat \<Rightarrow> nat \<times> bytes32 list \<times> bool list \<Rightarrow> nat \<times> bytes32 list \<times> bool list"
where
  "proof_step H t level (current, sibs, inds) =
     (let sibling = current XOR 1
      in (drop_bit 1 current,
          sibs[level := node_at H t level sibling],
          inds[level := (current AND 1 = 1)]))"

definition merkle_prove :: "hasher \<Rightarrow> merkle_tree \<Rightarrow> nat \<Rightarrow> merkle_error + merkle_proof" where
  "merkle_prove H t index =
     (if index \<ge> length (leaves t) then Inl (IndexOutOfRange index (length (leaves t)))
      else let (current, sibs, inds) =
             fold (proof_step H t) [0..<MERKLE_DEPTH]
               (index, replicate MERKLE_DEPTH 0, replicate MERKLE_DEPTH False)
           in Inr \<lparr>siblings = sibs, indices = inds\<rparr>)"

definition verify_step :: "hasher \<Rightarrow> merkle_proof \<Rightarrow> nat \<Rightarrow> bytes32 \<Rightarrow> bytes32" where
  "verify_step H p level current =
     (let sibling = siblings p ! level
      in if indices p ! level then hash_node H sibling current else hash_node H current sibling)"

definition verify_proof :: "hasher \<Rightarrow> bytes32 \<Rightarrow> bytes32 \<Rightarrow> merkle_proof \<Rightarrow> bool" where
  "verify_proof H root leaf p =
     (if leaf = 0 then False
      else fold (verify_step H p) [0..<MERKLE_DEPTH] (hash_leaf H leaf) = root)"

text \<open>
  The arrays of a \<open>MerkleProof\<close> have \<open>MERKLE_DEPTH\<close> elements; a tree is well formed when
  its table is the one \<open>new\<close> computes and it holds at most \<open>MAX_LEAVES\<close> leaves.
\<close>

definition wf_proof :: "merkle_proof \<Rightarrow> bool" where
  "wf_proof p \<longleftrightarrow> length (siblings p) = MERKLE_DEPTH \<and> length (indices p) = MERKLE_DEPTH"

definition wf_tree :: "hasher \<Rightarrow> merkle_tree \<Rightarrow> bool" where
  "wf_tree H t \<longleftrightarrow>
     zero_hashes t = zero_hashes (merkle_new H) \<and> length (leaves t) \<le> MAX_LEAVES"

section \<open>Insertion keeps the tree well formed\<close>

inductive merkle_step :: "merkle_tree \<Rightarrow> merkle_tree \<Rightarrow> bool" where
  merkle_stepI: "merkle_insert t leaf = (r, t') \<Longrightarrow> merkle_step t t'"

inductive_cases merkle_stepE: "merkle_step t t'"

lemma merkle_insert_cases:
  assumes "merkle_insert t leaf = (r, t')"
  obtains (full) "length (leaves t) \<ge> MAX_LEAVES" "r = Inl (Full MAX_LEAVES)" "t' = t"
  | (added) "length (leaves t) < MAX_LEAVES" "r = Inr (length (leaves t))"
      "t' = t\<lparr>leaves := leaves t @ [leaf]\<rparr>"
  using assms by (auto simp: merkle_insert_def Let_def split: if_splits)

lemma wf_tree_new: "wf_tree H (merkle_new H)"
  by (simp add: wf_tree_def merkle_new_def Let_def)

lemma leaves_new [simp]: "leaves (merkle_new H) = []"
  by (simp add: merkle_new_def Let_def)

lemma wf_tree_insert: "wf_tree H t \<Longrightarrow> merkle_insert t leaf = (r, t') \<Longrightarrow> wf_tree H t'"
  by (erule merkle_insert_cases) (auto simp: wf_tree_def)

interpretation merkle_sys: invariant_system "\<lambda>t. t = merkle_new H" merkle_step "wf_tree H"
  for H :: hasher
  by unfold_locales (auto simp: wf_tree_new elim!: merkle_stepE intro: wf_tree_insert)

text \<open>Leaves are only ever appended: an earlier tree's leaves stay a prefix.\<close>

interpretation merkle_mono: monotone_system merkle_step
    "\<lambda>s t. (\<exists>xs. leaves t = leaves s @ xs) \<and> zero_hashes t = zero_hashes s"
  by unfold_locales (auto elim!: merkle_stepE elim: merkle_insert_cases)

section \<open>The lazily computed tree is the full tree\<close>

text \<open>
  The reference: the perfect binary tree of a given height over a leaf at every position,
  and the hash of the all-zero one. \<open>padded t\<close> puts the zero leaf in every free slot.
\<close>

fun full_node :: "hasher \<Rightarrow> (nat \<Rightarrow> bytes32) \<Rightarrow> nat \<Rightarrow> nat \<Rightarrow> bytes32" where
  "full_node H f 0 pos = hash_leaf H (f pos)"
| "full_node H f (Suc l) pos = hash_node H (full_node H f l (2 * pos)) (full_node H f l (2 * pos + 1))"

primrec zero_node :: "hasher \<Rightarrow> nat \<Rightarrow> bytes32" where
  "zero_node H 0 = hash_leaf H 0"
| "zero_node H (Suc l) = hash_node H (zero_node H l) (zero_node H l)"

definition padded :: "merkle_tree \<Rightarrow> nat \<Rightarrow> bytes32" where
  "padded t pos = (if pos < length (leaves t) then leaves t ! pos else 0)"

lemma zero_table_fold:
  "k \<le> n \<Longrightarrow>
   fold (\<lambda>i zs. let prev = zs ! (i - 1) in zs[i := hash_node H prev prev]) [1..<k + 1]
     ((replicate (n + 1) 0)[0 := hash_leaf H 0])
   = map (zero_node H) [0..<k + 1] @ replicate (n - k) 0"
proof (induction k)
  case 0
  then show ?case by simp
next
  case (Suc k)
  have "map (zero_node H) [0..<Suc k] ! k = zero_node H k" by (simp del: upt_Suc)
  then show ?case
    using Suc by (simp add: nth_append list_update_append replicate_update_first Let_def)
qed

lemma zero_hashes_new: "zero_hashes (merkle_new H) = map (zero_node H) [0..<MERKLE_DEPTH + 1]"
  using zero_table_fold [of MERKLE_DEPTH MERKLE_DEPTH H] by (simp add: merkle_new_def Let_def)

lemma zero_hashes_nth: "wf_tree H t \<Longrightarrow> l \<le> MERKLE_DEPTH \<Longrightarrow> zero_hashes t ! l = zero_node H l"
  by (simp add: wf_tree_def zero_hashes_new nth_append del: upt_Suc)

lemma full_node_zero:
  "(\<And>i. pos * 2 ^ l \<le> i \<Longrightarrow> i < (pos + 1) * 2 ^ l \<Longrightarrow> f i = 0) \<Longrightarrow>
   full_node H f l pos = zero_node H l"
proof (induction l arbitrary: pos)
  case (Suc l)
  have "full_node H f l (2 * pos) = zero_node H l"
    using Suc.prems by (intro Suc.IH) (auto simp: algebra_simps)
  moreover have "full_node H f l (2 * pos + 1) = zero_node H l"
    using Suc.prems by (intro Suc.IH) (auto simp: algebra_simps)
  ultimately show ?case by simp
qed simp

lemma node_at_full:
  "wf_tree H t \<Longrightarrow> l \<le> MERKLE_DEPTH \<Longrightarrow> node_at H t l pos = full_node H (padded t) l pos"
proof (induction l arbitrary: pos)
  case 0
  then show ?case by (simp add: padded_def zero_hashes_nth)
next
  case (Suc l)
  have span: "push_bit (Suc l) (1::nat) = 2 ^ Suc l" by (simp add: push_bit_eq_mult)
  show ?case
  proof (cases "length (leaves t) \<le> pos * 2 ^ Suc l")
    case True
    then have "full_node H (padded t) (Suc l) pos = zero_node H (Suc l)"
      by (intro full_node_zero) (simp add: padded_def)
    with True Suc.prems show ?thesis
      by (simp only: node_at.simps Let_def span if_True zero_hashes_nth)
  next
    case False
    then show ?thesis
      using Suc by (simp add: span mult.commute [of pos 2] del: power_Suc)
  qed
qed

lemma merkle_root_full: "wf_tree H t \<Longrightarrow> merkle_root H t = full_node H (padded t) MERKLE_DEPTH 0"
  by (simp add: merkle_root_def node_at_full)

lemma node_at_zero:
  "wf_tree H t \<Longrightarrow> l \<le> MERKLE_DEPTH \<Longrightarrow> length (leaves t) \<le> pos * 2 ^ l \<Longrightarrow>
   node_at H t l pos = zero_node H l"
  by (cases l) (simp_all add: zero_hashes_nth push_bit_eq_mult mult.commute)

section \<open>The two loops\<close>

primrec climb :: "hasher \<Rightarrow> merkle_proof \<Rightarrow> bytes32 \<Rightarrow> nat \<Rightarrow> bytes32" where
  "climb H p leaf 0 = hash_leaf H leaf"
| "climb H p leaf (Suc l) = verify_step H p l (climb H p leaf l)"

lemma verify_fold: "fold (verify_step H p) [0..<k] (hash_leaf H leaf) = climb H p leaf k"
  by (induction k) simp_all

lemma verify_proof_iff:
  "verify_proof H root leaf p \<longleftrightarrow> leaf \<noteq> 0 \<and> climb H p leaf MERKLE_DEPTH = root"
  by (simp add: verify_proof_def verify_fold)

lemma sibling_pos: "n XOR Suc 0 = (if even n then n + 1 else n - 1)" for n :: nat
  by (simp add: xor_Suc_0_eq)

lemma low_bit: "n mod 2 = Suc 0 \<longleftrightarrow> odd n" for n :: nat
  by (simp add: odd_iff_mod_2_eq_one)

lemma proof_fold:
  "k \<le> d \<Longrightarrow>
   fold (proof_step H t) [0..<k] (index, replicate d 0, replicate d False) =
     (index div 2 ^ k,
      map (\<lambda>l. node_at H t l ((index div 2 ^ l) XOR 1)) [0..<k] @ replicate (d - k) 0,
      map (\<lambda>l. odd (index div 2 ^ l)) [0..<k] @ replicate (d - k) False)"
proof (induction k)
  case (Suc k)
  then show ?case
    by (simp add: low_bit list_update_append replicate_update_first drop_bit_eq_div
        div_mult2_eq [symmetric] mult.commute)
qed simp

lemma merkle_prove_eq:
  "index < length (leaves t) \<Longrightarrow>
   merkle_prove H t index =
     Inr \<lparr>siblings = map (\<lambda>l. node_at H t l ((index div 2 ^ l) XOR 1)) [0..<MERKLE_DEPTH],
          indices = map (\<lambda>l. odd (index div 2 ^ l)) [0..<MERKLE_DEPTH]\<rparr>"
  by (simp add: merkle_prove_def proof_fold)

lemma merkle_prove_eq_Inr:
  "merkle_prove H t index = Inr p \<longleftrightarrow> index < length (leaves t) \<and>
     p = \<lparr>siblings = map (\<lambda>l. node_at H t l ((index div 2 ^ l) XOR 1)) [0..<MERKLE_DEPTH],
          indices = map (\<lambda>l. odd (index div 2 ^ l)) [0..<MERKLE_DEPTH]\<rparr>"
  using merkle_prove_eq [of index t H] by (auto simp: merkle_prove_def)

lemma wf_proof_prove: "merkle_prove H t index = Inr p \<Longrightarrow> wf_proof p"
  by (simp add: merkle_prove_eq_Inr wf_proof_def)

lemma climb_prove:
  assumes "wf_tree H t" "merkle_prove H t index = Inr p"
  shows "l \<le> MERKLE_DEPTH \<Longrightarrow>
    climb H p (leaves t ! index) l = full_node H (padded t) l (index div 2 ^ l)"
proof (induction l)
  case 0
  with assms show ?case by (simp add: merkle_prove_eq_Inr padded_def)
next
  case (Suc l)
  let ?q = "index div 2 ^ l"
  have up: "index div 2 ^ Suc l = ?q div 2" by (simp only: power_Suc2 div_mult2_eq)
  from Suc.prems assms have sib: "siblings p ! l = full_node H (padded t) l (?q XOR 1)"
    and ind: "indices p ! l = odd ?q"
    by (simp_all add: merkle_prove_eq_Inr node_at_full)
  from Suc have IH: "climb H p (leaves t ! index) l = full_node H (padded t) l ?q" by simp
  show ?case
  proof (cases "even ?q")
    case True
    then have "2 * (?q div 2) = ?q" by simp
    with True show ?thesis
      by (simp add: verify_step_def sib ind IH sibling_pos up del: power_Suc)
  next
    case False
    then have "2 * (?q div 2) + 1 = ?q" and "?q XOR Suc 0 = 2 * (?q div 2)"
      by (simp_all add: sibling_pos odd_two_times_div_two_nat)
    with False show ?thesis by (simp add: verify_step_def sib ind IH up del: power_Suc)
  qed
qed

section \<open>Which strings a verification hashes\<close>

text \<open>The position a proof's directions lead to, lowest level first.\<close>

primrec position :: "bool list \<Rightarrow> nat" where
  "position [] = 0"
| "position (b # bs) = of_bool b + 2 * position bs"

definition walk_preimage :: "hasher \<Rightarrow> merkle_proof \<Rightarrow> bytes32 \<Rightarrow> nat \<Rightarrow> byte list" where
  "walk_preimage H p leaf l =
     (if indices p ! l then node_preimage (siblings p ! l) (climb H p leaf l)
      else node_preimage (climb H p leaf l) (siblings p ! l))"

definition walk_queries :: "hasher \<Rightarrow> merkle_proof \<Rightarrow> bytes32 \<Rightarrow> byte list list" where
  "walk_queries H p leaf = leaf_preimage leaf # map (walk_preimage H p leaf) [0..<MERKLE_DEPTH]"

text \<open>The strings whose hashes are the tree's nodes on the path to a position.\<close>

definition tree_queries :: "hasher \<Rightarrow> merkle_tree \<Rightarrow> bool list \<Rightarrow> byte list list" where
  "tree_queries H t dirs =
     leaf_preimage (padded t (position dirs)) #
     map (\<lambda>l. let q = position (drop (Suc l) dirs)
              in node_preimage (node_at H t l (2 * q)) (node_at H t l (2 * q + 1)))
       [0..<MERKLE_DEPTH]"

lemma position_drop:
  "l < length bs \<Longrightarrow> position (drop l bs) = of_bool (bs ! l) + 2 * position (drop (Suc l) bs)"
  by (simp flip: Cons_nth_drop_Suc)

lemma climb_Suc: "climb H p leaf (Suc l) = H (walk_preimage H p leaf l)"
  by (simp add: verify_step_def walk_preimage_def hash_node_def)

lemma climb_down:
  assumes cf: "collision_free H (walk_queries H p leaf @ tree_queries H t (indices p))"
    and wt: "wf_tree H t" and wp: "wf_proof p"
    and top: "climb H p leaf MERKLE_DEPTH = full_node H (padded t) MERKLE_DEPTH 0"
    and l: "l \<le> MERKLE_DEPTH"
  shows "climb H p leaf l = full_node H (padded t) l (position (drop l (indices p)))"
  using l
proof (induction rule: inc_induct)
  case base
  then show ?case using top wp by (simp add: wf_proof_def)
next
  case (step l)
  let ?q = "position (drop (Suc l) (indices p))"
  let ?n = "node_preimage (full_node H (padded t) l (2 * ?q)) (full_node H (padded t) l (2 * ?q + 1))"
  from step have l: "l < MERKLE_DEPTH" by simp
  have "H (walk_preimage H p leaf l) = H ?n"
    using step.IH by (simp only: climb_Suc full_node.simps hash_node_def)
  moreover have "?n \<in> set (tree_queries H t (indices p))"
    using l by (auto simp: tree_queries_def node_at_full [OF wt] Let_def)
  moreover have "walk_preimage H p leaf l \<in> set (walk_queries H p leaf)"
    using l by (simp add: walk_queries_def)
  ultimately have "walk_preimage H p leaf l = ?n"
    using cf by (auto elim: collision_freeD)
  moreover have "position (drop l (indices p)) = of_bool (indices p ! l) + 2 * ?q"
    using l wp by (simp add: position_drop wf_proof_def)
  ultimately show ?case by (auto simp: walk_preimage_def split: if_splits)
qed

lemma verify_proof_leaf:
  assumes "collision_free H (walk_queries H p leaf @ tree_queries H t (indices p))"
    and "wf_tree H t" and "wf_proof p" and "verify_proof H (merkle_root H t) leaf p"
  shows "padded t (position (indices p)) = leaf"
proof -
  from assms(2,4) have top: "climb H p leaf MERKLE_DEPTH = full_node H (padded t) MERKLE_DEPTH 0"
    by (simp add: verify_proof_iff merkle_root_full)
  from climb_down [OF assms(1-3) top, of 0]
  have "hash_leaf H leaf = hash_leaf H (padded t (position (indices p)))" by simp
  moreover have "leaf_preimage leaf \<in> set (walk_queries H p leaf @ tree_queries H t (indices p))"
    and "leaf_preimage (padded t (position (indices p)))
           \<in> set (walk_queries H p leaf @ tree_queries H t (indices p))"
    by (simp_all add: walk_queries_def tree_queries_def)
  ultimately show ?thesis using hash_leaf_inject [OF assms(1)] by metis
qed

lemma map_walk_queries:
  "map H (walk_queries H p leaf) = map (climb H p leaf) [0..<MERKLE_DEPTH + 1]"
  by (simp add: walk_queries_def hash_leaf_def climb_Suc upt_0_Suc del: climb.simps(2) upt_Suc)

lemma position_bits: "position (map (\<lambda>l. odd (i div 2 ^ l)) [0..<n]) = i mod 2 ^ n"
proof (induction n arbitrary: i)
  case (Suc n)
  have "position (map (\<lambda>l. odd (i div 2 ^ l)) [0..<Suc n])
    = of_bool (odd i) + 2 * position (map (\<lambda>l. odd (i div 2 div 2 ^ l)) [0..<n])"
    by (simp add: upt_0_Suc comp_def div_mult2_eq del: upt_Suc)
  also have "\<dots> = i mod 2 ^ Suc n"
    by (simp only: Suc.IH mod_mult2_eq power_Suc mod_2_eq_odd add.commute)
  finally show ?case .
qed simp

lemma drop_bits:
  "drop k (map (\<lambda>l. odd (i div 2 ^ l)) [0..<n]) = map (\<lambda>l. odd (i div 2 ^ k div 2 ^ l)) [0..<n - k]"
  for i :: nat
proof (rule nth_equalityI)
  fix j assume "j < length (drop k (map (\<lambda>l. odd (i div 2 ^ l)) [0..<n]))"
  then have "k + j < n" and "j < n - k" by simp_all
  then show "drop k (map (\<lambda>l. odd (i div 2 ^ l)) [0..<n]) ! j
    = map (\<lambda>l. odd (i div 2 ^ k div 2 ^ l)) [0..<n - k] ! j"
    by (simp add: power_add div_mult2_eq)
qed simp

lemma position_drop_bits:
  assumes "i < 2 ^ n" "k \<le> n"
  shows "position (drop k (map (\<lambda>l. odd (i div 2 ^ l)) [0..<n])) = i div 2 ^ k"
proof -
  have "i < 2 ^ (n - k) * 2 ^ k" using assms by (simp flip: power_add)
  then have "i div 2 ^ k < 2 ^ (n - k)" by (rule less_mult_imp_div_less)
  then show ?thesis by (simp add: drop_bits position_bits)
qed

lemma honest_queries:
  assumes wt: "wf_tree H t" and p: "merkle_prove H t i = Inr p"
  shows "tree_queries H t (indices p) = walk_queries H p (leaves t ! i)"
    and "position (indices p) = i"
proof -
  have i: "i < 2 ^ MERKLE_DEPTH" and il: "i < length (leaves t)"
    using assms by (simp_all add: wf_tree_def MAX_LEAVES_def push_bit_eq_mult merkle_prove_eq_Inr)
  have ind: "indices p = map (\<lambda>l. odd (i div 2 ^ l)) [0..<MERKLE_DEPTH]"
    using p by (simp add: merkle_prove_eq_Inr)
  have pos: "position (drop l (indices p)) = i div 2 ^ l" if "l \<le> MERKLE_DEPTH" for l
    using position_drop_bits [OF i that] by (simp add: ind)
  show p0: "position (indices p) = i" using pos [of 0] by simp
  have "node_preimage (node_at H t l (2 * (i div 2 ^ Suc l))) (node_at H t l (2 * (i div 2 ^ Suc l) + 1))
     = walk_preimage H p (leaves t ! i) l" if l: "l < MERKLE_DEPTH" for l
  proof -
    let ?q = "i div 2 ^ l"
    have up: "i div 2 ^ Suc l = ?q div 2" by (simp only: power_Suc2 div_mult2_eq)
    have sib: "siblings p ! l = node_at H t l (?q XOR Suc 0)" and dir: "indices p ! l = odd ?q"
      using p l by (simp_all add: merkle_prove_eq_Inr)
    have cl: "climb H p (leaves t ! i) l = node_at H t l ?q"
      using climb_prove [OF wt p, of l] l by (simp add: node_at_full [OF wt])
    show ?thesis
      by (cases "even ?q")
        (simp_all add: walk_preimage_def sib dir cl up sibling_pos odd_two_times_div_two_nat del: power_Suc)
  qed
  then show "tree_queries H t (indices p) = walk_queries H p (leaves t ! i)"
    using il by (simp add: tree_queries_def walk_queries_def p0 pos padded_def Let_def del: power_Suc)
qed

lemma prove_verifies:
  assumes "wf_tree H t" and "index < length (leaves t)" and "leaves t ! index \<noteq> 0"
  shows "\<exists>p. merkle_prove H t index = Inr p \<and> wf_proof p \<and>
             verify_proof H (merkle_root H t) (leaves t ! index) p"
proof -
  obtain p where p: "merkle_prove H t index = Inr p"
    using merkle_prove_eq [OF assms(2)] by blast
  have "index < 2 ^ MERKLE_DEPTH"
    using assms(1,2) by (simp add: wf_tree_def MAX_LEAVES_def push_bit_eq_mult)
  then have "verify_proof H (merkle_root H t) (leaves t ! index) p"
    using climb_prove [OF assms(1) p, of MERKLE_DEPTH] assms
    by (simp add: verify_proof_iff merkle_root_full)
  with p show ?thesis by (blast intro: wf_proof_prove)
qed

section \<open>A worked example\<close>

text \<open>The tree over two leaves under the sample hasher, and the path of its first leaf.\<close>

definition sample_tree :: merkle_tree where
  "sample_tree =
     snd (merkle_insert (snd (merkle_insert (merkle_new sample_hash) 7)) 0x1234)"

lemma sample_tree: "wf_tree sample_hash sample_tree" "leaves sample_tree = [7, 0x1234]"
  by (simp_all add: sample_tree_def merkle_insert_def wf_tree_def merkle_new_def Let_def
      MAX_LEAVES_def MERKLE_DEPTH_def)

lemma zero_node_sample:
  "zero_node sample_hash 0 = 33"
  "zero_node sample_hash (Suc l) = 66 + 4 * zero_node sample_hash l"
  by (simp_all add: sample_hash_leaf sample_hash_node)
lemma zero_node_sample_numeral:
  "zero_node sample_hash (numeral n) = 66 + 4 * zero_node sample_hash (pred_numeral n)"
  by (simp add: numeral_eq_Suc zero_node_sample del: zero_node.simps)
lemma upt21: "[0..<21] = [0,1,2,3,4,5,6,7,8,9,10,11,12,13,14,15,16,17,18,19,20]"
  by code_simp

lemma sample_path:
  assumes "merkle_prove sample_hash sample_tree 0 = Inr p" and "l < 20"
  shows "siblings p ! l =
      (if l = 0 then hash_leaf sample_hash 0x1234 else zero_node sample_hash l)"
    and "indices p ! l = False"
proof -
  have "2 \<le> (2 :: nat) ^ l" if "l \<noteq> 0" using that by (cases l) simp_all
  then show "siblings p ! l =
      (if l = 0 then hash_leaf sample_hash 0x1234 else zero_node sample_hash l)"
    using assms sample_tree
    by (auto simp: merkle_prove_eq_Inr MERKLE_DEPTH_def node_at_zero sibling_pos)
  show "indices p ! l = False"
    using assms by (auto simp: merkle_prove_eq_Inr MERKLE_DEPTH_def)
qed

lemma sample_climb:
  assumes p: "merkle_prove sample_hash sample_tree 0 = Inr p"
  shows "map (climb sample_hash p 7) [0..<MERKLE_DEPTH + 1] =
    [40, 14185, 14845, 17485, 28045, 70285, 239245, 915085, 3618445, 14431885, 57685645, 230700685, 922760845, 3691001485, 14763964045, 59055814285, 236223215245, 944892819085, 3779571234445, 15118284895885, 60473139541645]"
proof -
  have c: "climb sample_hash p 7 (numeral n) =
      verify_step sample_hash p (pred_numeral n) (climb sample_hash p 7 (pred_numeral n))"
    "climb sample_hash p 7 (Suc 0) = verify_step sample_hash p 0 (climb sample_hash p 7 0)" for n
    by (simp_all add: numeral_eq_Suc)
  show ?thesis
    by (simp add: upt21 MERKLE_DEPTH_def c verify_step_def sample_path [OF p] sample_hash_leaf
        sample_hash_node zero_node_sample zero_node_sample_numeral
        del: zero_node.simps climb.simps(2) upt_Suc)
qed

lemma sample_proof:
  obtains p where "merkle_prove sample_hash sample_tree 0 = Inr p" "wf_proof p"
    "verify_proof sample_hash (merkle_root sample_hash sample_tree) 7 p"
    "collision_free sample_hash
       (walk_queries sample_hash p 7 @ tree_queries sample_hash sample_tree (indices p))"
proof -
  obtain p where p: "merkle_prove sample_hash sample_tree 0 = Inr p"
    and wp: "wf_proof p" and v: "verify_proof sample_hash (merkle_root sample_hash sample_tree) 7 p"
    using prove_verifies [OF sample_tree(1), of 0] by (auto simp: sample_tree(2))
  have q: "tree_queries sample_hash sample_tree (indices p) = walk_queries sample_hash p 7"
    using honest_queries(1) [OF sample_tree(1) p] by (simp add: sample_tree(2))
  have "distinct (map sample_hash (walk_queries sample_hash p 7))"
    by (simp only: map_walk_queries sample_climb [OF p]) simp
  then have "collision_free sample_hash
      (walk_queries sample_hash p 7 @ tree_queries sample_hash sample_tree (indices p))"
    unfolding q by (auto intro: collision_free_subset [OF collision_free_distinct])
  with p wp v that show thesis by blast
qed

section \<open>Properties\<close>

text \<open>
  A proof that the tree hands out verifies. For every tree built by insertions and every
  occupied slot whose leaf is not the all-zero string, \<open>proof\<close> succeeds and \<open>verify_proof\<close>
  accepts it against the tree's root and that leaf.
\<close>

theorem merkle_proof_verifies:
  assumes "wf_tree H t" and "index < length (leaves t)" and "leaves t ! index \<noteq> 0"
  shows "\<exists>p. merkle_prove H t index = Inr p \<and> wf_proof p \<and>
             verify_proof H (merkle_root H t) (leaves t ! index) p"
  using assms by (rule prove_verifies)

theorem merkle_proof_verifies_witness:
  "\<exists>p. merkle_prove sample_hash sample_tree 1 = Inr p \<and> wf_proof p \<and>
       verify_proof sample_hash (merkle_root sample_hash sample_tree) 0x1234 p"
  using merkle_proof_verifies [OF sample_tree(1), of 1] by (simp add: sample_tree(2))

text \<open>
  C25: a proof cannot vouch for a leaf that was never inserted. If \<open>verify_proof\<close> accepts a
  leaf against the root of a tree, then the slot the proof's directions lead to is occupied
  and holds exactly that leaf, unless the hash function has a collision among the (at most
  42) strings hashed along the presented path and along the tree's own path to that slot.
  In particular no free slot can be claimed, which is where the guard on the all-zero leaf
  and the leaf and node domains are needed.
\<close>

theorem verify_proof_binds:
  assumes "wf_tree H t" and "wf_proof p"
    and "verify_proof H (merkle_root H t) leaf p"
    and "collision_free H (walk_queries H p leaf @ tree_queries H t (indices p))"
  shows "position (indices p) < length (leaves t) \<and> leaves t ! position (indices p) = leaf"
proof -
  have "padded t (position (indices p)) = leaf"
    using verify_proof_leaf [OF assms(4,1,2,3)] .
  moreover have "leaf \<noteq> 0" using assms(3) by (simp add: verify_proof_iff)
  ultimately show ?thesis by (auto simp: padded_def split: if_splits)
qed

theorem verify_proof_binds_witness:
  "\<exists>p. merkle_prove sample_hash sample_tree 0 = Inr p \<and>
       position (indices p) < length (leaves sample_tree) \<and>
       leaves sample_tree ! position (indices p) = 7"
  by (rule sample_proof) (use verify_proof_binds [OF sample_tree(1)] in blast)


text \<open>
  C26: the lazily computed root is the root of the full tree. \<open>root\<close>, which stores only the
  leaves and takes whole empty subtrees from the table built in \<open>new\<close>, equals the root of
  the perfect tree of depth \<open>MERKLE_DEPTH\<close> with the zero leaf in every free slot.
\<close>

theorem merkle_root_reference:
  assumes "wf_tree H t"
  shows "merkle_root H t = full_node H (padded t) MERKLE_DEPTH 0"
  using assms by (rule merkle_root_full)

theorem merkle_root_reference_witness:
  "merkle_root sample_hash sample_tree = full_node sample_hash (padded sample_tree) MERKLE_DEPTH 0"
  by (rule merkle_root_reference [OF sample_tree(1)])

lemma padded_insert_zero: "padded (t\<lparr>leaves := leaves t @ [0]\<rparr>) = padded t"
  by (auto simp: padded_def fun_eq_iff nth_append)

text \<open>
  An all-zero leaf is invisible in the root and can never be proved. Inserting it takes
  a slot and returns its index, leaves the root as it was, and no proof whatever makes
  \<open>verify_proof\<close> accept it: a member enrolled with this commitment counts towards \<open>n\<close> but
  can never approve.
\<close>

theorem zero_leaf_unprovable:
  assumes "wf_tree H t" and "length (leaves t) < MAX_LEAVES"
  shows "\<exists>t'. merkle_insert t 0 = (Inr (length (leaves t)), t') \<and>
              merkle_len t' = merkle_len t + 1 \<and>
              merkle_root H t' = merkle_root H t \<and>
              (\<nexists>root p. verify_proof H root 0 p)"
proof -
  let ?t = "t\<lparr>leaves := leaves t @ [0]\<rparr>"
  have i: "merkle_insert t 0 = (Inr (length (leaves t)), ?t)"
    using assms(2) by (simp add: merkle_insert_def)
  then have "wf_tree H ?t" using assms(1) by (rule wf_tree_insert [rotated])
  then have "merkle_root H ?t = merkle_root H t"
    by (simp add: merkle_root_full [OF assms(1)] merkle_root_full padded_insert_zero)
  with i show ?thesis by (auto simp: merkle_len_def verify_proof_iff)
qed

theorem zero_leaf_unprovable_witness:
  "\<exists>t'. merkle_insert sample_tree 0 = (Inr 2, t') \<and>
        merkle_root sample_hash t' = merkle_root sample_hash sample_tree"
proof -
  have "length (leaves sample_tree) < MAX_LEAVES"
    by (simp add: sample_tree(2) MAX_LEAVES_def MERKLE_DEPTH_def)
  from zero_leaf_unprovable [OF sample_tree(1) this] show ?thesis
    by (auto simp: sample_tree(2) numeral_2_eq_2)
qed

section \<open>The interface\<close>

text \<open>
  What the SDK's builder relies on: a collection that grows by one element at a time, with a
  short commitment to it, and proofs of membership that check against the commitment. \<open>live\<close>
  are the elements whose membership can be checked at all.
\<close>

locale accumulator =
  fixes empty :: 's
    and add :: "'s \<Rightarrow> 'x \<Rightarrow> 's option"
    and elems :: "'s \<Rightarrow> 'x list"
    and commit :: "'s \<Rightarrow> 'r"
    and prove :: "'s \<Rightarrow> nat \<Rightarrow> 'p option"
    and check :: "'r \<Rightarrow> 'x \<Rightarrow> 'p \<Rightarrow> bool"
    and live :: "'x \<Rightarrow> bool"
    and good :: "'s \<Rightarrow> bool"
  assumes good_empty: "good empty"
    and elems_empty: "elems empty = []"
    and good_add: "good s \<Longrightarrow> add s x = Some s' \<Longrightarrow> good s'"
    and elems_add: "good s \<Longrightarrow> add s x = Some s' \<Longrightarrow> elems s' = elems s @ [x]"
    and prove_check: "good s \<Longrightarrow> i < length (elems s) \<Longrightarrow> live (elems s ! i) \<Longrightarrow>
          \<exists>p. prove s i = Some p \<and> check (commit s) (elems s ! i) p"
begin

lemma member_checks:
  assumes "good s" "x \<in> set (elems s)" "live x"
  shows "\<exists>i p. prove s i = Some p \<and> check (commit s) x p"
proof -
  from assms(2) obtain i where i: "i < length (elems s)" "elems s ! i = x"
    by (auto simp: in_set_conv_nth)
  with prove_check [OF assms(1) i(1)] assms(3) show ?thesis by auto
qed

text \<open>Elements stay provable, at the same index, as more are added.\<close>

lemma still_checks:
  assumes "good s" "add s y = Some s'" "i < length (elems s)" "live (elems s ! i)"
  shows "\<exists>p. prove s' i = Some p \<and> check (commit s') (elems s ! i) p"
  using prove_check [OF good_add [OF assms(1,2)], of i] assms elems_add [OF assms(1,2)]
  by (simp add: nth_append)

end

definition insert_ok :: "merkle_tree \<Rightarrow> bytes32 \<Rightarrow> merkle_tree option" where
  "insert_ok t leaf = (case merkle_insert t leaf of (Inr _, t') \<Rightarrow> Some t' | (Inl _, _) \<Rightarrow> None)"

definition prove_ok :: "hasher \<Rightarrow> merkle_tree \<Rightarrow> nat \<Rightarrow> merkle_proof option" where
  "prove_ok H t i = (case merkle_prove H t i of Inr p \<Rightarrow> Some p | Inl _ \<Rightarrow> None)"

lemma insert_ok_eq_Some:
  "insert_ok t leaf = Some t' \<longleftrightarrow>
     length (leaves t) < MAX_LEAVES \<and> t' = t\<lparr>leaves := leaves t @ [leaf]\<rparr>"
  by (auto simp: insert_ok_def merkle_insert_def split: if_splits)

interpretation merkle_acc: accumulator "merkle_new H" insert_ok leaves "merkle_root H"
    "prove_ok H" "verify_proof H" "\<lambda>x. x \<noteq> 0" "wf_tree H"
  for H :: hasher
proof unfold_locales
  fix t :: merkle_tree and i
  assume a: "wf_tree H t" "i < length (leaves t)" "leaves t ! i \<noteq> 0"
  show "\<exists>p. prove_ok H t i = Some p \<and> verify_proof H (merkle_root H t) (leaves t ! i) p"
    using prove_verifies [OF a] by (auto simp: prove_ok_def)
qed (auto simp: wf_tree_new insert_ok_eq_Some wf_tree_def)

end
