(* ===== verification/Proof_Inputs.thy ===== *)
theory Proof_Inputs
  imports Hashing
begin

text \<open>
  The public side of an approval (\<open>private_multisig_core/src/proof.rs\<close>): the 96-byte bundle
  of public inputs, the chain identifier and the \<open>proposal_id\<close>.
\<close>

definition APPROVE_PUBLIC_INPUTS_LEN :: nat where
  "APPROVE_PUBLIC_INPUTS_LEN = 96"

record approve_public_inputs =
  in_members_root :: bytes32
  in_proposal_id :: bytes32
  in_nullifier :: bytes32

definition to_bytes :: "approve_public_inputs \<Rightarrow> byte list" where
  "to_bytes b = bytes_of (in_members_root b) @ bytes_of (in_proposal_id b) @ bytes_of (in_nullifier b)"

text \<open>\<open>from_bytes\<close> takes a \<open>[u8; 96]\<close>: it is used on lists of that length.\<close>

definition from_bytes :: "byte list \<Rightarrow> approve_public_inputs" where
  "from_bytes bs =
     \<lparr>in_members_root = array32 (slice bs 0 32), in_proposal_id = array32 (slice bs 32 32),
      in_nullifier = array32 (slice bs 64 32)\<rparr>"

definition DEPLOYMENT_CHAIN_ID_U64 :: u64 where
  "DEPLOYMENT_CHAIN_ID_U64 = 0xABCDEF01"

datatype chain_id = ChainId (chain_bytes: bytes32)

definition chain_id_from_u64 :: "u64 \<Rightarrow> chain_id" where
  "chain_id_from_u64 i = ChainId (array32 (to_le i @ replicate 24 0))"

definition proposal_id_preimage ::
  "hasher \<Rightarrow> chain_id \<Rightarrow> bytes32 \<Rightarrow> u64 \<Rightarrow> byte list \<Rightarrow> bytes32 \<Rightarrow> byte list" where
  "proposal_id_preimage H chain state_pda index action target =
     (let action_hash = H action;
          target_hash = H (bytes_of target);
          index_bytes = to_le index
      in bytes_of (chain_bytes chain) @ bytes_of state_pda @ index_bytes
           @ bytes_of action_hash @ bytes_of target_hash)"

definition derive_proposal_id ::
  "hasher \<Rightarrow> chain_id \<Rightarrow> bytes32 \<Rightarrow> u64 \<Rightarrow> byte list \<Rightarrow> bytes32 \<Rightarrow> bytes32" where
  "derive_proposal_id H chain state_pda index action target =
     H (proposal_id_preimage H chain state_pda index action target)"

section \<open>The bundle\<close>

lemma length_to_bytes [simp, layout_len]: "length (to_bytes b) = APPROVE_PUBLIC_INPUTS_LEN"
  by (simp add: to_bytes_def APPROVE_PUBLIC_INPUTS_LEN_def)

lemma slice_to_bytes [simp]:
  "slice (to_bytes b) 0 32 = bytes_of (in_members_root b)"
  "slice (to_bytes b) 32 32 = bytes_of (in_proposal_id b)"
  "slice (to_bytes b) 64 32 = bytes_of (in_nullifier b)"
  by (simp_all add: slice_def to_bytes_def)

lemma from_bytes_to_bytes [simp]: "from_bytes (to_bytes b) = b"
  by (simp add: from_bytes_def)

lemma to_bytes_from_bytes:
  assumes "length bs = APPROVE_PUBLIC_INPUTS_LEN"
  shows "to_bytes (from_bytes bs) = bs"
proof -
  have l: "length bs = 96" using assms by (simp add: APPROVE_PUBLIC_INPUTS_LEN_def)
  have "bs = take 32 bs @ take 32 (drop 32 bs) @ take 32 (drop 64 bs)"
    using l append_take_drop_id [of 32 bs] append_take_drop_id [of 32 "drop 32 bs"] by simp
  then show ?thesis using l by (simp add: to_bytes_def from_bytes_def slice_def)
qed

lemma eq_to_bytes_iff: "bs = to_bytes b \<longleftrightarrow> length bs = APPROVE_PUBLIC_INPUTS_LEN \<and> from_bytes bs = b"
  using to_bytes_from_bytes [of bs] by auto

text \<open>As an interface: decoding a \<open>Vec<u8>\<close> with its length check.\<close>

definition parse_inputs :: "byte list \<Rightarrow> approve_public_inputs option" where
  "parse_inputs bs = (if length bs = APPROVE_PUBLIC_INPUTS_LEN then Some (from_bytes bs) else None)"

interpretation inputs_codec: exact_codec to_bytes parse_inputs "\<lambda>_. True"
  by unfold_locales (auto simp: parse_inputs_def to_bytes_from_bytes split: if_splits)

text \<open>
  The public-inputs bundle is a canonical fixed layout. Packing always gives 96 bytes,
  with the root, the proposal id and the nullifier in that order; unpacking inverts it, and
  packing an unpacked 96-byte string gives the string back, so the bytes and the three
  values determine each other.
\<close>

theorem public_inputs_roundtrip:
  "length (to_bytes b) = 96 \<and> from_bytes (to_bytes b) = b \<and>
   {bs. length bs = 96 \<and> to_bytes (from_bytes bs) \<noteq> bs} = {}"
  using to_bytes_from_bytes length_to_bytes by (auto simp: APPROVE_PUBLIC_INPUTS_LEN_def)

section \<open>Chain identifiers\<close>

lemma chain_bytes_from_u64:
  "bytes_of (chain_bytes (chain_id_from_u64 i)) = to_le i @ replicate 24 0"
  by (simp add: chain_id_from_u64_def)

lemma chain_id_from_u64_inject [simp]: "chain_id_from_u64 i = chain_id_from_u64 j \<longleftrightarrow> i = j"
proof
  assume "chain_id_from_u64 i = chain_id_from_u64 j"
  then have "to_le i @ replicate 24 (0 :: byte) = to_le j @ replicate 24 0"
    by (metis chain_bytes_from_u64)
  then show "i = j" by simp
qed simp

section \<open>The proposal id\<close>

lemma proposal_id_preimage_inject:
  "proposal_id_preimage H c s i a g = proposal_id_preimage H c' s' i' a' g' \<longleftrightarrow>
     c = c' \<and> s = s' \<and> i = i' \<and> H a = H a' \<and> H (bytes_of g) = H (bytes_of g')"
  by (cases c; cases c') (auto simp: proposal_id_preimage_def Let_def append_eq_append_conv)

lemma length_proposal_id_preimage [layout_len]:
  "length (proposal_id_preimage H c s i a g) = 136"
  by (simp add: proposal_id_preimage_def Let_def)

text \<open>The strings hashed for one proposal id.\<close>

definition proposal_queries ::
  "hasher \<Rightarrow> chain_id \<Rightarrow> bytes32 \<Rightarrow> u64 \<Rightarrow> byte list \<Rightarrow> bytes32 \<Rightarrow> byte list list" where
  "proposal_queries H c s i a g = [a, bytes_of g, proposal_id_preimage H c s i a g]"

lemma derive_proposal_id_inject:
  assumes "collision_free H (proposal_queries H c s i a g @ proposal_queries H c' s' i' a' g')"
  shows "derive_proposal_id H c s i a g = derive_proposal_id H c' s' i' a' g' \<longleftrightarrow>
    c = c' \<and> s = s' \<and> i = i' \<and> a = a' \<and> g = g'"
proof
  assume eq: "derive_proposal_id H c s i a g = derive_proposal_id H c' s' i' a' g'"
  have "proposal_id_preimage H c s i a g = proposal_id_preimage H c' s' i' a' g'"
    by (rule collision_freeD [OF assms eq [unfolded derive_proposal_id_def]])
      (simp_all add: proposal_queries_def)
  then have e: "c = c' \<and> s = s' \<and> i = i'" and h: "H a = H a'" "H (bytes_of g) = H (bytes_of g')"
    by (simp_all add: proposal_id_preimage_inject)
  have "a = a'" by (rule collision_freeD [OF assms h(1)]) (simp_all add: proposal_queries_def)
  moreover have "bytes_of g = bytes_of g'"
    by (rule collision_freeD [OF assms h(2)]) (simp_all add: proposal_queries_def)
  ultimately show "c = c' \<and> s = s' \<and> i = i' \<and> a = a' \<and> g = g'" using e by simp
qed simp

text \<open>
  C28: a proposal id binds everything that is approved. Two proposal ids are equal exactly
  when chain, multisig state account, index, action bytes and target program are all equal,
  unless the hash function collides on the (at most six) strings hashed for the two: an
  approval cannot be replayed for another chain, instance, index, action or target.
\<close>

theorem proposal_id_binds:
  assumes "collision_free H (proposal_queries H c s i a g @ proposal_queries H c' s' i' a' g')"
  shows "derive_proposal_id H c s i a g = derive_proposal_id H c' s' i' a' g' \<longleftrightarrow>
    c = c' \<and> s = s' \<and> i = i' \<and> a = a' \<and> g = g'"
  using assms by (rule derive_proposal_id_inject)

lemma sample_proposal_id:
  "derive_proposal_id sample_hash (chain_id_from_u64 c) s i a g =
     136 + ucast c + 3 * s + 5 * ucast i + 7 * sample_hash a + 11 * (32 + g)"
  by (simp add: derive_proposal_id_def proposal_id_preimage_def Let_def sample_hash_def [of "_ @ _"]
      sample_word_def chain_bytes_from_u64 sample_hash_1 array32_pad_zero array32_to_le)

theorem proposal_id_binds_witness:
  "derive_proposal_id sample_hash (chain_id_from_u64 1) 5 0 [1] 9
     \<noteq> derive_proposal_id sample_hash (chain_id_from_u64 1) 5 1 [1] 9"
proof -
  let ?q = "\<lambda>i. proposal_id_preimage sample_hash (chain_id_from_u64 1) 5 i [1] 9"
  have h: "sample_hash (?q 0) = 617" "sample_hash (?q 1) = 622"
    using sample_proposal_id [of 1 5 0 "[1]" 9] sample_proposal_id [of 1 5 1 "[1]" 9]
    by (simp_all add: derive_proposal_id_def sample_hash_byte)
  have "collision_free sample_hash
     (proposal_queries sample_hash (chain_id_from_u64 1) 5 0 [1] 9 @
      proposal_queries sample_hash (chain_id_from_u64 1) 5 1 [1] 9)"
    by (simp add: collision_free_def proposal_queries_def h sample_hash_byte sample_hash_1)
  from proposal_id_binds [OF this] show ?thesis by simp
qed

end
