(* ===== verification/Approve_Circuit.thy ===== *)
theory Approve_Circuit
  imports Merkle Proof_Inputs "HOL-Library.Monad_Syntax"
begin

text \<open>
  The zero-knowledge approval circuit (\<open>methods/guest/src/bin/approve_circuit.rs\<close>) and the host
  side of its wire format (\<open>private_multisig_program/src/lib.rs\<close>). The guest reads its
  witness from a stream with \<open>env::read_slice\<close>, which is the Risc0 crate's: the parameter
  \<open>rd\<close> answers the bytes that fill a buffer of a given size and the rest of the stream, or
  \<open>None\<close>. What is used of it is \<open>slice_reader\<close>. The guest's result is the journal it
  commits; a panic, after which there is no receipt, is \<open>None\<close>.
\<close>

type_synonym reader = "nat \<Rightarrow> byte list \<Rightarrow> (byte list \<times> byte list) option"

definition slice_reader :: "reader \<Rightarrow> bool" where
  "slice_reader rd \<longleftrightarrow>
     (\<forall>k s bs s'. rd k s = Some (bs, s') \<longrightarrow> length bs = k) \<and>
     (\<forall>bs rest. rd (length bs) (bs @ rest) = Some (bs, rest))"

section \<open>The guest\<close>

definition direction :: "byte \<Rightarrow> bool option" where
  "direction b = (if b = 0 then Some False else if b = 1 then Some True else None)"

text \<open>The two loops that fill \<open>siblings\<close> and \<open>indices\<close>.\<close>

definition read_siblings :: "byte list \<Rightarrow> bytes32 list" where
  "read_siblings siblings_buf =
     fold (\<lambda>level sibs. let start = level * HASH_LEN
                        in sibs[level := array32 (slice siblings_buf start HASH_LEN)])
       [0..<MERKLE_DEPTH] (replicate MERKLE_DEPTH 0)"

definition read_indices :: "byte list \<Rightarrow> bool list option" where
  "read_indices direction_buf =
     fold (\<lambda>level acc. do { inds \<leftarrow> acc; b \<leftarrow> direction (direction_buf ! level); Some (inds[level := b]) })
       [0..<MERKLE_DEPTH] (Some (replicate MERKLE_DEPTH False))"

record witness =
  w_members_root :: bytes32
  w_proposal_id :: bytes32
  w_sk :: bytes32
  w_salt :: bytes32
  w_proof :: merkle_proof

text \<open>The first half of \<open>main\<close>: everything it reads.\<close>

definition read_witness :: "reader \<Rightarrow> byte list \<Rightarrow> witness option" where
  "read_witness rd s = do {
     (public_buf, s) \<leftarrow> rd 64 s;
     (sk_buf, s) \<leftarrow> rd SK_LEN s;
     (salt_buf, s) \<leftarrow> rd SALT_LEN s;
     (siblings_buf, s) \<leftarrow> rd (MERKLE_DEPTH * HASH_LEN) s;
     (direction_buf, s) \<leftarrow> rd MERKLE_DEPTH s;
     inds \<leftarrow> read_indices direction_buf;
     Some \<lparr>w_members_root = array32 (slice public_buf 0 32),
           w_proposal_id = array32 (slice public_buf 32 32),
           w_sk = array32 sk_buf, w_salt = array32 salt_buf,
           w_proof = \<lparr>siblings = read_siblings siblings_buf, indices = inds\<rparr>\<rparr>
   }"

text \<open>The second half: what it asserts and commits.\<close>

definition commit_approval :: "hasher \<Rightarrow> witness \<Rightarrow> byte list option" where
  "commit_approval H w =
     (let identity = identity_new (w_sk w) (w_salt w);
          commitment = commitment H identity
      in if verify_proof H (w_members_root w) (commitment_bytes commitment) (w_proof w)
         then let computed_nullifier = nullifier H (w_sk w) (w_proposal_id w);
                  public_inputs = \<lparr>in_members_root = w_members_root w,
                    in_proposal_id = w_proposal_id w, in_nullifier = computed_nullifier\<rparr>
              in Some (to_bytes public_inputs)
         else None)"

definition approve_circuit :: "hasher \<Rightarrow> reader \<Rightarrow> byte list \<Rightarrow> byte list option" where
  "approve_circuit H rd s = do { w \<leftarrow> read_witness rd s; commit_approval H w }"

section \<open>The host\<close>

definition APPROVE_WITNESS_LEN :: nat where
  "APPROVE_WITNESS_LEN = 788"

definition pack_approve_witness :: "identity \<Rightarrow> merkle_proof \<Rightarrow> bytes32 \<Rightarrow> bytes32 \<Rightarrow> byte list" where
  "pack_approve_witness i p members_root' proposal_id =
     (let out = replicate APPROVE_WITNESS_LEN 0;
          out = copy_into out 0 (bytes_of members_root');
          out = copy_into out 32 (bytes_of proposal_id);
          out = copy_into out 64 (bytes_of (sk i));
          out = copy_into out 96 (bytes_of (salt i));
          out = fold (\<lambda>level out. copy_into out (128 + level * 32) (bytes_of (siblings p ! level)))
                  [0..<length (siblings p)] out;
          out = fold (\<lambda>level out. out[768 + level := of_bool (indices p ! level)])
                  [0..<length (indices p)] out
      in out)"

text \<open>The image id is a build product, an array of eight words: an argument.\<close>

definition image_id_hex :: "u32 list \<Rightarrow> string" where
  "image_id_hex image_id = concat (map (\<lambda>word. concat (map hex_byte (to_le word))) image_id)"

section \<open>The wire format\<close>

lemma direction_of_bool [simp]: "direction (of_bool b) = Some b"
  by (cases b) (simp_all add: direction_def)

lemma direction_eq_Some: "direction b = Some d \<longleftrightarrow> b = of_bool d"
  by (cases d) (auto simp: direction_def)

lemma read_siblings_eq:
  "read_siblings buf = map (\<lambda>l. array32 (slice buf (l * HASH_LEN) HASH_LEN)) [0..<MERKLE_DEPTH]"
  using fold_fill [of MERKLE_DEPTH MERKLE_DEPTH "\<lambda>l. array32 (slice buf (l * HASH_LEN) HASH_LEN)" 0]
  by (simp add: read_siblings_def Let_def)

lemma read_siblings_concat:
  assumes "length xs = MERKLE_DEPTH"
  shows "read_siblings (concat (map bytes_of xs)) = xs"
proof (rule nth_equalityI)
  fix l assume "l < length (read_siblings (concat (map bytes_of xs)))"
  then have l: "l < MERKLE_DEPTH" by (simp add: read_siblings_eq)
  with assms chunk_concat_map [of xs bytes_of 32 l]
  show "read_siblings (concat (map bytes_of xs)) ! l = xs ! l"
    by (simp add: read_siblings_eq slice_def HASH_LEN_def)
qed (simp add: read_siblings_eq assms)

text \<open>The loop over the direction bytes: the first byte that is neither 0 nor 1 is a panic.\<close>

lemma read_indices_fold:
  "k \<le> d \<Longrightarrow>
   fold (\<lambda>level acc. do { inds \<leftarrow> acc; b \<leftarrow> direction (buf ! level); Some (inds[level := b]) })
     [0..<k] (Some (replicate d False))
   = (if \<forall>l < k. direction (buf ! l) \<noteq> None
      then Some (map (\<lambda>l. the (direction (buf ! l))) [0..<k] @ replicate (d - k) False) else None)"
proof (induction k)
  case (Suc k)
  then show ?case
    by (cases "direction (buf ! k)")
      (auto simp: less_Suc_eq list_update_append replicate_update_first)
qed simp

lemma read_indices_eq:
  "read_indices buf =
     (if \<forall>l < MERKLE_DEPTH. direction (buf ! l) \<noteq> None
      then Some (map (\<lambda>l. the (direction (buf ! l))) [0..<MERKLE_DEPTH]) else None)"
  using read_indices_fold [of MERKLE_DEPTH MERKLE_DEPTH buf] by (simp add: read_indices_def)

lemma length_read_indices: "read_indices buf = Some inds \<Longrightarrow> length inds = MERKLE_DEPTH"
  by (auto simp: read_indices_eq split: if_splits)

lemma read_indices_of_bool:
  assumes "length inds = MERKLE_DEPTH"
  shows "read_indices (map of_bool inds) = Some inds"
proof -
  have "map (\<lambda>l. the (direction (map of_bool inds ! l))) [0..<MERKLE_DEPTH] = inds"
    by (rule nth_equalityI) (simp_all add: assms)
  then show ?thesis by (simp add: read_indices_eq assms)
qed

lemma read_indices_bad:
  "l < MERKLE_DEPTH \<Longrightarrow> direction (buf ! l) = None \<Longrightarrow> read_indices buf = None"
  by (auto simp: read_indices_eq)

lemma pack_eq:
  assumes "wf_proof p"
  shows "pack_approve_witness i p r pid =
    bytes_of r @ bytes_of pid @ bytes_of (sk i) @ bytes_of (salt i) @
    concat (map bytes_of (siblings p)) @ map of_bool (indices p)"
proof -
  have l: "length (siblings p) = 20" "length (indices p) = 20"
    using assms by (simp_all add: wf_proof_def MERKLE_DEPTH_def)
  let ?h = "bytes_of r @ bytes_of pid @ bytes_of (sk i) @ bytes_of (salt i)"
  have c: "map (\<lambda>l. bytes_of (siblings p ! l)) [0..<20] = map bytes_of (siblings p)"
    and d: "map (\<lambda>l. of_bool (indices p ! l)) [0..<20] = map of_bool (indices p)"
    using map_nth_upt [of bytes_of "siblings p"] map_nth_upt [of of_bool "indices p"]
    by (simp_all only: l)
  have lc: "length (concat (map bytes_of (siblings p))) = 640"
    by (simp add: length_concat comp_def l sum_list_triv)
  have h: "copy_into (copy_into (copy_into (copy_into (replicate 788 0) 0 (bytes_of r)) 32
      (bytes_of pid)) 64 (bytes_of (sk i))) 96 (bytes_of (salt i)) = ?h @ replicate 660 0"
    using copy_into_next [of "[]" 0 "bytes_of r" 788 0]
      copy_into_next [of "bytes_of r" 32 "bytes_of pid" 756 0]
      copy_into_next [of "bytes_of r @ bytes_of pid" 64 "bytes_of (sk i)" 724 0]
      copy_into_next [of "bytes_of r @ bytes_of pid @ bytes_of (sk i)" 96 "bytes_of (salt i)" 692 0]
    by simp
  show ?thesis
    unfolding pack_approve_witness_def Let_def APPROVE_WITNESS_LEN_def h l
    using fold_copy_into [of 20 "\<lambda>l. bytes_of (siblings p ! l)" 32 660 ?h 128 0]
      fold_update_next [of 20 20 "?h @ concat (map bytes_of (siblings p))" 768
        "\<lambda>l. of_bool (indices p ! l)" 0]
    by (simp add: c d lc)
qed


lemma length_pack: "wf_proof p \<Longrightarrow> length (pack_approve_witness i p r pid) = APPROVE_WITNESS_LEN"
  by (simp add: pack_eq length_concat comp_def sum_list_triv wf_proof_def MERKLE_DEPTH_def
      APPROVE_WITNESS_LEN_def)

lemma slice_reader_next: "slice_reader rd \<Longrightarrow> length bs = k \<Longrightarrow> rd k (bs @ rest) = Some (bs, rest)"
  by (auto simp: slice_reader_def)

lemma slice_reader_all:
  assumes "slice_reader rd" "length s = k" shows "rd k s = Some (s, [])"
  using slice_reader_next [OF assms, of "[]"] by simp

lemma slice_reader_split:
  assumes "slice_reader rd" "k \<le> length s" shows "rd k s = Some (take k s, drop k s)"
  using slice_reader_next [OF assms(1), of "take k s" k "drop k s"] assms(2) by simp

definition witness_of :: "identity \<Rightarrow> merkle_proof \<Rightarrow> bytes32 \<Rightarrow> bytes32 \<Rightarrow> witness" where
  "witness_of i p r pid =
     \<lparr>w_members_root = r, w_proposal_id = pid, w_sk = sk i, w_salt = salt i, w_proof = p\<rparr>"

lemma read_pack:
  assumes rd: "slice_reader rd" and p: "wf_proof p"
  shows "read_witness rd (pack_approve_witness i p r pid @ rest) = Some (witness_of i p r pid)"
proof -
  have l: "length (siblings p) = MERKLE_DEPTH" "length (indices p) = MERKLE_DEPTH"
    using p by (simp_all add: wf_proof_def)
  have r1: "rd 64 ((bytes_of r @ bytes_of pid) @ x) = Some (bytes_of r @ bytes_of pid, x)" for x
    by (rule slice_reader_next [OF rd]) simp
  have r2: "rd SK_LEN (bytes_of a @ x) = Some (bytes_of a, x)"
    "rd SALT_LEN (bytes_of a @ x) = Some (bytes_of a, x)" for a x
    by (rule slice_reader_next [OF rd], simp add: SK_LEN_def SALT_LEN_def)+
  have r3: "rd (MERKLE_DEPTH * HASH_LEN) (concat (map bytes_of (siblings p)) @ x)
      = Some (concat (map bytes_of (siblings p)), x)" for x
    by (rule slice_reader_next [OF rd])
      (simp add: length_concat comp_def sum_list_triv l HASH_LEN_def)
  have r4: "rd MERKLE_DEPTH (map of_bool (indices p) @ x) = Some (map of_bool (indices p), x)" for x
    by (rule slice_reader_next [OF rd]) (simp add: l)
  show ?thesis
    using r1 by (simp add: read_witness_def pack_eq [OF p] r2 r3 r4 read_indices_of_bool l
        read_siblings_concat slice_def witness_of_def)
qed

lemma read_witness_wf:
  "read_witness rd s = Some w \<Longrightarrow> wf_proof (w_proof w)"
  by (auto simp: read_witness_def wf_proof_def read_siblings_eq Option.bind_eq_Some_conv
      dest: length_read_indices)

text \<open>
  What the reader takes from a stream of at least 788 bytes is a packed witness: no byte
  string other than the packed one gives the same values.
\<close>

lemma take_drop_next: "take n (drop k s) @ drop (k + n) s = drop k s"
  by (metis append_take_drop_id drop_drop add.commute)

lemma concat_chunks:
  "length buf = n * w \<Longrightarrow> concat (map (\<lambda>l. take w (drop (l * w) buf)) [0..<n]) = buf"
proof (induction n arbitrary: buf)
  case (Suc n)
  have "concat (map (\<lambda>l. take w (drop (l * w) (drop w buf))) [0..<n]) = drop w buf"
    using Suc.prems by (intro Suc.IH) simp
  then show ?case by (simp add: upt_0_Suc comp_def del: upt_Suc) (simp add: add.commute)
qed simp

lemma concat_read_siblings:
  assumes "length buf = MERKLE_DEPTH * HASH_LEN"
  shows "concat (map bytes_of (read_siblings buf)) = buf"
proof -
  have "bytes_of (array32 (slice buf (l * HASH_LEN) HASH_LEN)) = take HASH_LEN (drop (l * HASH_LEN) buf)"
    if "l < MERKLE_DEPTH" for l
  proof -
    have "Suc l * HASH_LEN \<le> MERKLE_DEPTH * HASH_LEN" using that by (intro mult_le_mono1) simp
    then show ?thesis using assms by (simp add: slice_def HASH_LEN_def)
  qed
  then have "map bytes_of (read_siblings buf)
      = map (\<lambda>l. take HASH_LEN (drop (l * HASH_LEN) buf)) [0..<MERKLE_DEPTH]"
    by (simp add: read_siblings_eq)
  then show ?thesis using concat_chunks [OF assms] by simp
qed

lemma of_bool_read_indices:
  assumes "read_indices buf = Some inds" "length buf = MERKLE_DEPTH"
  shows "map of_bool inds = buf"
proof (rule nth_equalityI)
  show "length (map of_bool inds) = length buf" using assms length_read_indices by simp
  fix l assume "l < length (map of_bool inds :: byte list)"
  with assms have "l < MERKLE_DEPTH" by (auto dest: length_read_indices)
  with assms show "map of_bool inds ! l = buf ! l"
    by (auto simp: read_indices_eq direction_eq_Some split: if_splits)
qed

lemma pack_read_prefix:
  assumes rd: "slice_reader rd" and s: "APPROVE_WITNESS_LEN \<le> length s"
    and w: "read_witness rd s = Some w"
  shows "s = pack_approve_witness (identity_new (w_sk w) (w_salt w)) (w_proof w)
               (w_members_root w) (w_proposal_id w) @ drop APPROVE_WITNESS_LEN s"
proof -
  have r: "rd 64 s = Some (take 64 s, drop 64 s)"
    "rd SK_LEN (drop 64 s) = Some (take 32 (drop 64 s), drop 96 s)"
    "rd SALT_LEN (drop 96 s) = Some (take 32 (drop 96 s), drop 128 s)"
    "rd (MERKLE_DEPTH * HASH_LEN) (drop 128 s) = Some (take 640 (drop 128 s), drop 768 s)"
    "rd MERKLE_DEPTH (drop 768 s) = Some (take 20 (drop 768 s), drop 788 s)"
    using s slice_reader_split [OF rd, of 64 s] slice_reader_split [OF rd, of 32 "drop 64 s"]
      slice_reader_split [OF rd, of 32 "drop 96 s"] slice_reader_split [OF rd, of 640 "drop 128 s"]
      slice_reader_split [OF rd, of 20 "drop 768 s"]
    by (simp_all add: APPROVE_WITNESS_LEN_def SK_LEN_def SALT_LEN_def MERKLE_DEPTH_def HASH_LEN_def)
  obtain inds where inds: "read_indices (take 20 (drop 768 s)) = Some inds"
    and weq: "w = \<lparr>w_members_root = array32 (slice (take 64 s) 0 32),
           w_proposal_id = array32 (slice (take 64 s) 32 32),
           w_sk = array32 (take 32 (drop 64 s)), w_salt = array32 (take 32 (drop 96 s)),
           w_proof = \<lparr>siblings = read_siblings (take 640 (drop 128 s)), indices = inds\<rparr>\<rparr>"
    using w by (auto simp: read_witness_def r Option.bind_eq_Some_conv)
  have i: "map of_bool inds = take 20 (drop 768 s)"
    by (rule of_bool_read_indices [OF inds])
      (use s in \<open>simp add: APPROVE_WITNESS_LEN_def MERKLE_DEPTH_def\<close>)
  have c: "concat (map bytes_of (read_siblings (take 640 (drop 128 s)))) = take 640 (drop 128 s)"
    by (rule concat_read_siblings)
      (use s in \<open>simp add: APPROVE_WITNESS_LEN_def MERKLE_DEPTH_def HASH_LEN_def\<close>)
  have t: "s = take 32 s @ take 32 (drop 32 s) @ take 32 (drop 64 s) @ take 32 (drop 96 s) @
      take 640 (drop 128 s) @ take 20 (drop 768 s) @ drop 788 s"
    using take_drop_next [of 20 768 s] take_drop_next [of 640 128 s] take_drop_next [of 32 96 s]
      take_drop_next [of 32 64 s] take_drop_next [of 32 32 s] take_drop_next [of 32 0 s] by simp
  have "slice (take 64 s) 0 32 = take 32 s" "slice (take 64 s) 32 32 = take 32 (drop 32 s)"
    by (simp_all add: slice_def min_def take_drop)
  then show ?thesis
    using s t read_witness_wf [OF w] by (simp add: pack_eq weq c i identity_new_def APPROVE_WITNESS_LEN_def)
qed

lemma pack_read:
  assumes "slice_reader rd" "length s = APPROVE_WITNESS_LEN" "read_witness rd s = Some w"
  shows "s = pack_approve_witness (identity_new (w_sk w) (w_salt w)) (w_proof w)
               (w_members_root w) (w_proposal_id w)"
  using pack_read_prefix [OF assms(1) _ assms(3)] assms(2) by simp

section \<open>Witness encoding as an interface\<close>

definition pack_witness :: "witness \<Rightarrow> byte list" where
  "pack_witness w = pack_approve_witness (identity_new (w_sk w) (w_salt w)) (w_proof w)
     (w_members_root w) (w_proposal_id w)"

definition parse_witness :: "reader \<Rightarrow> byte list \<Rightarrow> witness option" where
  "parse_witness rd s = (if length s = APPROVE_WITNESS_LEN then read_witness rd s else None)"

lemma witness_of_self:
  "witness_of (identity_new (w_sk w) (w_salt w)) (w_proof w) (w_members_root w) (w_proposal_id w) = w"
  by (simp add: witness_of_def)

lemma witness_exact:
  assumes "slice_reader rd"
  shows "exact_codec pack_witness (parse_witness rd) (\<lambda>w. wf_proof (w_proof w))"
proof unfold_locales
  fix w :: witness assume w: "wf_proof (w_proof w)"
  show "parse_witness rd (pack_witness w) = Some w"
    using read_pack [OF assms w, where rest = "[]"] w
    by (simp add: parse_witness_def pack_witness_def length_pack witness_of_self)
next
  fix s w assume "parse_witness rd s = Some w"
  then have l: "length s = APPROVE_WITNESS_LEN" and r: "read_witness rd s = Some w"
    by (simp_all add: parse_witness_def split: if_splits)
  show "wf_proof (w_proof w) \<and> pack_witness w = s"
    using pack_read [OF assms l r] read_witness_wf [OF r] by (simp add: pack_witness_def)
qed

text \<open>A stream that is read as it was written, and a member for the examples.\<close>

definition sample_reader :: reader where
  "sample_reader k s = (if k \<le> length s then Some (take k s, drop k s) else None)"

lemma sample_reader: "slice_reader sample_reader"
  by (auto simp: slice_reader_def sample_reader_def split: if_splits)

interpretation witness_codec: exact_codec pack_witness "parse_witness sample_reader"
    "\<lambda>w. wf_proof (w_proof w)"
  by (rule witness_exact [OF sample_reader])

definition sample_member :: identity where
  "sample_member = identity_new (- 57) 0"

lemma sample_member: "commitment_bytes (commitment sample_hash sample_member) = 7"
  by (simp add: commitment_def commitment_preimage_def sample_member_def identity_new_def
      sample_hash_2)

section \<open>What a journal proves\<close>

lemma commit_approval_eq_Some:
  "commit_approval H w = Some j \<longleftrightarrow>
     verify_proof H (w_members_root w)
       (commitment_bytes (commitment H (identity_new (w_sk w) (w_salt w)))) (w_proof w) \<and>
     j = to_bytes \<lparr>in_members_root = w_members_root w, in_proposal_id = w_proposal_id w,
                   in_nullifier = nullifier H (w_sk w) (w_proposal_id w)\<rparr>"
  by (auto simp: commit_approval_def Let_def)

text \<open>The statement that a journal is produced for: the circuit's relation.\<close>

definition approves :: "hasher \<Rightarrow> approve_public_inputs \<Rightarrow> identity \<Rightarrow> merkle_proof \<Rightarrow> bool" where
  "approves H b i p \<longleftrightarrow> wf_proof p \<and>
     verify_proof H (in_members_root b) (commitment_bytes (commitment H i)) p \<and>
     in_nullifier b = nullifier H (sk i) (in_proposal_id b)"

lemma circuit_approves:
  assumes "approve_circuit H rd s = Some j"
  obtains b i p where "j = to_bytes b" "approves H b i p"
proof -
  from assms obtain w where w: "read_witness rd s = Some w" and c: "commit_approval H w = Some j"
    by (auto simp: approve_circuit_def Option.bind_eq_Some_conv)
  then show thesis
    using read_witness_wf [OF w]
    by (intro that [of _ "identity_new (w_sk w) (w_salt w)" "w_proof w"])
      (auto simp: commit_approval_eq_Some approves_def)
qed

lemma approves_circuit:
  assumes "slice_reader rd" "approves H b i p"
  shows "approve_circuit H rd (pack_approve_witness i p (in_members_root b) (in_proposal_id b))
    = Some (to_bytes b)"
  using assms read_pack [OF assms(1), of p i "in_members_root b" "in_proposal_id b" "[]"]
  by (cases b) (simp add: approve_circuit_def approves_def commit_approval_eq_Some witness_of_def)

lemma circuit_iff:
  assumes "slice_reader rd"
  shows "(\<exists>s. approve_circuit H rd s = Some j) \<longleftrightarrow> (\<exists>b i p. j = to_bytes b \<and> approves H b i p)"
  using circuit_approves approves_circuit [OF assms] by metis

text \<open>An accepted path to the root of a tree is for one of its leaves.\<close>

lemma proved_leaf:
  assumes "collision_free H (walk_queries H p leaf @ tree_queries H t (indices p))" "wf_tree H t" "wf_proof p"
    and "verify_proof H (merkle_root H t) leaf p"
  shows "leaf \<in> set (leaves t)"
  using verify_proof_leaf [OF assms(1,2)] assms(3,4)
  by (auto simp: padded_def verify_proof_iff split: if_splits intro: nth_mem dest: sym)

text \<open>
  C24: the packed witness and the circuit's reader agree byte for byte. A stream of 788 bytes
  is read as a witness exactly when it is what \<open>pack_approve_witness\<close> writes for that
  witness: packing then reading gives every value back, and no second encoding of the same
  witness is accepted.
\<close>

theorem witness_wire_exact:
  assumes "slice_reader rd" and "length s = APPROVE_WITNESS_LEN"
  shows "read_witness rd s = Some w \<longleftrightarrow>
    wf_proof (w_proof w) \<and>
    pack_approve_witness (identity_new (w_sk w) (w_salt w)) (w_proof w)
      (w_members_root w) (w_proposal_id w) = s"
  using exact_codec.dec_eq_Some [OF witness_exact [OF assms(1)], of s w] assms(2)
  by (simp add: parse_witness_def pack_witness_def)

theorem witness_wire_exact_witness:
  "\<exists>w. read_witness sample_reader (replicate 788 0) = Some w \<and>
       pack_approve_witness (identity_new 0 0) (w_proof w) 0 0 = replicate 788 0"
proof -
  let ?w = "\<lparr>w_members_root = 0, w_proposal_id = 0, w_sk = 0, w_salt = 0,
     w_proof = \<lparr>siblings = replicate 20 0, indices = replicate 20 False\<rparr>\<rparr>"
  have wf: "wf_proof (w_proof ?w)" by (simp add: wf_proof_def MERKLE_DEPTH_def)
  have "concat (map bytes_of (replicate 20 0)) = replicate 640 0"
    by (simp add: bytes_of_zero map_replicate concat_replicates)
  then have p: "pack_approve_witness (identity_new 0 0) (w_proof ?w) 0 0 = replicate 788 0"
    by (simp add: pack_eq [OF wf [simplified]] bytes_of_zero map_replicate flip: replicate_add)
  from witness_wire_exact [OF sample_reader, of "replicate 788 0" ?w] wf p
  show ?thesis by (intro exI [of _ ?w]) (simp add: APPROVE_WITNESS_LEN_def)
qed

text \<open>
  C23: an enrolled member can always approve. For a tree built by insertions that holds the
  member's commitment (not the all-zero string), the path the tree hands out, packed with
  the member's secrets, the tree's root and any proposal id, makes the circuit commit
  exactly the bundle of that root, that proposal id and the member's nullifier.
\<close>

theorem approval_complete:
  assumes "slice_reader rd" and "wf_tree H t" and "index < length (leaves t)"
    and "leaves t ! index = commitment_bytes (commitment H i)"
    and "commitment_bytes (commitment H i) \<noteq> 0"
  shows "\<exists>p. merkle_prove H t index = Inr p \<and>
    approve_circuit H rd (pack_approve_witness i p (merkle_root H t) pid) =
      Some (to_bytes \<lparr>in_members_root = merkle_root H t, in_proposal_id = pid,
                      in_nullifier = identity_nullifier H i pid\<rparr>)"
proof -
  obtain p where "merkle_prove H t index = Inr p" "wf_proof p"
    "verify_proof H (merkle_root H t) (commitment_bytes (commitment H i)) p"
    using prove_verifies [OF assms(2,3)] assms(4,5) by auto
  with approves_circuit [OF assms(1), of H "\<lparr>in_members_root = merkle_root H t,
      in_proposal_id = pid, in_nullifier = identity_nullifier H i pid\<rparr>" i p]
  show ?thesis by (auto simp: approves_def identity_nullifier_def)
qed

theorem approval_complete_witness:
  "\<exists>p. approve_circuit sample_hash sample_reader
        (pack_approve_witness sample_member p (merkle_root sample_hash sample_tree) 9) =
      Some (to_bytes \<lparr>in_members_root = merkle_root sample_hash sample_tree, in_proposal_id = 9,
                      in_nullifier = identity_nullifier sample_hash sample_member 9\<rparr>)"
  using approval_complete [OF sample_reader sample_tree(1), of 0 sample_member 9]
  by (auto simp: sample_tree(2) sample_member)

text \<open>
  C22: a journal is a proof of knowledge of a member's secret. If the circuit, run on a
  stream, commits a journal, then the witness it read from that stream holds a key, a salt
  and a path such that the journal is the 96-byte bundle of the witness's root and proposal
  id and of the key's nullifier for that proposal id, and the path leads from the commitment
  of key and salt to the root. With a reader that delivers the bytes of the stream, a stream
  of at least 788 bytes starts with exactly these values, packed: the prover had the secret.
  When the root is the root of a member tree, the commitment is one of the tree's leaves,
  unless the hash function has a collision among the strings hashed along the two paths.
\<close>

theorem approval_sound:
  assumes "approve_circuit H rd s = Some j"
  shows "\<exists>w i. read_witness rd s = Some w \<and> i = identity_new (w_sk w) (w_salt w) \<and>
    j = to_bytes \<lparr>in_members_root = w_members_root w, in_proposal_id = w_proposal_id w,
                  in_nullifier = identity_nullifier H i (w_proposal_id w)\<rparr> \<and>
    wf_proof (w_proof w) \<and>
    verify_proof H (w_members_root w) (commitment_bytes (commitment H i)) (w_proof w) \<and>
    (slice_reader rd \<and> APPROVE_WITNESS_LEN \<le> length s \<longrightarrow>
       s = pack_approve_witness i (w_proof w) (w_members_root w) (w_proposal_id w) @
           drop APPROVE_WITNESS_LEN s) \<and>
    (\<forall>t. wf_tree H t \<and> w_members_root w = merkle_root H t \<and>
         collision_free H (walk_queries H (w_proof w) (commitment_bytes (commitment H i)) @
                           tree_queries H t (indices (w_proof w))) \<longrightarrow>
         commitment_bytes (commitment H i) \<in> set (leaves t))"
proof -
  obtain w where w: "read_witness rd s = Some w" and c: "commit_approval H w = Some j"
    using assms by (auto simp: approve_circuit_def Option.bind_eq_Some_conv)
  let ?i = "identity_new (w_sk w) (w_salt w)"
  let ?c = "commitment_bytes (commitment H ?i)"
  have v: "verify_proof H (w_members_root w) ?c (w_proof w)"
    and j: "j = to_bytes \<lparr>in_members_root = w_members_root w, in_proposal_id = w_proposal_id w,
                  in_nullifier = identity_nullifier H ?i (w_proposal_id w)\<rparr>"
    using c by (simp_all add: commit_approval_eq_Some identity_nullifier_def)
  have "?c \<in> set (leaves t)"
    if "wf_tree H t" "w_members_root w = merkle_root H t"
      "collision_free H (walk_queries H (w_proof w) ?c @ tree_queries H t (indices (w_proof w)))" for t
    using proved_leaf [OF that(3,1) read_witness_wf [OF w]] v that(2) by simp
  with w v j read_witness_wf [OF w] pack_read_prefix [OF _ _ w] show ?thesis
    by (intro exI [of _ w] exI [of _ ?i]) blast
qed

theorem approval_sound_witness:
  "\<exists>p s b w. approve_circuit sample_hash sample_reader s = Some (to_bytes b) \<and>
     merkle_prove sample_hash sample_tree 0 = Inr p \<and> read_witness sample_reader s = Some w \<and>
     in_nullifier b = nullifier sample_hash (w_sk w) (in_proposal_id b) \<and>
     s = pack_approve_witness (identity_new (w_sk w) (w_salt w)) (w_proof w) (w_members_root w) (w_proposal_id w)"
proof -
  obtain p where p: "merkle_prove sample_hash sample_tree 0 = Inr p" "wf_proof p"
    "verify_proof sample_hash (merkle_root sample_hash sample_tree) 7 p"
    using sample_proof by blast
  let ?b = "\<lparr>in_members_root = merkle_root sample_hash sample_tree, in_proposal_id = 9,
             in_nullifier = nullifier sample_hash (sk sample_member) 9\<rparr>"
  let ?s = "pack_approve_witness sample_member p (merkle_root sample_hash sample_tree) 9"
  have "approves sample_hash ?b sample_member p"
    using p by (simp add: approves_def sample_member)
  from approves_circuit [OF sample_reader this]
  have c: "approve_circuit sample_hash sample_reader ?s = Some (to_bytes ?b)" by simp
  have l: "length ?s = APPROVE_WITNESS_LEN" by (rule length_pack [OF p(2)])
  from approval_sound [OF c] obtain w where w: "read_witness sample_reader ?s = Some w"
    "to_bytes ?b = to_bytes \<lparr>in_members_root = w_members_root w, in_proposal_id = w_proposal_id w,
       in_nullifier = identity_nullifier sample_hash (identity_new (w_sk w) (w_salt w)) (w_proposal_id w)\<rparr>"
    "?s = pack_approve_witness (identity_new (w_sk w) (w_salt w)) (w_proof w) (w_members_root w) (w_proposal_id w)"
    using sample_reader l by auto
  have "?b = \<lparr>in_members_root = w_members_root w, in_proposal_id = w_proposal_id w,
       in_nullifier = identity_nullifier sample_hash (identity_new (w_sk w) (w_salt w)) (w_proposal_id w)\<rparr>"
    using w(2) inputs_codec.enc_inject by blast
  then have "in_nullifier ?b = nullifier sample_hash (w_sk w) (in_proposal_id ?b)"
    by (simp add: identity_nullifier_def)
  with c p(1) w(1,3) show ?thesis by blast
qed

text \<open>
  A corrupt witness makes no receipt. If any of the 20 direction bytes (offsets 768 to
  787) is neither 0 nor 1, the circuit panics, whatever the other bytes are.
\<close>

theorem bad_direction_panics:
  assumes "slice_reader rd" and "length s = APPROVE_WITNESS_LEN" and "l < MERKLE_DEPTH"
    and "s ! (768 + l) \<notin> {0, 1}"
  shows "approve_circuit H rd s = None"
proof (rule ccontr)
  assume "approve_circuit H rd s \<noteq> None"
  then obtain w where w: "read_witness rd s = Some w"
    by (auto simp: approve_circuit_def Option.bind_eq_Some_conv)
  let ?p = "w_proof w"
  have s: "s = (bytes_of (w_members_root w) @ bytes_of (w_proposal_id w) @ bytes_of (w_sk w) @
      bytes_of (w_salt w) @ concat (map bytes_of (siblings ?p))) @ map of_bool (indices ?p)"
    using pack_read [OF assms(1,2) w] read_witness_wf [OF w] by (simp add: pack_eq)
  have l: "length (siblings ?p) = 20" "length (indices ?p) = 20"
    using read_witness_wf [OF w] by (simp_all add: wf_proof_def MERKLE_DEPTH_def)
  have "length (concat (map bytes_of (siblings ?p))) = 640"
    by (simp add: length_concat comp_def sum_list_triv l)
  then have "s ! (768 + l) = of_bool (indices ?p ! l)"
    using assms(3) by (subst s, subst nth_append) (simp add: MERKLE_DEPTH_def l)
  with assms(4) show False by (cases "indices ?p ! l") simp_all
qed

theorem bad_direction_panics_witness:
  "approve_circuit sample_hash sample_reader (replicate 768 0 @ replicate 20 2) = None"
  by (rule bad_direction_panics [OF sample_reader, of _ 3])
    (simp_all add: APPROVE_WITNESS_LEN_def MERKLE_DEPTH_def nth_append)

section \<open>Image ids in hex\<close>

lemma image_id_hex_eq: "image_id_hex ws = hex_string (concat (map to_le ws))"
  by (induction ws) (simp_all add: image_id_hex_def hex_string_def)

lemma concat_to_le_inject:
  fixes ws vs :: "u32 list"
  shows "length ws = length vs \<Longrightarrow> concat (map to_le ws) = concat (map to_le vs) \<longleftrightarrow> ws = vs"
proof (induction ws vs rule: list_induct2)
  case (Cons w ws v vs)
  then show ?case by (auto simp: append_eq_append_conv)
qed simp

text \<open>
  The pinned hex names one image id. For an image id of eight words \<open>image_id_hex\<close> is 64
  lowercase hex digits, and two image ids have the same text only if they are the same.
\<close>

theorem image_id_hex_injective:
  assumes "length ws = 8" and "length vs = 8"
  shows "length (image_id_hex ws) = 64 \<and>
    set (image_id_hex ws) \<subseteq> set ''0123456789abcdef'' \<and>
    (image_id_hex ws = image_id_hex vs \<longleftrightarrow> ws = vs)"
proof -
  have "image_id_hex ws = image_id_hex vs \<longleftrightarrow> ws = vs"
    using assms concat_to_le_inject [of ws vs] by (auto simp: image_id_hex_eq dest: hex_string_inj)
  moreover have "length (image_id_hex ws) = 64"
    by (simp add: image_id_hex_eq length_hex_string length_concat comp_def sum_list_triv assms(1))
  ultimately show ?thesis unfolding image_id_hex_eq using hex_string_digits by blast
qed

theorem image_id_hex_injective_witness:
  "image_id_hex [1, 0, 0, 0, 0, 0, 0, 0] \<noteq> image_id_hex [2, 0, 0, 0, 0, 0, 0, 0]"
  using image_id_hex_injective [of "[1, 0, 0, 0, 0, 0, 0, 0]" "[2, 0, 0, 0, 0, 0, 0, 0]"] by simp

end
