(* ===== verification/Pda.thy ===== *)
theory Pda
  imports Hashing
begin

text \<open>
  Program-derived account addresses (\<open>private_multisig_core/src/pda.rs\<close>). Every account of
  the protocol has an address computed from the program id, a literal seed and the values
  that identify it; \<open>assert!\<close> failures are \<open>None\<close>.
\<close>

definition ascii :: "string \<Rightarrow> byte list" where
  "ascii s = map of_char s"

definition NSSA_PUBLIC_PDA_PREFIX :: "byte list" where
  "NSSA_PUBLIC_PDA_PREFIX = ascii ''/NSSA/v0.2/AccountId/PDA/'' @ replicate 7 0"

definition SEED_MULTISIG_STATE :: "byte list" where
  "SEED_MULTISIG_STATE = ascii ''pmsig_state__''"

definition SEED_PROPOSAL :: "byte list" where
  "SEED_PROPOSAL = ascii ''pmsig_prop___''"

definition SEED_VAULT :: "byte list" where
  "SEED_VAULT = ascii ''pmsig_vault__''"

definition SEED_NULLIFIER :: "byte list" where
  "SEED_NULLIFIER = ascii ''pmsig_nulli__''"

definition pad_seed_32 :: "byte list \<Rightarrow> bytes32 option" where
  "pad_seed_32 input =
     (if length input \<le> 32 then Some (array32 (input @ replicate (32 - length input) 0)) else None)"

definition derive_pda :: "hasher \<Rightarrow> bytes32 \<Rightarrow> bytes32 list \<Rightarrow> bytes32 option" where
  "derive_pda H program_id seeds =
     (if seeds = [] then None
      else let combined = (if length seeds = 1 then hd seeds else H (concat (map bytes_of seeds)))
           in Some (H (NSSA_PUBLIC_PDA_PREFIX @ bytes_of program_id @ bytes_of combined)))"

definition derive_multisig_state_pda :: "hasher \<Rightarrow> bytes32 \<Rightarrow> bytes32 \<Rightarrow> bytes32 option" where
  "derive_multisig_state_pda H program_id ck =
     Option.bind (pad_seed_32 SEED_MULTISIG_STATE) (\<lambda>lit. derive_pda H program_id [lit, ck])"

definition derive_proposal_pda :: "hasher \<Rightarrow> bytes32 \<Rightarrow> bytes32 \<Rightarrow> u64 \<Rightarrow> bytes32 option" where
  "derive_proposal_pda H program_id ck index =
     Option.bind (pad_seed_32 SEED_PROPOSAL) (\<lambda>lit.
     Option.bind (pad_seed_32 (to_le index)) (\<lambda>index_seed.
       derive_pda H program_id [lit, ck, index_seed]))"

definition derive_vault_pda :: "hasher \<Rightarrow> bytes32 \<Rightarrow> bytes32 \<Rightarrow> bytes32 option" where
  "derive_vault_pda H program_id ck =
     Option.bind (pad_seed_32 SEED_VAULT) (\<lambda>lit. derive_pda H program_id [lit, ck])"

definition derive_nullifier_entry_pda ::
  "hasher \<Rightarrow> bytes32 \<Rightarrow> bytes32 \<Rightarrow> bytes32 \<Rightarrow> bytes32 option" where
  "derive_nullifier_entry_pda H program_id proposal_pda nul =
     Option.bind (pad_seed_32 SEED_NULLIFIER) (\<lambda>lit.
       derive_pda H program_id [lit, proposal_pda, nul])"

section \<open>Accounts by name\<close>

text \<open>
  The accounts of the protocol, named by what identifies them, and the address of each: the
  derivations above in closed form, total because no literal seed is longer than 32 bytes.
\<close>

datatype account_name =
    StateOf bytes32
  | ProposalOf bytes32 u64
  | VaultOf bytes32
  | NullifierOf bytes32 u64 bytes32

definition literal_seed :: "byte list \<Rightarrow> bytes32" where
  "literal_seed s = array32 (s @ replicate (32 - length s) 0)"

definition pda_preimage :: "hasher \<Rightarrow> bytes32 \<Rightarrow> bytes32 list \<Rightarrow> byte list" where
  "pda_preimage H program_id seeds =
     NSSA_PUBLIC_PDA_PREFIX @ bytes_of program_id @ bytes_of (H (concat (map bytes_of seeds)))"

definition proposal_seeds :: "bytes32 \<Rightarrow> u64 \<Rightarrow> bytes32 list" where
  "proposal_seeds ck i = [literal_seed SEED_PROPOSAL, ck, literal_seed (to_le i)]"

fun name_seeds :: "hasher \<Rightarrow> bytes32 \<Rightarrow> account_name \<Rightarrow> bytes32 list" where
  "name_seeds H pid (StateOf ck) = [literal_seed SEED_MULTISIG_STATE, ck]"
| "name_seeds H pid (ProposalOf ck i) = proposal_seeds ck i"
| "name_seeds H pid (VaultOf ck) = [literal_seed SEED_VAULT, ck]"
| "name_seeds H pid (NullifierOf ck i nul) =
     [literal_seed SEED_NULLIFIER, H (pda_preimage H pid (proposal_seeds ck i)), nul]"

definition address :: "hasher \<Rightarrow> bytes32 \<Rightarrow> account_name \<Rightarrow> bytes32" where
  "address H pid a = H (pda_preimage H pid (name_seeds H pid a))"

lemma length_seeds [layout_len]:
  "length SEED_MULTISIG_STATE = 13" "length SEED_PROPOSAL = 13"
  "length SEED_VAULT = 13" "length SEED_NULLIFIER = 13"
  by (simp_all add: SEED_MULTISIG_STATE_def SEED_PROPOSAL_def SEED_VAULT_def SEED_NULLIFIER_def
      ascii_def)

lemma length_prefix [layout_len]: "length NSSA_PUBLIC_PDA_PREFIX = 32"
  by (simp add: NSSA_PUBLIC_PDA_PREFIX_def ascii_def)

lemma pad_seed_32_eq: "length s \<le> 32 \<Longrightarrow> pad_seed_32 s = Some (literal_seed s)"
  by (simp add: pad_seed_32_def literal_seed_def)

lemma derive_address:
  "derive_multisig_state_pda H pid ck = Some (address H pid (StateOf ck))"
  "derive_proposal_pda H pid ck i = Some (address H pid (ProposalOf ck i))"
  "derive_vault_pda H pid ck = Some (address H pid (VaultOf ck))"
  "derive_nullifier_entry_pda H pid (address H pid (ProposalOf ck i)) nul =
     Some (address H pid (NullifierOf ck i nul))"
  by (simp_all add: derive_multisig_state_pda_def derive_proposal_pda_def derive_vault_pda_def
      derive_nullifier_entry_pda_def pad_seed_32_eq length_seeds derive_pda_def address_def
      pda_preimage_def proposal_seeds_def)

section \<open>Distinct accounts have distinct addresses\<close>

lemma literal_seed_inject:
  "length s \<le> 32 \<Longrightarrow> length s' = length s \<Longrightarrow> literal_seed s = literal_seed s' \<longleftrightarrow> s = s'"
  unfolding literal_seed_def
  by (metis append_eq_append_conv bytes_of_array32 length_append length_replicate le_add_diff_inverse)

lemma literal_seeds_distinct:
  "distinct (map literal_seed [SEED_MULTISIG_STATE, SEED_PROPOSAL, SEED_VAULT, SEED_NULLIFIER])"
  by (simp add: literal_seed_inject length_seeds)
    (simp add: SEED_MULTISIG_STATE_def SEED_PROPOSAL_def SEED_VAULT_def SEED_NULLIFIER_def ascii_def)

lemma index_seed_inject [simp]: "literal_seed (to_le i) = literal_seed (to_le j) \<longleftrightarrow> i = j" for i j :: u64
  by (simp add: literal_seed_inject)

lemma pda_preimage_inject:
  "pda_preimage H pid seeds = pda_preimage H pid' seeds' \<longleftrightarrow>
     pid = pid' \<and> H (concat (map bytes_of seeds)) = H (concat (map bytes_of seeds'))"
  by (simp add: pda_preimage_def)

lemma concat_bytes_inject:
  "concat (map bytes_of xs) = concat (map bytes_of ys) \<longleftrightarrow> xs = ys"
proof (induction xs arbitrary: ys)
  case Nil
  then show ?case by (cases ys) simp_all
next
  case (Cons x xs)
  then show ?case by (cases ys) simp_all
qed

text \<open>The strings hashed to derive an account's address.\<close>

fun name_queries :: "hasher \<Rightarrow> bytes32 \<Rightarrow> account_name \<Rightarrow> byte list list" where
  "name_queries H pid (NullifierOf ck i nul) =
     [pda_preimage H pid (name_seeds H pid (NullifierOf ck i nul)),
      concat (map bytes_of (name_seeds H pid (NullifierOf ck i nul))),
      pda_preimage H pid (proposal_seeds ck i), concat (map bytes_of (proposal_seeds ck i))]"
| "name_queries H pid a =
     [pda_preimage H pid (name_seeds H pid a), concat (map bytes_of (name_seeds H pid a))]"

lemma name_queries_in:
  "pda_preimage H pid (name_seeds H pid a) \<in> set (name_queries H pid a)"
  "concat (map bytes_of (name_seeds H pid a)) \<in> set (name_queries H pid a)"
  by (cases a; simp)+

lemma seeds_of_address:
  assumes cf: "collision_free H qs"
    and "pda_preimage H pid xs \<in> set qs" "pda_preimage H pid ys \<in> set qs"
    and "concat (map bytes_of xs) \<in> set qs" "concat (map bytes_of ys) \<in> set qs"
    and eq: "H (pda_preimage H pid xs) = H (pda_preimage H pid ys)"
  shows "xs = ys"
  using collision_freeD [OF cf eq assms(2,3)] collision_freeD [OF cf _ assms(4,5)]
  by (simp add: pda_preimage_inject concat_bytes_inject)

lemma address_inject:
  assumes cf: "collision_free H (name_queries H pid a @ name_queries H pid b)"
  shows "address H pid a = address H pid b \<longleftrightarrow> a = b"
proof
  assume eq: "address H pid a = address H pid b"
  have s: "name_seeds H pid a = name_seeds H pid b"
    by (rule seeds_of_address [OF cf _ _ _ _ eq [unfolded address_def]]) (simp_all add: name_queries_in)
  show "a = b"
  proof (cases "\<exists>ck i nul ck' i' nul'. a = NullifierOf ck i nul \<and> b = NullifierOf ck' i' nul'")
    case True
    then obtain ck i nul ck' i' nul' where ab: "a = NullifierOf ck i nul" "b = NullifierOf ck' i' nul'"
      by blast
    with s have "nul = nul'"
      and e: "H (pda_preimage H pid (proposal_seeds ck i))
         = H (pda_preimage H pid (proposal_seeds ck' i'))" by simp_all
    have "proposal_seeds ck i = proposal_seeds ck' i'"
      by (rule seeds_of_address [OF cf _ _ _ _ e]) (simp_all add: ab)
    with ab \<open>nul = nul'\<close> show ?thesis by (simp add: proposal_seeds_def)
  next
    case False
    with s literal_seeds_distinct show ?thesis
      by (cases a; cases b) (auto simp: proposal_seeds_def)
  qed
qed simp

text \<open>
  C27: no two accounts of the protocol share an address. The four derivations never panic,
  give the addresses of the state, proposal, vault and nullifier accounts, and two of these
  are equal only for the same kind of account with the same create key, index and
  nullifier, unless the hash function collides on the strings hashed for the two.
\<close>

theorem pda_addresses_distinct:
  assumes "collision_free H (name_queries H pid a @ name_queries H pid b)"
  shows "derive_multisig_state_pda H pid ck = Some (address H pid (StateOf ck)) \<and>
    derive_proposal_pda H pid ck i = Some (address H pid (ProposalOf ck i)) \<and>
    derive_vault_pda H pid ck = Some (address H pid (VaultOf ck)) \<and>
    derive_nullifier_entry_pda H pid (address H pid (ProposalOf ck i)) nul =
      Some (address H pid (NullifierOf ck i nul)) \<and>
    (address H pid a = address H pid b \<longleftrightarrow> a = b)"
  using address_inject [OF assms] derive_address by simp

lemma sample_literals:
  "literal_seed SEED_MULTISIG_STATE = 7556199165888158273919322910064"
  "literal_seed SEED_VAULT = 7556217262364087262012182326640"
  "literal_seed SEED_PROPOSAL = 7556191893701884112084621553008"
  "literal_seed SEED_NULLIFIER = 7556203964015489704508819467632"
  "array32 NSSA_PUBLIC_PDA_PREFIX = 296624120032539847006161211910585526529049698613817488133679"
  by (simp_all add: literal_seed_def array32_pad_zero NSSA_PUBLIC_PDA_PREFIX_def
      SEED_MULTISIG_STATE_def SEED_VAULT_def SEED_PROPOSAL_def SEED_NULLIFIER_def ascii_def)
    (simp_all add: array32_def of_le_def)

lemma pda_preimage_words:
  "pda_preimage H pid seeds = bytes_of (array32 NSSA_PUBLIC_PDA_PREFIX) @ bytes_of pid @
     bytes_of (H (concat (map bytes_of seeds)))"
  by (simp add: pda_preimage_def length_prefix)

theorem pda_addresses_distinct_witness:
  "address sample_hash 5 (StateOf 1) \<noteq> address sample_hash 5 (VaultOf 1)"
proof -
  have "collision_free sample_hash
     (name_queries sample_hash 5 (StateOf 1) @ name_queries sample_hash 5 (VaultOf 1))"
    by (rule collision_free_distinct)
      (simp add: sample_hash_2 sample_hash_3 pda_preimage_words sample_literals)
  from pda_addresses_distinct [OF this] show ?thesis by simp
qed

text \<open>
  \<open>derive_pda\<close> passes a single seed through unhashed, so the address for the one seed
  \<open>H(a || b)\<close> is the address for the seeds \<open>a, b\<close>: callers must not mix the two shapes
  under one program, and none of the four derivations uses a single seed.
\<close>

lemma single_seed_alias:
  "derive_pda H pid [H (bytes_of a @ bytes_of b)] = derive_pda H pid [a, b]"
  by (simp add: derive_pda_def)

end
