(* ===== verification/Verifier.thy ===== *)
theory Verifier
  imports Borsh Approve_Circuit Pda
begin

text \<open>
  The on-chain verifier program (\<open>methods/guest/src/bin/private_multisig.rs\<close>): its six
  handlers, each a function from the accounts and arguments of an instruction to an error or
  the program's output. The constants of \<open>approve_circuit_image_id.rs\<close> are here too.

  What the handlers call and is not in the repository is the record \<open>spel_env\<close>: Borsh
  (\<open>to_vec\<close>, \<open>from_slice\<close>), the conversion into capped account data, the Risc0 word
  serialiser and SPEL's seed of a string. \<open>env::verify\<close> registers an assumption that the
  host must discharge with a receipt; it is part of the output. An error is the code it
  carries (\<open>SpelError::custom\<close>); its message is not modelled.
\<close>

definition APPROVE_CIRCUIT_IMAGE_ID :: "u32 list" where
  "APPROVE_CIRCUIT_IMAGE_ID =
     [1683419497, 2665931562, 2484565372, 1634782365, 3092099954, 3316541401, 2039021021, 3470376700]"

section \<open>The program's surroundings\<close>

record spel_env =
  state_to_vec :: "multisig_state \<Rightarrow> byte list option"
  state_from_slice :: "byte list \<Rightarrow> multisig_state option"
  proposal_to_vec :: "proposal \<Rightarrow> byte list option"
  proposal_from_slice :: "byte list \<Rightarrow> proposal option"
  into_account_data :: "byte list \<Rightarrow> byte list option"
  serde_to_vec :: "byte list \<Rightarrow> u32 list"
  seed_from_str :: "string \<Rightarrow> bytes32"
  sha256 :: hasher

datatype spel_error = Custom u32

record account =
  program_owner :: bytes32
  acc_data :: "byte list"

record account_with_metadata =
  acc :: account
  is_authorized :: bool
  account_id :: bytes32

record chained_call =
  call_program :: "u32 list"
  pre_states :: "account_with_metadata list"
  instruction_data :: "u32 list"
  pda_seeds :: "bytes32 list"

record spel_output =
  post_states :: "account_with_metadata list"
  chained_calls :: "chained_call list"
  assumptions :: "(u32 list \<times> byte list) list"

definition fail_with :: "core_error \<Rightarrow> spel_error" where
  "fail_with e = Custom (code e)"

definition output_execute ::
  "account_with_metadata list \<Rightarrow> chained_call list \<Rightarrow> (u32 list \<times> byte list) list \<Rightarrow> spel_output"
where
  "output_execute posts calls verified =
     \<lparr>post_states = posts, chained_calls = calls, assumptions = verified\<rparr>"

definition set_data :: "account_with_metadata \<Rightarrow> byte list \<Rightarrow> account_with_metadata" where
  "set_data a d = a\<lparr>acc := (acc a)\<lparr>acc_data := d\<rparr>\<rparr>"

section \<open>Reading and writing account bodies\<close>

definition decode_state :: "spel_env \<Rightarrow> account_with_metadata \<Rightarrow> spel_error + multisig_state" where
  "decode_state E a = ok_or (fail_with SerializationError) (state_from_slice E (acc_data (acc a)))"

definition decode_proposal :: "spel_env \<Rightarrow> account_with_metadata \<Rightarrow> spel_error + proposal" where
  "decode_proposal E a = ok_or (fail_with SerializationError) (proposal_from_slice E (acc_data (acc a)))"

definition write_state ::
  "spel_env \<Rightarrow> account_with_metadata \<Rightarrow> multisig_state \<Rightarrow> spel_error + account_with_metadata" where
  "write_state E a body =
     try_bind (ok_or (fail_with SerializationError) (state_to_vec E body)) (\<lambda>bytes.
     try_bind (ok_or (fail_with SerializationError) (into_account_data E bytes)) (\<lambda>d.
       Inr (set_data a d)))"

definition write_proposal ::
  "spel_env \<Rightarrow> account_with_metadata \<Rightarrow> proposal \<Rightarrow> spel_error + account_with_metadata" where
  "write_proposal E a body =
     try_bind (ok_or (fail_with SerializationError) (proposal_to_vec E body)) (\<lambda>bytes.
     try_bind (ok_or (fail_with SerializationError) (into_account_data E bytes)) (\<lambda>d.
       Inr (set_data a d)))"

section \<open>The handlers\<close>

definition create_multisig ::
  "spel_env \<Rightarrow> account_with_metadata \<Rightarrow> account_with_metadata \<Rightarrow>
   bytes32 \<Rightarrow> bytes32 \<Rightarrow> u8 \<Rightarrow> u32 \<Rightarrow> spel_error + spel_output" where
  "create_multisig E state creator ck root m' n' =
     try_bind (map_err fail_with (validate_threshold m' n')) (\<lambda>_.
     let body = \<lparr>create_key = ck, members_root = root, st_m = m', st_n = n', proposal_count = 0\<rparr>
     in try_bind (write_state E state body) (\<lambda>state.
          Inr (output_execute [state, creator] [] [])))"

definition create_vault ::
  "spel_env \<Rightarrow> account_with_metadata \<Rightarrow> account_with_metadata \<Rightarrow> account_with_metadata \<Rightarrow>
   bytes32 \<Rightarrow> spel_error + spel_output" where
  "create_vault E state vlt payer ck =
     try_bind (decode_state E state) (\<lambda>_. Inr (output_execute [state, vlt, payer] [] []))"

definition propose ::
  "spel_env \<Rightarrow> account_with_metadata \<Rightarrow> account_with_metadata \<Rightarrow> account_with_metadata \<Rightarrow>
   bytes32 \<Rightarrow> u64 \<Rightarrow> byte list \<Rightarrow> bytes32 \<Rightarrow> spel_error + spel_output" where
  "propose E state prop proposer ck index action target =
     try_bind (map_err fail_with (validate_action_bytes action)) (\<lambda>_.
     try_bind (decode_state E state) (\<lambda>state_body.
     try_bind (ensure (index = proposal_count state_body) (fail_with ProposalIdMismatch)) (\<lambda>_.
     try_bind (ok_or (fail_with ArithmeticOverflow) (checked_add (proposal_count state_body) 1)) (\<lambda>c.
     try_bind (write_state E state (state_body\<lparr>proposal_count := c\<rparr>)) (\<lambda>state.
     let proposal_body =
       \<lparr>action_bytes = action, target_program = target, approvals_count = 0, executed = False\<rparr>
     in try_bind (write_proposal E prop proposal_body) (\<lambda>prop.
          Inr (output_execute [state, prop, proposer] [] [])))))))"

definition approve ::
  "spel_env \<Rightarrow> account_with_metadata \<Rightarrow> account_with_metadata \<Rightarrow> account_with_metadata \<Rightarrow>
   account_with_metadata \<Rightarrow> bytes32 \<Rightarrow> u64 \<Rightarrow> bytes32 \<Rightarrow> byte list \<Rightarrow> spel_error + spel_output" where
  "approve E state prop entry submitter ck index nul public_inputs =
     try_bind (ensure (length public_inputs = APPROVE_PUBLIC_INPUTS_LEN) (fail_with InvalidReceipt)) (\<lambda>_.
     let inputs_members_root = array32 (slice public_inputs 0 32);
         inputs_proposal_id = array32 (slice public_inputs 32 32);
         inputs_nullifier = array32 (slice public_inputs 64 32)
     in
     try_bind (decode_state E state) (\<lambda>state_body.
     try_bind (decode_proposal E prop) (\<lambda>proposal_body.
     try_bind (ensure (inputs_members_root = members_root state_body) (fail_with RootMismatch)) (\<lambda>_.
     let state_pda = account_id state;
         chain = chain_id_from_u64 DEPLOYMENT_CHAIN_ID_U64;
         recomputed_proposal_id = derive_proposal_id (sha256 E) chain state_pda index
           (action_bytes proposal_body) (target_program proposal_body)
     in
     try_bind (ensure (inputs_proposal_id = recomputed_proposal_id) (fail_with ProposalIdMismatch)) (\<lambda>_.
     try_bind (ensure (inputs_nullifier = nul) (fail_with InvalidReceipt)) (\<lambda>_.
     let verified = (APPROVE_CIRCUIT_IMAGE_ID, public_inputs) in
     try_bind (ok_or (fail_with ArithmeticOverflow)
                 (checked_add (approvals_count proposal_body) 1)) (\<lambda>c.
     try_bind (write_proposal E prop (proposal_body\<lparr>approvals_count := c\<rparr>)) (\<lambda>prop.
       Inr (output_execute [state, prop, entry, submitter] [] [verified])))))))))"

text \<open>The loop over the words of \<open>target_program_id\<close>, and the vault's seed.\<close>

definition target_program_id :: "bytes32 \<Rightarrow> u32 list" where
  "target_program_id target_program_bytes =
     (let bs = bytes_of target_program_bytes
      in fold (\<lambda>i ws. let off = i * 4
                      in ws[i := of_le [bs ! off, bs ! (off + 1), bs ! (off + 2), bs ! (off + 3)]])
           [0..<8] (replicate 8 0))"

definition vault_pda_seed :: "spel_env \<Rightarrow> bytes32 \<Rightarrow> bytes32" where
  "vault_pda_seed E ck =
     (let vault_literal_seed = seed_from_str E ''pmsig_vault__'';
          combined = replicate 64 0;
          combined = copy_into combined 0 (bytes_of vault_literal_seed);
          combined = copy_into combined 32 (bytes_of ck)
      in sha256 E combined)"

definition execute ::
  "spel_env \<Rightarrow> account_with_metadata \<Rightarrow> account_with_metadata \<Rightarrow> account_with_metadata \<Rightarrow>
   account_with_metadata \<Rightarrow> bytes32 \<Rightarrow> u64 \<Rightarrow> spel_error + spel_output" where
  "execute E state prop vlt submitter ck index =
     try_bind (decode_state E state) (\<lambda>state_body.
     try_bind (decode_proposal E prop) (\<lambda>proposal_body.
     try_bind (ensure (\<not> executed proposal_body) (fail_with AlreadyExecuted)) (\<lambda>_.
     try_bind (ensure (\<not> approvals_count proposal_body < ucast (st_m state_body))
                 (fail_with ThresholdNotMet)) (\<lambda>_.
     let target_program_bytes = target_program proposal_body;
         action = action_bytes proposal_body
     in
     try_bind (write_proposal E prop (proposal_body\<lparr>executed := True\<rparr>)) (\<lambda>prop.
     let chained =
       \<lparr>call_program = target_program_id target_program_bytes,
        pre_states = [vlt\<lparr>is_authorized := True\<rparr>],
        instruction_data = serde_to_vec E action,
        pda_seeds = [vault_pda_seed E ck]\<rparr>
     in Inr (output_execute [state, prop, vlt, submitter] [chained] []))))))"

definition reject ::
  "spel_env \<Rightarrow> account_with_metadata \<Rightarrow> account_with_metadata \<Rightarrow> bytes32 \<Rightarrow> spel_error + spel_output" where
  "reject E state rejector ck = Inr (output_execute [state, rejector] [] [])"

section \<open>Dispatch\<close>

text \<open>
  SPEL calls the handler of an instruction with the instruction's accounts in the order of
  the handler's parameters; a wrong number of accounts has no handler to go to.
\<close>

fun dispatch :: "spel_env \<Rightarrow> instruction \<Rightarrow> account_with_metadata list \<Rightarrow> (spel_error + spel_output) option" where
  "dispatch E (CreateMultisig ck root m' n') [state, creator] =
     Some (create_multisig E state creator ck root m' n')"
| "dispatch E (Propose ck index action target) [state, prop, proposer] =
     Some (propose E state prop proposer ck index action target)"
| "dispatch E (Approve ck index nul public_inputs) [state, prop, entry, submitter] =
     Some (approve E state prop entry submitter ck index nul public_inputs)"
| "dispatch E (Execute ck index) [state, prop, vlt, submitter] =
     Some (execute E state prop vlt submitter ck index)"
| "dispatch E (CreateVault ck) [state, vlt, payer] = Some (create_vault E state vlt payer ck)"
| "dispatch E (Reject ck) [state, rejector] = Some (reject E state rejector ck)"
| "dispatch E _ _ = None"

section \<open>What the bodies' encodings promise\<close>

definition encode_state :: "spel_env \<Rightarrow> multisig_state \<Rightarrow> byte list option" where
  "encode_state E s = Option.bind (state_to_vec E s) (into_account_data E)"

definition encode_proposal :: "spel_env \<Rightarrow> proposal \<Rightarrow> byte list option" where
  "encode_proposal E p = Option.bind (proposal_to_vec E p) (into_account_data E)"

text \<open>What is stored is read back: the one fact about Borsh and the data cap that is used.\<close>

definition stores :: "spel_env \<Rightarrow> bool" where
  "stores E \<longleftrightarrow>
     (\<forall>s d. encode_state E s = Some d \<longrightarrow> state_from_slice E d = Some s) \<and>
     (\<forall>p d. encode_proposal E p = Some d \<longrightarrow> proposal_from_slice E d = Some p)"

lemma storesD:
  "stores E \<Longrightarrow> encode_state E s = Some d \<Longrightarrow> state_from_slice E d = Some s"
  "stores E \<Longrightarrow> encode_proposal E p = Some d \<Longrightarrow> proposal_from_slice E d = Some p"
  by (simp_all add: stores_def)

lemma write_state_eq_Inr [result_simps]:
  "write_state E a s = Inr a' \<longleftrightarrow> (\<exists>d. encode_state E s = Some d \<and> a' = set_data a d)"
  by (auto simp: write_state_def encode_state_def result_simps Option.bind_eq_Some_conv)

lemma write_proposal_eq_Inr [result_simps]:
  "write_proposal E a p = Inr a' \<longleftrightarrow> (\<exists>d. encode_proposal E p = Some d \<and> a' = set_data a d)"
  by (auto simp: write_proposal_def encode_proposal_def result_simps Option.bind_eq_Some_conv)

lemma decode_state_eq_Inr [result_simps]:
  "decode_state E a = Inr s \<longleftrightarrow> state_from_slice E (acc_data (acc a)) = Some s"
  by (simp add: decode_state_def result_simps)

lemma decode_proposal_eq_Inr [result_simps]:
  "decode_proposal E a = Inr p \<longleftrightarrow> proposal_from_slice E (acc_data (acc a)) = Some p"
  by (simp add: decode_proposal_def result_simps)

lemma write_decode_error:
  "write_state E a s = Inl e \<Longrightarrow> e = fail_with SerializationError"
  "write_proposal E a p = Inl e \<Longrightarrow> e = fail_with SerializationError"
  "decode_state E a = Inl e \<Longrightarrow> e = fail_with SerializationError"
  "decode_proposal E a = Inl e \<Longrightarrow> e = fail_with SerializationError"
  by (auto simp: write_state_def write_proposal_def decode_state_def decode_proposal_def result_simps)

lemma set_data_sel [simp]:
  "acc_data (acc (set_data a d)) = d" "program_owner (acc (set_data a d)) = program_owner (acc a)"
  "account_id (set_data a d) = account_id a" "is_authorized (set_data a d) = is_authorized a"
  by (simp_all add: set_data_def)

section \<open>When each handler succeeds\<close>

lemma create_multisig_eq_Inr:
  "create_multisig E state creator ck root m' n' = Inr out \<longleftrightarrow>
     1 \<le> unat m' \<and> unat m' \<le> unat n' \<and>
     (\<exists>d. encode_state E \<lparr>create_key = ck, members_root = root, st_m = m', st_n = n',
                          proposal_count = 0\<rparr> = Some d \<and>
          out = output_execute [set_data state d, creator] [] [])"
  by (auto simp: create_multisig_def result_simps validate_threshold_ok)

lemma create_vault_eq_Inr:
  "create_vault E state vlt payer ck = Inr out \<longleftrightarrow>
     (\<exists>s. state_from_slice E (acc_data (acc state)) = Some s) \<and>
     out = output_execute [state, vlt, payer] [] []"
  by (auto simp: create_vault_def result_simps)

lemma validate_action_bytes_eq_Inr:
  "validate_action_bytes bs = Inr u \<longleftrightarrow> length bs \<le> MAX_ACTION_BYTES_LEN"
  by (auto simp: validate_action_bytes_def)

lemma propose_eq_Inr:
  "propose E state prop proposer ck index action target = Inr out \<longleftrightarrow>
     length action \<le> MAX_ACTION_BYTES_LEN \<and>
     (\<exists>s ds dp. state_from_slice E (acc_data (acc state)) = Some s \<and>
        index = proposal_count s \<and> unat index + 1 < 2 ^ 64 \<and>
        encode_state E (s\<lparr>proposal_count := index + 1\<rparr>) = Some ds \<and>
        encode_proposal E \<lparr>action_bytes = action, target_program = target,
                           approvals_count = 0, executed = False\<rparr> = Some dp \<and>
        out = output_execute [set_data state ds, set_data prop dp, proposer] [] [])"
  by (auto simp: propose_def result_simps validate_action_bytes_eq_Inr checked_add_eq_Some)

lemma inputs_fields:
  "array32 (slice bs 0 32) = in_members_root (from_bytes bs)"
  "array32 (slice bs 32 32) = in_proposal_id (from_bytes bs)"
  "array32 (slice bs 64 32) = in_nullifier (from_bytes bs)"
  by (simp_all add: from_bytes_def)

text \<open>The proposal id that the verifier computes from what the ledger holds.\<close>

definition expected_proposal_id :: "hasher \<Rightarrow> bytes32 \<Rightarrow> u64 \<Rightarrow> proposal \<Rightarrow> bytes32" where
  "expected_proposal_id H state_pda index p =
     derive_proposal_id H (chain_id_from_u64 DEPLOYMENT_CHAIN_ID_U64) state_pda index
       (action_bytes p) (target_program p)"

lemma approve_eq_Inr:
  "approve E state prop entry submitter ck index nul pi = Inr out \<longleftrightarrow>
     (\<exists>s p d. state_from_slice E (acc_data (acc state)) = Some s \<and>
        proposal_from_slice E (acc_data (acc prop)) = Some p \<and>
        pi = to_bytes \<lparr>in_members_root = members_root s,
               in_proposal_id = expected_proposal_id (sha256 E) (account_id state) index p,
               in_nullifier = nul\<rparr> \<and>
        unat (approvals_count p) + 1 < 2 ^ 32 \<and>
        encode_proposal E (p\<lparr>approvals_count := approvals_count p + 1\<rparr>) = Some d \<and>
        out = output_execute [state, set_data prop d, entry, submitter] []
                [(APPROVE_CIRCUIT_IMAGE_ID, pi)])"
  (is "_ \<longleftrightarrow> ?rhs")
proof -
  have pi: "length pi = APPROVE_PUBLIC_INPUTS_LEN \<and> in_members_root (from_bytes pi) = r \<and>
      in_proposal_id (from_bytes pi) = q \<and> in_nullifier (from_bytes pi) = nul \<longleftrightarrow>
      pi = to_bytes \<lparr>in_members_root = r, in_proposal_id = q, in_nullifier = nul\<rparr>" for r q
    unfolding eq_to_bytes_iff by (cases "from_bytes pi") simp
  have "approve E state prop entry submitter ck index nul pi = Inr out \<longleftrightarrow>
     length pi = APPROVE_PUBLIC_INPUTS_LEN \<and>
     (\<exists>s. state_from_slice E (acc_data (acc state)) = Some s \<and>
     (\<exists>p. proposal_from_slice E (acc_data (acc prop)) = Some p \<and>
        in_members_root (from_bytes pi) = members_root s \<and>
        in_proposal_id (from_bytes pi) = expected_proposal_id (sha256 E) (account_id state) index p \<and>
        in_nullifier (from_bytes pi) = nul \<and>
        unat (approvals_count p) + 1 < 2 ^ 32 \<and>
        (\<exists>d. encode_proposal E (p\<lparr>approvals_count := approvals_count p + 1\<rparr>) = Some d \<and>
        output_execute [state, set_data prop d, entry, submitter] []
                [(APPROVE_CIRCUIT_IMAGE_ID, pi)] = out)))" (is "_ \<longleftrightarrow> ?R")
    by (simp add: approve_def Let_def inputs_fields result_simps checked_add_eq_Some
        expected_proposal_id_def)
  moreover have "?R \<longleftrightarrow> ?rhs" unfolding pi [symmetric] by blast
  ultimately show ?thesis by blast
qed

lemma execute_eq_Inr:
  "execute E state prop vlt submitter ck index = Inr out \<longleftrightarrow>
     (\<exists>s p d. state_from_slice E (acc_data (acc state)) = Some s \<and>
        proposal_from_slice E (acc_data (acc prop)) = Some p \<and>
        \<not> executed p \<and> unat (st_m s) \<le> unat (approvals_count p) \<and>
        encode_proposal E (p\<lparr>executed := True\<rparr>) = Some d \<and>
        out = output_execute [state, set_data prop d, vlt, submitter]
          [\<lparr>call_program = target_program_id (target_program p),
            pre_states = [vlt\<lparr>is_authorized := True\<rparr>],
            instruction_data = serde_to_vec E (action_bytes p),
            pda_seeds = [vault_pda_seed E ck]\<rparr>] [])"
  by (auto simp: execute_def Let_def result_simps word_less_nat_alt unat_ucast_u8 not_less)

lemma reject_eq_Inr:
  "reject E state rejector ck = Inr out \<longleftrightarrow> out = output_execute [state, rejector] [] []"
  by (auto simp: reject_def)

section \<open>Surroundings for the examples\<close>

text \<open>
  The pinned body layouts, a data cap of 100 KiB and a word serialiser that keeps the bytes.
\<close>

definition borsh_env :: "hasher \<Rightarrow> spel_env" where
  "borsh_env H =
     \<lparr>state_to_vec = (\<lambda>s. Some (state_bytes s)), state_from_slice = parse_state,
      proposal_to_vec = (\<lambda>p. if storable p then Some (proposal_bytes p) else None),
      proposal_from_slice = parse_proposal,
      into_account_data = (\<lambda>bs. if length bs \<le> 102400 then Some bs else None),
      serde_to_vec = map ucast, seed_from_str = (\<lambda>s. literal_seed (ascii s)), sha256 = H\<rparr>"

lemma borsh_env_sel [simp]:
  "sha256 (borsh_env H) = H" "state_from_slice (borsh_env H) = parse_state"
  "proposal_from_slice (borsh_env H) = parse_proposal"
  "seed_from_str (borsh_env H) s = literal_seed (ascii s)"
  "serde_to_vec (borsh_env H) = map ucast"
  by (simp_all add: borsh_env_def)

lemma encode_state_borsh [simp]: "encode_state (borsh_env H) s = Some (state_bytes s)"
  by (simp add: encode_state_def borsh_env_def length_state_bytes)

lemma length_proposal_bytes: "length (proposal_bytes p) = length (action_bytes p) + 41"
  by (simp add: proposal_bytes_def)

lemma encode_proposal_borsh:
  "encode_proposal (borsh_env H) p =
     (if length (action_bytes p) \<le> 102359 then Some (proposal_bytes p) else None)"
  by (auto simp: encode_proposal_def borsh_env_def storable_def length_proposal_bytes)

lemma stores_borsh: "stores (borsh_env H)"
  by (auto simp: stores_def encode_proposal_borsh parse_state_bytes storable_def
      intro: parse_proposal_bytes split: if_splits)

section \<open>Properties of the handlers\<close>

text \<open>
  C21: the error codes the program can return. Whatever the accounts and arguments, a handler
  that fails does so with one of nine codes: action too long, invalid threshold,
  serialization, overflow, invalid receipt, root mismatch, proposal id mismatch, threshold
  not met, already executed. The codes 1000, 1001, 2001 and 3000 are reserved and are never
  returned.
\<close>

theorem returned_codes:
  assumes "dispatch E ix accts = Some (Inl e)"
  shows "e \<in> fail_with ` {ActionBytesTooLong, InvalidThreshold, SerializationError,
           ArithmeticOverflow, InvalidReceipt, RootMismatch, ProposalIdMismatch,
           ThresholdNotMet, AlreadyExecuted} \<and>
         e \<notin> Custom ` {1000, 1001, 2001, 3000}"
proof -
  have "e \<in> fail_with ` {ActionBytesTooLong, InvalidThreshold, SerializationError,
           ArithmeticOverflow, InvalidReceipt, RootMismatch, ProposalIdMismatch,
           ThresholdNotMet, AlreadyExecuted}" (is "e \<in> ?S")
  proof -
    have e1: "map_err fail_with (validate_threshold m' n') = Inl e \<Longrightarrow> e \<in> ?S" for m' n'
      by (auto simp: validate_threshold_def map_err_def split: if_splits)
    have e2: "map_err fail_with (validate_action_bytes a) = Inl e \<Longrightarrow> e \<in> ?S" for a
      by (auto simp: validate_action_bytes_def map_err_def split: if_splits)
    note errs = e1 e2 write_decode_error
    show ?thesis using assms
    proof (cases "(E, ix, accts)" rule: dispatch.cases)
      case (1 E ck root m' n' state creator)
      with assms show ?thesis by (auto simp: create_multisig_def result_simps dest: errs)
    next
      case (2 E ck index action target state prp proposer)
      with assms show ?thesis by (auto simp: propose_def Let_def result_simps dest: errs)
    next
      case (3 E ck index nul pi state prp entry submitter)
      with assms show ?thesis by (auto simp: approve_def Let_def result_simps dest: errs)
    next
      case (4 E ck index state prp vlt submitter)
      with assms show ?thesis by (auto simp: execute_def Let_def result_simps dest: errs)
    next
      case (5 E ck state vlt payer)
      with assms show ?thesis by (auto simp: create_vault_def result_simps dest: errs)
    next
      case (6 E ck state rejector)
      with assms show ?thesis by (auto simp: reject_def)
    qed auto
  qed
  then show ?thesis by (auto simp: fail_with_def)
qed

theorem returned_codes_witness:
  "\<exists>a e. dispatch (borsh_env sample_hash) (Execute 1 0) [a, a, a, a] = Some (Inl e) \<and>
     e = fail_with SerializationError \<and> e \<notin> Custom ` {1000, 1001, 2001, 3000}"
proof -
  let ?a = "\<lparr>acc = \<lparr>program_owner = 5, acc_data = []\<rparr>, is_authorized = False, account_id = 7\<rparr>"
  have run: "dispatch (borsh_env sample_hash) (Execute 1 0) [?a, ?a, ?a, ?a] =
      Some (Inl (fail_with SerializationError))"
    by (simp add: execute_def decode_state_def parse_state_def)
  then show ?thesis using returned_codes [OF run] by blast
qed

text \<open>The words of a program id.\<close>

lemma target_program_id_eq:
  "target_program_id t = map (\<lambda>i. of_le (take 4 (drop (i * 4) (bytes_of t)))) [0..<8]"
proof -
  have four: "[bs ! k, bs ! (k + 1), bs ! (k + 2), bs ! (k + 3)] = take 4 (drop k bs)"
    if "k + 4 \<le> length bs" for k and bs :: "byte list"
    using that by (intro nth_equalityI) (auto simp: nth_Cons' less_Suc_eq eval_nat_numeral)
  let ?f = "\<lambda>i. of_le [bytes_of t ! (i * 4), bytes_of t ! (i * 4 + 1), bytes_of t ! (i * 4 + 2),
      bytes_of t ! (i * 4 + 3)] :: u32"
  have "target_program_id t = map ?f [0..<8]"
    using fold_fill [of 8 8 ?f 0] by (simp only: target_program_id_def Let_def) simp
  also have "\<dots> = map (\<lambda>i. of_le (take 4 (drop (i * 4) (bytes_of t)))) [0..<8]"
    by (rule map_cong [OF refl], subst four) simp_all
  finally show ?thesis .
qed

lemma target_program_id_bytes: "concat (map to_le (target_program_id t)) = bytes_of t"
proof -
  have "to_le (of_le (take 4 (drop (i * 4) (bytes_of t))) :: u32) = take 4 (drop (i * 4) (bytes_of t))"
    if "i < 8" for i
    using that by (intro to_le_of_le) simp_all
  then have "map to_le (target_program_id t) = map (\<lambda>i. take 4 (drop (i * 4) (bytes_of t))) [0..<8]"
    by (simp add: target_program_id_eq)
  then show ?thesis using concat_chunks [of "bytes_of t" 8 4] by simp
qed

text \<open>
  The call goes to the program the proposal names. The conversion of the 32-byte target
  into the eight words of a program id loses nothing: the words' little-endian bytes are the
  target, so distinct targets are distinct programs.
\<close>

theorem target_program_id_exact:
  "length (target_program_id t) = 8 \<and>
   concat (map to_le (target_program_id t)) = bytes_of t \<and>
   (target_program_id t = target_program_id u \<longleftrightarrow> t = u)"
proof -
  have "length (target_program_id t) = 8" by (simp add: target_program_id_eq)
  then show ?thesis
    using target_program_id_bytes [of t] target_program_id_bytes [of u] by (metis bytes_of_inj)
qed

lemma vault_pda_seed_eq:
  "vault_pda_seed E ck = sha256 E (bytes_of (seed_from_str E ''pmsig_vault__'') @ bytes_of ck)"
  using copy_into_next [of "[]" 0 "bytes_of (seed_from_str E ''pmsig_vault__'')" 64 0]
    copy_into_next [of "bytes_of (seed_from_str E ''pmsig_vault__'')" 32 "bytes_of ck" 32 0]
  by (simp add: vault_pda_seed_def Let_def)

text \<open>
  The seed handed to the callee authorises the vault. When SPEL's seed of the string
  \<open>pmsig_vault__\<close> is the zero-padded literal that \<open>pda.rs\<close> uses, the seed that \<open>execute\<close>
  passes in its call, combined with the program id under the public-PDA prefix, is the
  address of the instance's vault.
\<close>

theorem vault_seed_authorises:
  assumes "seed_from_str E ''pmsig_vault__'' = literal_seed SEED_VAULT"
  shows "derive_vault_pda (sha256 E) pid ck =
    Some (sha256 E (NSSA_PUBLIC_PDA_PREFIX @ bytes_of pid @ bytes_of (vault_pda_seed E ck)))"
  by (simp add: derive_address(3) address_def pda_preimage_def vault_pda_seed_eq assms)

theorem vault_seed_authorises_witness:
  "derive_vault_pda sample_hash 5 9 =
    Some (sample_hash (NSSA_PUBLIC_PDA_PREFIX @ bytes_of 5 @
      bytes_of (vault_pda_seed (borsh_env sample_hash) 9)))"
  using vault_seed_authorises [of "borsh_env sample_hash" 5 9] by (simp add: SEED_VAULT_def)

text \<open>
  C20: when an approval counts. \<open>approve\<close> succeeds exactly when both bodies decode, the
  public inputs are the 96-byte bundle of the root frozen in the state, the proposal id
  recomputed from the ledger's own index, action and target, and the nullifier that seeds
  the entry's address, and the counter does not overflow. Then it adds one to the counter
  and changes nothing else, makes no call, and asks for exactly one receipt: of the pinned
  circuit, for exactly those public inputs.
\<close>

theorem approve_accepts_iff:
  "approve E state prop entry submitter ck index nul pi = Inr out \<longleftrightarrow>
     (\<exists>s p d. state_from_slice E (acc_data (acc state)) = Some s \<and>
        proposal_from_slice E (acc_data (acc prop)) = Some p \<and>
        pi = to_bytes \<lparr>in_members_root = members_root s,
               in_proposal_id = derive_proposal_id (sha256 E)
                 (chain_id_from_u64 DEPLOYMENT_CHAIN_ID_U64) (account_id state) index
                 (action_bytes p) (target_program p),
               in_nullifier = nul\<rparr> \<and>
        unat (approvals_count p) + 1 < 2 ^ 32 \<and>
        encode_proposal E (p\<lparr>approvals_count := approvals_count p + 1\<rparr>) = Some d \<and>
        out = output_execute [state, set_data prop d, entry, submitter] []
                [(APPROVE_CIRCUIT_IMAGE_ID, pi)])"
  using approve_eq_Inr unfolding expected_proposal_id_def .

text \<open>
  When a proposal executes. \<open>execute\<close> succeeds exactly when both bodies decode, the
  proposal has not been executed and its counter has reached the instance's threshold. Then
  it sets the executed flag and changes nothing else, and makes exactly one call: to the
  proposal's target, with the proposal's action, over the vault alone, authorised by the
  vault's seed.
\<close>

theorem execute_accepts_iff:
  "execute E state prop vlt submitter ck index = Inr out \<longleftrightarrow>
     (\<exists>s p d. state_from_slice E (acc_data (acc state)) = Some s \<and>
        proposal_from_slice E (acc_data (acc prop)) = Some p \<and>
        \<not> executed p \<and> unat (st_m s) \<le> unat (approvals_count p) \<and>
        encode_proposal E (p\<lparr>executed := True\<rparr>) = Some d \<and>
        out = output_execute [state, set_data prop d, vlt, submitter]
          [\<lparr>call_program = target_program_id (target_program p),
            pre_states = [vlt\<lparr>is_authorized := True\<rparr>],
            instruction_data = serde_to_vec E (action_bytes p),
            pda_seeds = [vault_pda_seed E ck]\<rparr>] [])"
  by (rule execute_eq_Inr)

text \<open>
  Proposals are numbered without gaps or reuse. \<open>propose\<close> succeeds exactly when the
  action has at most 4096 bytes, the state decodes, the index is the instance's current
  count and the count does not overflow. Then the count goes up by one, and the new
  proposal carries the given action and target, no approval, and is not executed.
\<close>

theorem propose_accepts_iff:
  "propose E state prop proposer ck index action target = Inr out \<longleftrightarrow>
     length action \<le> 4096 \<and>
     (\<exists>s ds dp. state_from_slice E (acc_data (acc state)) = Some s \<and>
        index = proposal_count s \<and> unat index + 1 < 2 ^ 64 \<and>
        encode_state E (s\<lparr>proposal_count := index + 1\<rparr>) = Some ds \<and>
        encode_proposal E \<lparr>action_bytes = action, target_program = target,
                           approvals_count = 0, executed = False\<rparr> = Some dp \<and>
        out = output_execute [set_data state ds, set_data prop dp, proposer] [] [])"
  using propose_eq_Inr unfolding MAX_ACTION_BYTES_LEN_def .

end
