(* ===== verification/Ledger.thy ===== *)
theory Ledger
  imports Verifier
begin

text \<open>
  The verifier program on a ledger: the \<open>#[account(...)]\<close> attributes of its handlers as tables,
  and one call of the program as a step of the ledger.

  What the chain does around a handler is not in the repository and is the record \<open>runtime\<close>:
  the blank account, SPEL's check of the attributes, the host's check of the receipts and how
  the handler's accounts are written back. \<open>runtime_ok\<close> states what the sources' comments
  rely on: an admitted call supplies distinct accounts, one for each attribute; an \<open>init\<close>
  account is blank; an \<open>owner = self_program_id\<close> account belongs to the program; a \<open>pda\<close>
  account sits at the derived address; the posts are written back, \<open>init\<close> accounts are
  claimed, everything else stays.
\<close>

section \<open>Account attributes\<close>

datatype seed = Lit string | Arg bytes32 | ArgIndex u64 | AccountAt nat

record account_attr =
  at_init :: bool
  at_mut :: bool
  at_owner_self :: bool
  at_signer :: bool
  at_pda :: "seed list option"

definition init_pda :: "seed list \<Rightarrow> account_attr" where
  "init_pda s = \<lparr>at_init = True, at_mut = False, at_owner_self = False, at_signer = False,
                 at_pda = Some s\<rparr>"

definition own_pda :: "bool \<Rightarrow> seed list \<Rightarrow> account_attr" where
  "own_pda m' s = \<lparr>at_init = False, at_mut = m', at_owner_self = True, at_signer = False,
                  at_pda = Some s\<rparr>"

definition signer_attr :: account_attr where
  "signer_attr = \<lparr>at_init = False, at_mut = False, at_owner_self = False, at_signer = True,
                  at_pda = None\<rparr>"

text \<open>One table per handler, and the table of an instruction's handler.\<close>

definition create_multisig_attrs :: "bytes32 \<Rightarrow> account_attr list" where
  "create_multisig_attrs ck = [init_pda [Lit ''pmsig_state__'', Arg ck], signer_attr]"

definition create_vault_attrs :: "bytes32 \<Rightarrow> account_attr list" where
  "create_vault_attrs ck =
     [own_pda False [Lit ''pmsig_state__'', Arg ck],
      init_pda [Lit ''pmsig_vault__'', Arg ck], signer_attr]"

definition propose_attrs :: "bytes32 \<Rightarrow> u64 \<Rightarrow> account_attr list" where
  "propose_attrs ck index =
     [own_pda True [Lit ''pmsig_state__'', Arg ck],
      init_pda [Lit ''pmsig_prop___'', Arg ck, ArgIndex index], signer_attr]"

definition approve_attrs :: "bytes32 \<Rightarrow> u64 \<Rightarrow> bytes32 \<Rightarrow> account_attr list" where
  "approve_attrs ck index nul =
     [own_pda True [Lit ''pmsig_state__'', Arg ck],
      own_pda True [Lit ''pmsig_prop___'', Arg ck, ArgIndex index],
      init_pda [Lit ''pmsig_nulli__'', AccountAt 1, Arg nul], signer_attr]"

definition execute_attrs :: "bytes32 \<Rightarrow> u64 \<Rightarrow> account_attr list" where
  "execute_attrs ck index =
     [own_pda True [Lit ''pmsig_state__'', Arg ck],
      own_pda True [Lit ''pmsig_prop___'', Arg ck, ArgIndex index],
      own_pda True [Lit ''pmsig_vault__'', Arg ck], signer_attr]"

definition reject_attrs :: "bytes32 \<Rightarrow> account_attr list" where
  "reject_attrs ck = [own_pda False [Lit ''pmsig_state__'', Arg ck], signer_attr]"

lemmas attr_tables [simp] = create_multisig_attrs_def create_vault_attrs_def propose_attrs_def
  approve_attrs_def execute_attrs_def reject_attrs_def

fun handler_attrs :: "instruction \<Rightarrow> account_attr list" where
  "handler_attrs (CreateMultisig ck root m' n') = create_multisig_attrs ck"
| "handler_attrs (Propose ck index action target) = propose_attrs ck index"
| "handler_attrs (Approve ck index nul pi) = approve_attrs ck index nul"
| "handler_attrs (Execute ck index) = execute_attrs ck index"
| "handler_attrs (CreateVault ck) = create_vault_attrs ck"
| "handler_attrs (Reject ck) = reject_attrs ck"

text \<open>The 32 bytes a seed stands for, and the address of a list of seeds.\<close>

fun seed_value :: "account_with_metadata list \<Rightarrow> seed \<Rightarrow> bytes32 option" where
  "seed_value accts (Lit s) = pad_seed_32 (ascii s)"
| "seed_value accts (Arg b) = Some b"
| "seed_value accts (ArgIndex i) = pad_seed_32 (to_le i)"
| "seed_value accts (AccountAt k) = (if k < length accts then Some (account_id (accts ! k)) else None)"

definition attr_address ::
  "hasher \<Rightarrow> bytes32 \<Rightarrow> account_with_metadata list \<Rightarrow> seed list \<Rightarrow> bytes32 option" where
  "attr_address H pid accts seeds =
     (let vs = map (seed_value accts) seeds
      in if None \<in> set vs then None else derive_pda H pid (map the vs))"

section \<open>The chain\<close>

type_synonym ledger = "bytes32 \<Rightarrow> account"

record runtime =
  blank :: account
  spel_check :: "bytes32 \<Rightarrow> account_attr list \<Rightarrow> account_with_metadata list \<Rightarrow> bool"
  discharged :: "u32 list \<Rightarrow> byte list \<Rightarrow> bool"
  settle :: "bytes32 \<Rightarrow> account_attr list \<Rightarrow> account_with_metadata list \<Rightarrow> ledger \<Rightarrow> ledger"

definition attr_holds ::
  "hasher \<Rightarrow> runtime \<Rightarrow> bytes32 \<Rightarrow> account_with_metadata list \<Rightarrow> account_attr \<Rightarrow>
   account_with_metadata \<Rightarrow> bool" where
  "attr_holds H R pid accts attr a \<longleftrightarrow>
     (at_init attr \<longrightarrow> acc a = blank R) \<and>
     (at_owner_self attr \<longrightarrow> program_owner (acc a) = pid) \<and>
     (at_signer attr \<longrightarrow> is_authorized a) \<and>
     (case at_pda attr of None \<Rightarrow> True | Some seeds \<Rightarrow> attr_address H pid accts seeds = Some (account_id a))"

definition written :: "bytes32 \<Rightarrow> account_attr \<Rightarrow> account_with_metadata \<Rightarrow> account" where
  "written pid attr a = (if at_init attr then (acc a)\<lparr>program_owner := pid\<rparr> else acc a)"

definition runtime_ok :: "hasher \<Rightarrow> runtime \<Rightarrow> bytes32 \<Rightarrow> bool" where
  "runtime_ok H R pid \<longleftrightarrow>
     program_owner (blank R) \<noteq> pid \<and>
     (\<forall>attrs accts. spel_check R pid attrs accts \<longrightarrow>
        distinct (map account_id accts) \<and> list_all2 (attr_holds H R pid accts) attrs accts) \<and>
     (\<forall>attrs posts L. length posts = length attrs \<and> distinct (map account_id posts) \<longrightarrow>
        (\<forall>k < length posts.
           settle R pid attrs posts L (account_id (posts ! k)) = written pid (attrs ! k) (posts ! k)) \<and>
        (\<forall>a. a \<notin> account_id ` set posts \<longrightarrow> settle R pid attrs posts L a = L a))"

text \<open>A call: an instruction, the accounts it names and those that signed.\<close>

definition load_account :: "ledger \<Rightarrow> bytes32 set \<Rightarrow> bytes32 \<Rightarrow> account_with_metadata" where
  "load_account L signers a = \<lparr>acc = L a, is_authorized = (a \<in> signers), account_id = a\<rparr>"

definition submit ::
  "spel_env \<Rightarrow> runtime \<Rightarrow> bytes32 \<Rightarrow> ledger \<Rightarrow> instruction \<Rightarrow> bytes32 list \<Rightarrow> bytes32 set \<Rightarrow>
   (ledger \<times> spel_output) option" where
  "submit E R pid L ix ids signers =
     (let accts = map (load_account L signers) ids
      in if \<not> spel_check R pid (handler_attrs ix) accts then None
         else case dispatch E ix accts of
             Some (Inr out) \<Rightarrow>
               if list_all (\<lambda>(image, journal). discharged R image journal) (assumptions out)
               then Some (settle R pid (handler_attrs ix) (post_states out) L, out)
               else None
           | _ \<Rightarrow> None)"

section \<open>What a successful call does\<close>

lemma attr_address_names:
  "attr_address H pid accts [Lit ''pmsig_state__'', Arg ck] = Some (address H pid (StateOf ck))"
  "attr_address H pid accts [Lit ''pmsig_prop___'', Arg ck, ArgIndex i]
     = Some (address H pid (ProposalOf ck i))"
  "attr_address H pid accts [Lit ''pmsig_vault__'', Arg ck] = Some (address H pid (VaultOf ck))"
  "attr_address H pid (x # y # accts) [Lit ''pmsig_nulli__'', AccountAt (Suc 0), Arg nul]
     = derive_nullifier_entry_pda H pid (account_id y) nul"
proof -
  have lits: "ascii ''pmsig_state__'' = SEED_MULTISIG_STATE" "ascii ''pmsig_prop___'' = SEED_PROPOSAL"
    "ascii ''pmsig_vault__'' = SEED_VAULT" "ascii ''pmsig_nulli__'' = SEED_NULLIFIER"
    by (simp_all only: SEED_MULTISIG_STATE_def SEED_PROPOSAL_def SEED_VAULT_def SEED_NULLIFIER_def)
  note d = attr_address_def Let_def lits pad_seed_32_eq length_seeds derive_pda_def address_def
    pda_preimage_def proposal_seeds_def
  show "attr_address H pid accts [Lit ''pmsig_state__'', Arg ck] = Some (address H pid (StateOf ck))"
    "attr_address H pid accts [Lit ''pmsig_prop___'', Arg ck, ArgIndex i]
       = Some (address H pid (ProposalOf ck i))"
    "attr_address H pid accts [Lit ''pmsig_vault__'', Arg ck] = Some (address H pid (VaultOf ck))"
    by (simp_all add: d)
  show "attr_address H pid (x # y # accts) [Lit ''pmsig_nulli__'', AccountAt (Suc 0), Arg nul]
     = derive_nullifier_entry_pda H pid (account_id y) nul"
    by (simp add: d derive_nullifier_entry_pda_def)
qed

lemma fold_upd_other: "a \<notin> fst ` set xs \<Longrightarrow> fold (\<lambda>(k, v) f. f(k := v)) xs f a = f a"
  by (induction xs arbitrary: f) auto

lemma fold_upd_in:
  "distinct (map fst xs) \<Longrightarrow> (a, v) \<in> set xs \<Longrightarrow> fold (\<lambda>(k, v) f. f(k := v)) xs f a = v"
  by (induction xs arbitrary: f) (auto simp: fold_upd_other)

definition posted :: "bytes32 \<Rightarrow> account_attr list \<Rightarrow> account_with_metadata list \<Rightarrow> (bytes32 \<times> account) list" where
  "posted pid attrs posts = map2 (\<lambda>attr p. (account_id p, written pid attr p)) attrs posts"

lemma map_fst_posted: "length posts = length attrs \<Longrightarrow> map fst (posted pid attrs posts) = map account_id posts"
  by (rule nth_equalityI) (simp_all add: posted_def)

lemma settle_eq:
  assumes ok: "runtime_ok H R pid" and l: "length posts = length attrs"
    and d: "distinct (map account_id posts)"
  shows "settle R pid attrs posts L = fold (\<lambda>(k, v) f. f(k := v)) (posted pid attrs posts) L"
    (is "?l = ?r")
proof
  fix a
  show "?l a = ?r a"
  proof (cases "a \<in> account_id ` set posts")
    case True
    then obtain k where k: "k < length posts" "a = account_id (posts ! k)"
      by (auto simp: in_set_conv_nth)
    then have "(a, written pid (attrs ! k) (posts ! k)) \<in> set (posted pid attrs posts)"
      using l by (auto simp: posted_def image_iff set_zip intro!: exI [of _ k])
    then have "?r a = written pid (attrs ! k) (posts ! k)"
      using d l by (intro fold_upd_in) (simp_all add: map_fst_posted)
    then show ?thesis using ok k l d by (simp add: runtime_ok_def)
  next
    case False
    then have "a \<notin> fst ` set (posted pid attrs posts)"
      using map_fst_posted [OF l] by (metis list.set_map)
    then have "?r a = L a" by (rule fold_upd_other)
    then show ?thesis using ok l d False by (simp add: runtime_ok_def)
  qed
qed

lemma submit_cases:
  assumes "runtime_ok H R pid" and "submit E R pid L ix ids signers = Some (L', out)"
  obtains "distinct ids"
    "list_all2 (attr_holds H R pid (map (load_account L signers) ids)) (handler_attrs ix)
       (map (load_account L signers) ids)"
    "dispatch E ix (map (load_account L signers) ids) = Some (Inr out)"
    "\<forall>(image, journal) \<in> set (assumptions out). discharged R image journal"
    "L' = settle R pid (handler_attrs ix) (post_states out) L"
proof -
  let ?accts = "map (load_account L signers) ids"
  have c: "spel_check R pid (handler_attrs ix) ?accts"
    and d: "dispatch E ix ?accts = Some (Inr out)"
    and r: "list_all (\<lambda>(image, journal). discharged R image journal) (assumptions out)"
    and l: "L' = settle R pid (handler_attrs ix) (post_states out) L"
    using assms(2) by (auto simp: submit_def Let_def split: if_splits option.splits sum.splits)
  have "map account_id ?accts = ids" by (simp add: load_account_def comp_def)
  then have "distinct ids"
    "list_all2 (attr_holds H R pid ?accts) (handler_attrs ix) ?accts"
    using assms(1) c by (metis runtime_ok_def)+
  then show thesis using d r l by (intro that) (simp_all add: list_all_iff)
qed

lemma list_all2_Cons_map:
  "list_all2 P (x # xs) (map f ids) \<longleftrightarrow> (\<exists>a as. ids = a # as \<and> P x (f a) \<and> list_all2 P xs (map f as))"
  by (cases ids) auto

lemma account_written:
  "a\<lparr>acc_data := d, program_owner := p\<rparr> = \<lparr>program_owner = p, acc_data = d\<rparr>"
  "program_owner a = p \<Longrightarrow> a\<lparr>acc_data := d\<rparr> = \<lparr>program_owner = p, acc_data = d\<rparr>" for a :: account
  by (cases a; simp)+

lemma upd_restore:
  "x \<noteq> a \<Longrightarrow> f(x := v, a := f a) = f(x := v)"
  "x \<noteq> a \<Longrightarrow> y \<noteq> a \<Longrightarrow> f(x := v, y := w, a := f a) = f(x := v, y := w)"
  by auto

lemmas load_simps = load_account_def list_all2_Cons_map attr_holds_def init_pda_def own_pda_def
  signer_attr_def attr_address_names derive_address output_execute_def posted_def written_def set_data_def
  account_written upd_restore

text \<open>
  What each handler reads and writes: the addresses are those of the named accounts, and the
  ledger after the call differs from the one before only there.
\<close>

lemma create_effect:
  assumes ok: "runtime_ok H R pid"
    and s: "submit E R pid L (CreateMultisig ck root m' n') ids signers = Some (L', out)"
  shows "\<exists>d. 1 \<le> unat m' \<and> unat m' \<le> unat n' \<and> L (address H pid (StateOf ck)) = blank R \<and>
    encode_state E \<lparr>create_key = ck, members_root = root, st_m = m', st_n = n', proposal_count = 0\<rparr>
      = Some d \<and>
    L' = L(address H pid (StateOf ck) := \<lparr>program_owner = pid, acc_data = d\<rparr>)"
  by (rule submit_cases [OF ok s]) (auto simp: load_simps create_multisig_eq_Inr settle_eq [OF ok])

lemma vault_effect:
  assumes ok: "runtime_ok H R pid"
    and s: "submit E R pid L (CreateVault ck) ids signers = Some (L', out)"
  shows "program_owner (L (address H pid (StateOf ck))) = pid \<and>
    L (address H pid (VaultOf ck)) = blank R \<and>
    L' = L(address H pid (VaultOf ck) := (blank R)\<lparr>program_owner := pid\<rparr>)"
  by (rule submit_cases [OF ok s]) (auto simp: load_simps create_vault_eq_Inr settle_eq [OF ok])

lemma reject_effect:
  assumes ok: "runtime_ok H R pid"
    and s: "submit E R pid L (Reject ck) ids signers = Some (L', out)"
  shows "program_owner (L (address H pid (StateOf ck))) = pid \<and> L' = L"
  by (rule submit_cases [OF ok s]) (auto simp: load_simps reject_eq_Inr settle_eq [OF ok])

lemma propose_effect:
  assumes ok: "runtime_ok H R pid"
    and s: "submit E R pid L (Propose ck index action target) ids signers = Some (L', out)"
  shows "\<exists>st ds dp. length action \<le> MAX_ACTION_BYTES_LEN \<and>
    program_owner (L (address H pid (StateOf ck))) = pid \<and>
    L (address H pid (ProposalOf ck index)) = blank R \<and>
    state_from_slice E (acc_data (L (address H pid (StateOf ck)))) = Some st \<and>
    index = proposal_count st \<and> unat index + 1 < 2 ^ 64 \<and>
    encode_state E (st\<lparr>proposal_count := index + 1\<rparr>) = Some ds \<and>
    encode_proposal E \<lparr>action_bytes = action, target_program = target, approvals_count = 0,
                       executed = False\<rparr> = Some dp \<and>
    L' = L(address H pid (StateOf ck) := \<lparr>program_owner = pid, acc_data = ds\<rparr>,
           address H pid (ProposalOf ck index) := \<lparr>program_owner = pid, acc_data = dp\<rparr>)"
  by (rule submit_cases [OF ok s]) (auto simp: load_simps propose_eq_Inr settle_eq [OF ok])

lemma approve_effect:
  assumes ok: "runtime_ok H R pid"
    and s: "submit E R pid L (Approve ck index nul pi) ids signers = Some (L', out)"
  shows "\<exists>st p d. program_owner (L (address H pid (StateOf ck))) = pid \<and>
    program_owner (L (address H pid (ProposalOf ck index))) = pid \<and>
    L (address H pid (NullifierOf ck index nul)) = blank R \<and>
    state_from_slice E (acc_data (L (address H pid (StateOf ck)))) = Some st \<and>
    proposal_from_slice E (acc_data (L (address H pid (ProposalOf ck index)))) = Some p \<and>
    pi = to_bytes \<lparr>in_members_root = members_root st,
           in_proposal_id = expected_proposal_id (sha256 E) (address H pid (StateOf ck)) index p,
           in_nullifier = nul\<rparr> \<and>
    unat (approvals_count p) + 1 < 2 ^ 32 \<and>
    encode_proposal E (p\<lparr>approvals_count := approvals_count p + 1\<rparr>) = Some d \<and>
    discharged R APPROVE_CIRCUIT_IMAGE_ID pi \<and>
    L' = L(address H pid (ProposalOf ck index) := \<lparr>program_owner = pid, acc_data = d\<rparr>,
           address H pid (NullifierOf ck index nul) := (blank R)\<lparr>program_owner := pid\<rparr>)"
  by (rule submit_cases [OF ok s]) (auto simp: load_simps approve_eq_Inr settle_eq [OF ok])

lemma execute_effect:
  assumes ok: "runtime_ok H R pid"
    and s: "submit E R pid L (Execute ck index) ids signers = Some (L', out)"
  shows "\<exists>st p d. program_owner (L (address H pid (StateOf ck))) = pid \<and>
    program_owner (L (address H pid (ProposalOf ck index))) = pid \<and>
    program_owner (L (address H pid (VaultOf ck))) = pid \<and>
    state_from_slice E (acc_data (L (address H pid (StateOf ck)))) = Some st \<and>
    proposal_from_slice E (acc_data (L (address H pid (ProposalOf ck index)))) = Some p \<and>
    \<not> executed p \<and> unat (st_m st) \<le> unat (approvals_count p) \<and>
    encode_proposal E (p\<lparr>executed := True\<rparr>) = Some d \<and>
    chained_calls out = [\<lparr>call_program = target_program_id (target_program p),
        pre_states = [\<lparr>acc = L (address H pid (VaultOf ck)), is_authorized = True,
                       account_id = address H pid (VaultOf ck)\<rparr>],
        instruction_data = serde_to_vec E (action_bytes p),
        pda_seeds = [vault_pda_seed E ck]\<rparr>] \<and>
    L' = L(address H pid (ProposalOf ck index) := \<lparr>program_owner = pid, acc_data = d\<rparr>)"
  by (rule submit_cases [OF ok s])
    (auto simp: load_simps execute_eq_Inr settle_eq [OF ok])

end
