(* ===== verification/Multisig_Spec.thy ===== *)
theory Multisig_Spec
  imports Core_State Proof_Inputs Pda
begin

text \<open>
  What the verifier program promises, without accounts, bytes or counters: a machine over
  instances, ballots and vaults. An instance has its frozen root and quorum and the number of
  ballots opened; a ballot has its action, its target, the nullifiers that voted for it and
  whether it has fired. \<open>Refinement\<close> shows that the program implements it.
\<close>

record instance_view =
  ins_root :: bytes32
  ins_m :: nat
  ins_n :: nat
  ins_count :: nat

record ballot =
  bl_action :: "byte list"
  bl_target :: bytes32
  bl_votes :: "bytes32 list"
  bl_done :: bool

record spec =
  sp_inst :: "bytes32 \<Rightarrow> instance_view option"
  sp_ballot :: "bytes32 \<times> u64 \<Rightarrow> ballot option"
  sp_vaults :: "bytes32 set"

definition spec_init :: spec where
  "spec_init = \<lparr>sp_inst = \<lambda>_. None, sp_ballot = \<lambda>_. None, sp_vaults = {}\<rparr>"

text \<open>The public inputs that a vote on a ballot must carry.\<close>

definition vote_inputs ::
  "hasher \<Rightarrow> bytes32 \<Rightarrow> bytes32 \<Rightarrow> u64 \<Rightarrow> bytes32 \<Rightarrow> byte list \<Rightarrow> bytes32 \<Rightarrow> bytes32 \<Rightarrow>
   approve_public_inputs" where
  "vote_inputs H pid ck i root action target nul =
     \<lparr>in_members_root = root,
      in_proposal_id = derive_proposal_id H (chain_id_from_u64 DEPLOYMENT_CHAIN_ID_U64)
        (address H pid (StateOf ck)) i action target,
      in_nullifier = nul\<rparr>"

fun spec_step :: "hasher \<Rightarrow> bytes32 \<Rightarrow> spec \<Rightarrow> instruction \<Rightarrow> spec option" where
  "spec_step H pid S (CreateMultisig ck root m' n') =
     (if sp_inst S ck = None \<and> 1 \<le> unat m' \<and> unat m' \<le> unat n'
      then Some (S\<lparr>sp_inst := (sp_inst S)(ck \<mapsto>
             \<lparr>ins_root = root, ins_m = unat m', ins_n = unat n', ins_count = 0\<rparr>)\<rparr>)
      else None)"
| "spec_step H pid S (Propose ck i action target) =
     (case sp_inst S ck of None \<Rightarrow> None
      | Some q \<Rightarrow>
          if length action \<le> MAX_ACTION_BYTES_LEN \<and> unat i = ins_count q \<and> sp_ballot S (ck, i) = None
          then Some (S\<lparr>sp_inst := (sp_inst S)(ck \<mapsto> q\<lparr>ins_count := ins_count q + 1\<rparr>),
                 sp_ballot := (sp_ballot S)((ck, i) \<mapsto>
                   \<lparr>bl_action = action, bl_target = target, bl_votes = [], bl_done = False\<rparr>)\<rparr>)
          else None)"
| "spec_step H pid S (Approve ck i nul pi) =
     (case (sp_inst S ck, sp_ballot S (ck, i)) of
        (Some q, Some b) \<Rightarrow>
          if nul \<notin> set (bl_votes b) \<and>
             pi = to_bytes (vote_inputs H pid ck i (ins_root q) (bl_action b) (bl_target b) nul)
          then Some (S\<lparr>sp_ballot := (sp_ballot S)((ck, i) \<mapsto> b\<lparr>bl_votes := nul # bl_votes b\<rparr>)\<rparr>)
          else None
      | _ \<Rightarrow> None)"
| "spec_step H pid S (Execute ck i) =
     (case (sp_inst S ck, sp_ballot S (ck, i)) of
        (Some q, Some b) \<Rightarrow>
          if \<not> bl_done b \<and> ins_m q \<le> length (bl_votes b) \<and> ck \<in> sp_vaults S
          then Some (S\<lparr>sp_ballot := (sp_ballot S)((ck, i) \<mapsto> b\<lparr>bl_done := True\<rparr>)\<rparr>)
          else None
      | _ \<Rightarrow> None)"
| "spec_step H pid S (CreateVault ck) =
     (if sp_inst S ck \<noteq> None \<and> ck \<notin> sp_vaults S
      then Some (S\<lparr>sp_vaults := insert ck (sp_vaults S)\<rparr>) else None)"
| "spec_step H pid S (Reject ck) = (if sp_inst S ck \<noteq> None then Some S else None)"

definition spec_move :: "hasher \<Rightarrow> bytes32 \<Rightarrow> spec \<Rightarrow> spec \<Rightarrow> bool" where
  "spec_move H pid S S' \<longleftrightarrow> (\<exists>ix. spec_step H pid S ix = Some S')"

primrec spec_run :: "hasher \<Rightarrow> bytes32 \<Rightarrow> spec \<Rightarrow> instruction list \<Rightarrow> spec option" where
  "spec_run H pid S [] = Some S"
| "spec_run H pid S (ix # ixs) = Option.bind (spec_step H pid S ix) (\<lambda>S'. spec_run H pid S' ixs)"

section \<open>Invariant\<close>

definition spec_inv :: "spec \<Rightarrow> bool" where
  "spec_inv S \<longleftrightarrow>
     (\<forall>ck q. sp_inst S ck = Some q \<longrightarrow> 1 \<le> ins_m q \<and> ins_m q \<le> ins_n q) \<and>
     (\<forall>ck i b. sp_ballot S (ck, i) = Some b \<longrightarrow>
        distinct (bl_votes b) \<and> length (bl_action b) \<le> MAX_ACTION_BYTES_LEN \<and>
        (\<exists>q. sp_inst S ck = Some q \<and> unat i < ins_count q \<and>
             (bl_done b \<longrightarrow> ins_m q \<le> length (bl_votes b)))) \<and>
     (\<forall>ck \<in> sp_vaults S. sp_inst S ck \<noteq> None)"

text \<open>What never changes once it is there, and what only grows.\<close>

definition ballot_le :: "ballot \<Rightarrow> ballot \<Rightarrow> bool" where
  "ballot_le b b' \<longleftrightarrow> bl_action b' = bl_action b \<and> bl_target b' = bl_target b \<and>
     (\<exists>xs. bl_votes b' = xs @ bl_votes b) \<and> (bl_done b \<longrightarrow> bl_done b')"

definition inst_le :: "instance_view \<Rightarrow> instance_view \<Rightarrow> bool" where
  "inst_le q q' \<longleftrightarrow> ins_root q' = ins_root q \<and> ins_m q' = ins_m q \<and> ins_n q' = ins_n q \<and>
     ins_count q \<le> ins_count q'"

definition spec_le :: "spec \<Rightarrow> spec \<Rightarrow> bool" where
  "spec_le S S' \<longleftrightarrow>
     (\<forall>ck q. sp_inst S ck = Some q \<longrightarrow> (\<exists>q'. sp_inst S' ck = Some q' \<and> inst_le q q')) \<and>
     (\<forall>k b. sp_ballot S k = Some b \<longrightarrow> (\<exists>b'. sp_ballot S' k = Some b' \<and> ballot_le b b')) \<and>
     sp_vaults S \<subseteq> sp_vaults S'"

lemma ballot_le_refl [simp]: "ballot_le b b"
  by (simp add: ballot_le_def)

lemma inst_le_refl [simp]: "inst_le q q"
  by (simp add: inst_le_def)

lemma ballot_le_trans: "ballot_le a b \<Longrightarrow> ballot_le b c \<Longrightarrow> ballot_le a c"
  by (auto simp: ballot_le_def)

lemma inst_le_trans: "inst_le a b \<Longrightarrow> inst_le b c \<Longrightarrow> inst_le a c"
  by (auto simp: inst_le_def)

lemma spec_inv_init: "spec_inv spec_init"
  by (simp add: spec_inv_def spec_init_def)

lemma spec_inv_step: "spec_step H pid S ix = Some S' \<Longrightarrow> spec_inv S \<Longrightarrow> spec_inv S'"
  by (cases ix; auto simp: spec_inv_def split: if_splits option.splits prod.splits)
    (fastforce+)?

lemma spec_le_step: "spec_step H pid S ix = Some S' \<Longrightarrow> spec_le S S'"
  by (cases ix; auto simp: spec_le_def ballot_le_def inst_le_def split: if_splits option.splits)

interpretation spec_sys: invariant_system "\<lambda>S. S = spec_init" "spec_move H pid" spec_inv
  for H :: hasher and pid :: bytes32
  by unfold_locales (auto simp: spec_inv_init spec_move_def intro: spec_inv_step)

interpretation spec_mono: monotone_system "spec_move H pid" spec_le
  for H :: hasher and pid :: bytes32
proof unfold_locales
  show "spec_le S S" for S by (simp add: spec_le_def)
  show "spec_le S U" if "spec_le S T" "spec_le T U" for S T U
    using that unfolding spec_le_def by (meson ballot_le_trans inst_le_trans subset_trans)
  show "spec_le S S'" if "spec_move H pid S S'" for S S'
    using that spec_le_step by (auto simp: spec_move_def)
qed

section \<open>Histories\<close>

lemma spec_run_append:
  "spec_run H pid S (xs @ ys) = Option.bind (spec_run H pid S xs) (\<lambda>S'. spec_run H pid S' ys)"
proof (induction xs arbitrary: S)
  case (Cons ix xs)
  then show ?case by (cases "spec_step H pid S ix") simp_all
qed simp

lemma spec_run_snoc:
  "spec_run H pid S (h @ [ix]) = Some S'' \<longleftrightarrow>
     (\<exists>S'. spec_run H pid S h = Some S' \<and> spec_step H pid S' ix = Some S'')"
  by (simp add: spec_run_append Option.bind_eq_Some_conv)

lemma spec_run_moves: "spec_run H pid S h = Some S' \<Longrightarrow> (spec_move H pid)\<^sup>*\<^sup>* S S'"
proof (induction h arbitrary: S' rule: rev_induct)
  case (snoc ix h)
  then show ?case
    by (auto simp: spec_run_snoc spec_move_def intro: rtranclp.rtrancl_into_rtrancl)
qed simp

lemma spec_run_inv: "spec_run H pid spec_init h = Some S \<Longrightarrow> spec_inv S"
  using spec_sys.inv_reachable [OF refl spec_run_moves] .

lemma spec_run_le: "spec_run H pid S h = Some S' \<Longrightarrow> spec_le S S'"
  using spec_mono.steps_le [OF spec_run_moves] .

text \<open>Where the parts of the state come from.\<close>

fun instance_origin :: "instruction list \<Rightarrow> bytes32 \<Rightarrow> instance_view option \<Rightarrow> bool" where
  "instance_origin h ck None \<longleftrightarrow> (\<forall>root m' n'. CreateMultisig ck root m' n' \<notin> set h)"
| "instance_origin h ck (Some q) \<longleftrightarrow>
     (\<exists>m' n'. CreateMultisig ck (ins_root q) m' n' \<in> set h \<and> ins_m q = unat m' \<and> ins_n q = unat n')"

fun ballot_origin ::
  "hasher \<Rightarrow> bytes32 \<Rightarrow> instruction list \<Rightarrow> bytes32 \<Rightarrow> u64 \<Rightarrow> instance_view option \<Rightarrow>
   ballot option \<Rightarrow> bool" where
  "ballot_origin H pid h ck i qo None \<longleftrightarrow>
     (\<forall>a g. Propose ck i a g \<notin> set h) \<and> count_list h (Execute ck i) = 0"
| "ballot_origin H pid h ck i None (Some b) \<longleftrightarrow> False"
| "ballot_origin H pid h ck i (Some q) (Some b) \<longleftrightarrow>
     Propose ck i (bl_action b) (bl_target b) \<in> set h \<and>
     (\<forall>nul \<in> set (bl_votes b).
        Approve ck i nul (to_bytes (vote_inputs H pid ck i (ins_root q) (bl_action b) (bl_target b) nul))
          \<in> set h) \<and>
     count_list h (Execute ck i) = of_bool (bl_done b)"

definition history_ok :: "hasher \<Rightarrow> bytes32 \<Rightarrow> instruction list \<Rightarrow> spec \<Rightarrow> bool" where
  "history_ok H pid h S \<longleftrightarrow>
     (\<forall>ck. instance_origin h ck (sp_inst S ck)) \<and>
     (\<forall>ck i. ballot_origin H pid h ck i (sp_inst S ck) (sp_ballot S (ck, i)))"

lemma count_list_snoc: "count_list (xs @ [x]) y = count_list xs y + of_bool (x = y)"
  by (induction xs) auto

lemma instance_origin_snoc:
  "instance_origin h ck qo \<Longrightarrow> \<forall>root m' n'. ix \<noteq> CreateMultisig ck root m' n' \<Longrightarrow>
   instance_origin (h @ [ix]) ck qo"
  by (cases qo) auto

lemma instance_origin_count:
  "instance_origin h ck (Some q) \<Longrightarrow> instance_origin h ck (Some (q\<lparr>ins_count := c\<rparr>))"
  by simp

lemma ballot_origin_snoc:
  "ballot_origin H pid h ck i qo bo \<Longrightarrow> \<forall>a g. ix \<noteq> Propose ck i a g \<Longrightarrow> ix \<noteq> Execute ck i \<Longrightarrow>
   ballot_origin H pid (h @ [ix]) ck i qo bo"
  by (cases "(H, pid, h, ck, i, qo, bo)" rule: ballot_origin.cases) (auto simp: count_list_snoc)

lemma ballot_origin_new_instance:
  "ballot_origin H pid h ck i None bo \<Longrightarrow> ballot_origin H pid h ck i (Some q) bo"
  by (cases bo) auto

lemma ballot_origin_count:
  "ballot_origin H pid h ck i (Some q) bo \<Longrightarrow> ballot_origin H pid h ck i (Some (q\<lparr>ins_count := c\<rparr>)) bo"
  by (cases bo) auto

lemma history_okI:
  assumes "\<And>ck'. instance_origin h ck' (sp_inst S ck')"
    and "ballot_origin H pid h ck i (sp_inst S ck) (sp_ballot S (ck, i))"
    and "\<And>ck' j. (ck', j) \<noteq> (ck, i) \<Longrightarrow> ballot_origin H pid h ck' j (sp_inst S ck') (sp_ballot S (ck', j))"
  shows "history_ok H pid h S"
proof -
  have "ballot_origin H pid h ck' j (sp_inst S ck') (sp_ballot S (ck', j))" for ck' j
    using assms(2,3) by (cases "(ck', j) = (ck, i)") auto
  with assms(1) show ?thesis by (simp add: history_ok_def)
qed

lemma history_step:
  assumes st: "spec_step H pid S ix = Some S'" and ok: "history_ok H pid h S"
  shows "history_ok H pid (h @ [ix]) S'"
proof -
  have inst: "instance_origin h ck (sp_inst S ck)" for ck
    using ok by (simp add: history_ok_def)
  have bal: "ballot_origin H pid h ck i (sp_inst S ck) (sp_ballot S (ck, i))" for ck i
    using ok by (simp add: history_ok_def)
  note io = instance_origin_snoc [OF inst] and bo = ballot_origin_snoc [OF bal]
  show ?thesis
  proof (cases ix)
    case (CreateMultisig ck root m' n')
    then have S': "sp_inst S ck = None" "S' = S\<lparr>sp_inst := (sp_inst S)(ck \<mapsto>
        \<lparr>ins_root = root, ins_m = unat m', ins_n = unat n', ins_count = 0\<rparr>)\<rparr>"
      using st by (auto split: if_splits)
    have "ballot_origin H pid (h @ [ix]) ck j (sp_inst S' ck) (sp_ballot S' (ck, j))" for j
      using bo [of ix ck j] S' CreateMultisig by (auto intro: ballot_origin_new_instance)
    moreover have "ballot_origin H pid (h @ [ix]) ck' j (sp_inst S' ck') (sp_ballot S' (ck', j))"
      if "ck' \<noteq> ck" for ck' j using bo [of ix ck' j] S' CreateMultisig that by simp
    moreover have "instance_origin (h @ [ix]) ck' (sp_inst S' ck')" for ck'
      using io [of ix ck'] S' CreateMultisig by auto
    ultimately show ?thesis unfolding history_ok_def by metis
  next
    case (Propose ck i action target)
    then obtain q where S': "sp_inst S ck = Some q" "sp_ballot S (ck, i) = None"
      "S' = S\<lparr>sp_inst := (sp_inst S)(ck \<mapsto> q\<lparr>ins_count := ins_count q + 1\<rparr>),
         sp_ballot := (sp_ballot S)((ck, i) \<mapsto>
           \<lparr>bl_action = action, bl_target = target, bl_votes = [], bl_done = False\<rparr>)\<rparr>"
      using st by (auto split: if_splits option.splits)
    have "ballot_origin H pid (h @ [ix]) ck' j (sp_inst S' ck') (sp_ballot S' (ck', j))"
      if "(ck', j) \<noteq> (ck, i)" for ck' j
      using bo [of ix ck' j] S' Propose that by (auto intro: ballot_origin_count)
    moreover have "ballot_origin H pid (h @ [ix]) ck i (sp_inst S' ck) (sp_ballot S' (ck, i))"
      using bal [of ck i] S' Propose by (simp add: count_list_snoc)
    moreover have "instance_origin (h @ [ix]) ck' (sp_inst S' ck')" for ck'
      using io [of ix ck'] S' Propose by (auto dest: instance_origin_count)
    ultimately show ?thesis by (intro history_okI)
  next
    case (Approve ck i nul pi)
    then obtain q b where S': "sp_inst S ck = Some q" "sp_ballot S (ck, i) = Some b"
      "pi = to_bytes (vote_inputs H pid ck i (ins_root q) (bl_action b) (bl_target b) nul)"
      "S' = S\<lparr>sp_ballot := (sp_ballot S)((ck, i) \<mapsto> b\<lparr>bl_votes := nul # bl_votes b\<rparr>)\<rparr>"
      using st by (auto split: if_splits option.splits)
    have "ballot_origin H pid (h @ [ix]) ck' j (sp_inst S' ck') (sp_ballot S' (ck', j))"
      if "(ck', j) \<noteq> (ck, i)" for ck' j
      using bo [of ix ck' j] S' Approve that by auto
    moreover have "ballot_origin H pid (h @ [ix]) ck i (sp_inst S' ck) (sp_ballot S' (ck, i))"
      using bal [of ck i] S' Approve by (simp add: count_list_snoc)
    moreover have "instance_origin (h @ [ix]) ck' (sp_inst S' ck')" for ck'
      using io [of ix ck'] S' Approve by simp
    ultimately show ?thesis by (intro history_okI)
  next
    case (Execute ck i)
    then obtain q b where S': "sp_inst S ck = Some q" "sp_ballot S (ck, i) = Some b" "\<not> bl_done b"
      "S' = S\<lparr>sp_ballot := (sp_ballot S)((ck, i) \<mapsto> b\<lparr>bl_done := True\<rparr>)\<rparr>"
      using st by (auto split: if_splits option.splits)
    have "ballot_origin H pid (h @ [ix]) ck' j (sp_inst S' ck') (sp_ballot S' (ck', j))"
      if "(ck', j) \<noteq> (ck, i)" for ck' j
      using bo [of ix ck' j] S' Execute that by auto
    moreover have "ballot_origin H pid (h @ [ix]) ck i (sp_inst S' ck) (sp_ballot S' (ck, i))"
      using bal [of ck i] S' Execute by (simp add: count_list_snoc)
    moreover have "instance_origin (h @ [ix]) ck' (sp_inst S' ck')" for ck'
      using io [of ix ck'] S' Execute by simp
    ultimately show ?thesis by (intro history_okI)
  next
    case (CreateVault ck)
    then show ?thesis using st io [of ix] bo [of ix] by (auto simp: history_ok_def split: if_splits)
  next
    case (Reject ck)
    then show ?thesis using st io [of ix] bo [of ix] by (auto simp: history_ok_def split: if_splits)
  qed
qed

lemma spec_history: "spec_run H pid spec_init h = Some S \<Longrightarrow> history_ok H pid h S"
proof (induction h arbitrary: S rule: rev_induct)
  case Nil
  then show ?case by (auto simp: history_ok_def spec_init_def)
next
  case (snoc ix h)
  then show ?case by (auto simp: spec_run_snoc intro: history_step)
qed

text \<open>
  A ballot fires at most once, and when it does, at least as many distinct nullifiers as the
  instance's quorum have voted for exactly its action and target under the instance's root.
\<close>

lemma spec_execute_once:
  assumes "spec_run H pid spec_init h = Some S"
  shows "count_list h (Execute ck i) \<le> 1"
proof -
  have "ballot_origin H pid h ck i (sp_inst S ck) (sp_ballot S (ck, i))"
    using spec_history [OF assms] by (simp add: history_ok_def)
  then show ?thesis
    by (cases "(H, pid, h, ck, i, sp_inst S ck, sp_ballot S (ck, i))" rule: ballot_origin.cases) auto
qed

lemma spec_execute_quorum:
  assumes "spec_run H pid spec_init (h @ [Execute ck i]) = Some S"
  shows "\<exists>root m' n' action target nuls.
    CreateMultisig ck root m' n' \<in> set h \<and> 1 \<le> unat m' \<and> unat m' \<le> unat n' \<and>
    Propose ck i action target \<in> set h \<and>
    distinct nuls \<and> unat m' \<le> length nuls \<and>
    (\<forall>nul \<in> set nuls. Approve ck i nul (to_bytes (vote_inputs H pid ck i root action target nul)) \<in> set h)"
proof -
  from assms obtain S1 where r: "spec_run H pid spec_init h = Some S1"
    and x: "spec_step H pid S1 (Execute ck i) = Some S" by (auto simp: spec_run_snoc)
  from x obtain q b where q: "sp_inst S1 ck = Some q" and b: "sp_ballot S1 (ck, i) = Some b"
    and m: "ins_m q \<le> length (bl_votes b)" by (auto split: option.splits if_splits)
  have "instance_origin h ck (Some q)" "ballot_origin H pid h ck i (Some q) (Some b)"
    using spec_history [OF r] q b unfolding history_ok_def by metis+
  moreover have "distinct (bl_votes b)" "1 \<le> ins_m q" "ins_m q \<le> ins_n q"
    using spec_run_inv [OF r] q b by (auto simp: spec_inv_def)
  ultimately show ?thesis using m by fastforce
qed

text \<open>The votes recorded are exactly the approvals accepted, each nullifier once.\<close>

lemma spec_vote_recorded:
  "spec_run H pid spec_init h = Some S \<Longrightarrow> Approve ck i nul pi \<in> set h \<Longrightarrow>
   \<exists>b. sp_ballot S (ck, i) = Some b \<and> nul \<in> set (bl_votes b)"
proof (induction h arbitrary: S rule: rev_induct)
  case (snoc ix h)
  then obtain S1 where r: "spec_run H pid spec_init h = Some S1" and x: "spec_step H pid S1 ix = Some S"
    by (auto simp: spec_run_snoc)
  show ?case
  proof (cases "Approve ck i nul pi \<in> set h")
    case True
    then show ?thesis
      using snoc.IH [OF r] spec_le_step [OF x] by (fastforce simp: spec_le_def ballot_le_def)
  next
    case False
    with snoc.prems have "ix = Approve ck i nul pi" by simp
    with x show ?thesis by (auto split: option.splits if_splits)
  qed
qed simp

lemma spec_votes_eq:
  assumes "spec_run H pid spec_init h = Some S" "sp_ballot S (ck, i) = Some b"
  shows "set (bl_votes b) = {nul. \<exists>pi. Approve ck i nul pi \<in> set h}"
    and "length (bl_votes b) = card {nul. \<exists>pi. Approve ck i nul pi \<in> set h}"
proof -
  have "ballot_origin H pid h ck i (sp_inst S ck) (Some b)"
    using spec_history [OF assms(1)] assms(2) unfolding history_ok_def by metis
  then have "nul \<in> set (bl_votes b) \<Longrightarrow> \<exists>pi. Approve ck i nul pi \<in> set h" for nul
    by (cases "sp_inst S ck") auto
  then show e: "set (bl_votes b) = {nul. \<exists>pi. Approve ck i nul pi \<in> set h}"
    using spec_vote_recorded [OF assms(1)] assms(2) by fastforce
  have "distinct (bl_votes b)" using spec_run_inv [OF assms(1)] assms(2) by (auto simp: spec_inv_def)
  then show "length (bl_votes b) = card {nul. \<exists>pi. Approve ck i nul pi \<in> set h}"
    unfolding e [symmetric] by (simp add: distinct_card)
qed

lemma spec_no_double_vote:
  assumes "spec_run H pid spec_init (h @ [Approve ck i nul pi]) = Some S"
  shows "Approve ck i nul pi' \<notin> set h"
proof
  assume a: "Approve ck i nul pi' \<in> set h"
  from assms obtain S1 where r: "spec_run H pid spec_init h = Some S1"
    and x: "spec_step H pid S1 (Approve ck i nul pi) = Some S" by (auto simp: spec_run_snoc)
  from spec_vote_recorded [OF r a] x show False by (auto split: option.splits if_splits)
qed

lemma spec_create_recorded:
  "spec_run H pid spec_init h = Some S \<Longrightarrow> CreateMultisig ck root m' n' \<in> set h \<Longrightarrow>
   \<exists>q. sp_inst S ck = Some q \<and> ins_root q = root \<and> ins_m q = unat m' \<and> ins_n q = unat n'"
proof (induction h arbitrary: S rule: rev_induct)
  case (snoc ix h)
  then obtain S1 where r: "spec_run H pid spec_init h = Some S1" and x: "spec_step H pid S1 ix = Some S"
    by (auto simp: spec_run_snoc)
  show ?case
  proof (cases "CreateMultisig ck root m' n' \<in> set h")
    case True
    then show ?thesis
      using snoc.IH [OF r] spec_le_step [OF x] unfolding spec_le_def inst_le_def by metis
  next
    case False
    with snoc.prems have "ix = CreateMultisig ck root m' n'" by simp
    with x show ?thesis by (auto split: if_splits)
  qed
qed simp

lemma spec_create_unique:
  assumes "spec_run H pid spec_init h = Some S" "CreateMultisig ck root m' n' \<in> set h"
    "CreateMultisig ck root2 m2 n2 \<in> set h"
  shows "root = root2 \<and> unat m' = unat m2 \<and> unat n' = unat n2"
  using spec_create_recorded [OF assms(1,2)] spec_create_recorded [OF assms(1,3)] by auto

text \<open>A series of votes with fresh nullifiers.\<close>

lemma spec_run_votes:
  "sp_ballot S (ck, i) = Some b \<Longrightarrow> distinct nuls \<Longrightarrow> set nuls \<inter> set (bl_votes b) = {} \<Longrightarrow>
    sp_inst S ck = Some q \<Longrightarrow>
    spec_run H pid S (map (\<lambda>nul. Approve ck i nul
        (to_bytes (vote_inputs H pid ck i (ins_root q) (bl_action b) (bl_target b) nul))) nuls)
      = Some (S\<lparr>sp_ballot := (sp_ballot S)((ck, i) \<mapsto> b\<lparr>bl_votes := rev nuls @ bl_votes b\<rparr>)\<rparr>)"
proof (induction nuls arbitrary: S b)
  case Nil
  then have "(sp_ballot S)((ck, i) \<mapsto> b) = sp_ballot S" by auto
  then show ?case by simp
next
  case (Cons nul nuls)
  let ?b = "b\<lparr>bl_votes := nul # bl_votes b\<rparr>"
  let ?S = "S\<lparr>sp_ballot := (sp_ballot S)((ck, i) \<mapsto> ?b)\<rparr>"
  from Cons.prems have "sp_ballot ?S (ck, i) = Some ?b" "distinct nuls"
    "set nuls \<inter> set (bl_votes ?b) = {}" "sp_inst ?S ck = Some q" by auto
  from Cons.IH [OF this] Cons.prems show ?case by (auto intro!: spec.equality)
qed

end
