(* ===== verification/Refinement.thy ===== *)
theory Refinement
  imports Ledger Multisig_Spec
begin

text \<open>
  Runs of the program on a ledger, and that they refine the machine of \<open>Multisig_Spec\<close>. A
  run interleaves calls of the program, which may be top-level or chained, with steps of
  other programs; those cannot touch an account the program owns, nor make it own one. The
  accounts that matter are the ones the calls of the run name (\<open>run_names\<close>), and only for
  those need addresses be free of collisions.
\<close>

datatype event = Called instruction spel_output | Foreign

definition foreign_step :: "bytes32 \<Rightarrow> ledger \<Rightarrow> ledger \<Rightarrow> bool" where
  "foreign_step pid L L' \<longleftrightarrow>
     (\<forall>a. program_owner (L a) = pid \<or> program_owner (L' a) = pid \<longrightarrow> L' a = L a)"

inductive ledger_run ::
  "spel_env \<Rightarrow> runtime \<Rightarrow> bytes32 \<Rightarrow> ledger \<Rightarrow> event list \<Rightarrow> ledger \<Rightarrow> bool"
  for E R pid L0 where
  run_start: "ledger_run E R pid L0 [] L0"
| run_call: "ledger_run E R pid L0 es L \<Longrightarrow> submit E R pid L ix ids signers = Some (L', out) \<Longrightarrow>
     ledger_run E R pid L0 (es @ [Called ix out]) L'"
| run_foreign: "ledger_run E R pid L0 es L \<Longrightarrow> foreign_step pid L L' \<Longrightarrow>
     ledger_run E R pid L0 (es @ [Foreign]) L'"

inductive_cases ledger_run_snocE: "ledger_run E R pid L0 (es @ [e]) L"

fun event_calls :: "event \<Rightarrow> instruction list" where
  "event_calls (Called ix out) = [ix]"
| "event_calls Foreign = []"

definition calls :: "event list \<Rightarrow> instruction list" where
  "calls es = concat (map event_calls es)"

fun ix_names :: "instruction \<Rightarrow> account_name list" where
  "ix_names (CreateMultisig ck root m' n') = [StateOf ck]"
| "ix_names (Propose ck i action target) = [StateOf ck, ProposalOf ck i]"
| "ix_names (Approve ck i nul pi) = [StateOf ck, ProposalOf ck i, NullifierOf ck i nul]"
| "ix_names (Execute ck i) = [StateOf ck, ProposalOf ck i, VaultOf ck]"
| "ix_names (CreateVault ck) = [StateOf ck, VaultOf ck]"
| "ix_names (Reject ck) = [StateOf ck]"

definition run_names :: "instruction list \<Rightarrow> account_name list" where
  "run_names ixs = concat (map ix_names ixs)"

lemma calls_simps [simp]:
  "calls [] = []" "calls (es @ fs) = calls es @ calls fs" "calls [Called ix out] = [ix]"
  "calls [Foreign] = []"
  by (simp_all add: calls_def)

text \<open>No account among those named belongs to the program yet.\<close>

definition untouched :: "hasher \<Rightarrow> bytes32 \<Rightarrow> account_name list \<Rightarrow> ledger \<Rightarrow> bool" where
  "untouched H pid names L \<longleftrightarrow> (\<forall>x \<in> set names. program_owner (L (address H pid x)) \<noteq> pid)"

text \<open>The strings hashed for the addresses of the accounts of a run.\<close>

definition address_queries :: "hasher \<Rightarrow> bytes32 \<Rightarrow> instruction list \<Rightarrow> byte list list" where
  "address_queries H pid ixs = concat (map (name_queries H pid) (run_names ixs))"

lemma address_inj_on:
  assumes "collision_free H (concat (map (name_queries H pid) names))"
  shows "inj_on (address H pid) (set names)"
proof (rule inj_onI)
  fix x y assume x: "x \<in> set names" "y \<in> set names" and e: "address H pid x = address H pid y"
  have "collision_free H (name_queries H pid x @ name_queries H pid y)"
    by (rule collision_free_subset [OF assms]) (use x in auto)
  then show "x = y" using address_inject e by blast
qed

section \<open>The refinement relation\<close>

definition inst_of :: "multisig_state \<Rightarrow> instance_view" where
  "inst_of s = \<lparr>ins_root = members_root s, ins_m = unat (st_m s), ins_n = unat (st_n s),
                ins_count = unat (proposal_count s)\<rparr>"

definition ballot_matches :: "proposal \<Rightarrow> ballot \<Rightarrow> bool" where
  "ballot_matches p b \<longleftrightarrow> action_bytes p = bl_action b \<and> target_program p = bl_target b \<and>
     unat (approvals_count p) = length (bl_votes b) \<and> executed p = bl_done b"

fun matches :: "spel_env \<Rightarrow> bytes32 \<Rightarrow> spec \<Rightarrow> account_name \<Rightarrow> account \<Rightarrow> bool" where
  "matches E pid S (StateOf ck) a \<longleftrightarrow>
     (case sp_inst S ck of
        None \<Rightarrow> program_owner a \<noteq> pid
      | Some q \<Rightarrow> program_owner a = pid \<and>
          (\<exists>s. state_from_slice E (acc_data a) = Some s \<and> create_key s = ck \<and> inst_of s = q))"
| "matches E pid S (ProposalOf ck i) a \<longleftrightarrow>
     (case sp_ballot S (ck, i) of
        None \<Rightarrow> program_owner a \<noteq> pid
      | Some b \<Rightarrow> program_owner a = pid \<and>
          (\<exists>p. proposal_from_slice E (acc_data a) = Some p \<and> ballot_matches p b))"
| "matches E pid S (VaultOf ck) a \<longleftrightarrow> (program_owner a = pid \<longleftrightarrow> ck \<in> sp_vaults S)"
| "matches E pid S (NullifierOf ck i nul) a \<longleftrightarrow>
     (program_owner a = pid \<longleftrightarrow> (\<exists>b. sp_ballot S (ck, i) = Some b \<and> nul \<in> set (bl_votes b)))"

definition refines ::
  "hasher \<Rightarrow> spel_env \<Rightarrow> bytes32 \<Rightarrow> account_name set \<Rightarrow> ledger \<Rightarrow> spec \<Rightarrow> bool" where
  "refines H E pid U L S \<longleftrightarrow> (\<forall>x \<in> U. matches E pid S x (L (address H pid x)))"

lemma refinesD: "refines H E pid U L S \<Longrightarrow> x \<in> U \<Longrightarrow> matches E pid S x (L (address H pid x))"
  by (simp add: refines_def)

lemma refines_upd:
  assumes "refines H E pid U L S" "inj_on (address H pid) U" "y \<in> U" "matches E pid S' y a"
    and "\<And>x c. x \<noteq> y \<Longrightarrow> matches E pid S x c \<Longrightarrow> matches E pid S' x c"
  shows "refines H E pid U (L(address H pid y := a)) S'"
  using assms unfolding refines_def inj_on_def by (metis fun_upd_apply)

lemma refines_upd2:
  assumes "refines H E pid U L S" "inj_on (address H pid) U" "y \<in> U" "z \<in> U" "y \<noteq> z"
    "matches E pid S' y a" "matches E pid S' z b"
    and "\<And>x c. x \<noteq> y \<Longrightarrow> x \<noteq> z \<Longrightarrow> matches E pid S x c \<Longrightarrow> matches E pid S' x c"
  shows "refines H E pid U (L(address H pid y := a, address H pid z := b)) S'"
  using assms unfolding refines_def inj_on_def by (metis fun_upd_apply)

lemma refines_start: "untouched H pid names L \<Longrightarrow> refines H E pid (set names) L spec_init"
proof -
  have "program_owner a \<noteq> pid \<Longrightarrow> matches E pid spec_init x a" for x a
    by (cases x) (simp_all add: spec_init_def)
  then show "untouched H pid names L \<Longrightarrow> refines H E pid (set names) L spec_init"
    by (simp add: refines_def untouched_def)
qed

lemma refines_foreign:
  assumes "foreign_step pid L L'" "refines H E pid U L S"
  shows "refines H E pid U L' S"
proof -
  have "matches E pid S x (L' a)" if "matches E pid S x (L a)" for x a
  proof (cases "L' a = L a")
    case False
    then have "program_owner (L a) \<noteq> pid" "program_owner (L' a) \<noteq> pid"
      using assms(1) by (auto simp: foreign_step_def)
    with that show ?thesis by (cases x) (auto split: option.splits)
  qed (use that in simp)
  with assms(2) show ?thesis by (simp add: refines_def)
qed

section \<open>Each call is a step of the machine\<close>

lemma unat_suc:
  fixes w :: "'a::len word"
  assumes "unat w + 1 < 2 ^ LENGTH('a)" shows "unat (w + 1) = unat w + 1"
  using checked_add_unat [of w 1 "w + 1"] assms by (simp add: checked_add_def)

lemma simulate_create:
  assumes ok: "runtime_ok H R pid" and st: "stores E" and inj: "inj_on (address H pid) U"
    and ref: "refines H E pid U L S" and U: "StateOf ck \<in> U"
    and s: "submit E R pid L (CreateMultisig ck root m' n') ids signers = Some (L', out)"
  shows "\<exists>S'. spec_step H pid S (CreateMultisig ck root m' n') = Some S' \<and> refines H E pid U L' S'"
proof -
  from create_effect [OF ok s] obtain d where
    m: "1 \<le> unat m'" "unat m' \<le> unat n'" and b: "L (address H pid (StateOf ck)) = blank R"
    and d: "encode_state E \<lparr>create_key = ck, members_root = root, st_m = m', st_n = n',
        proposal_count = 0\<rparr> = Some d"
    and L': "L' = L(address H pid (StateOf ck) := \<lparr>program_owner = pid, acc_data = d\<rparr>)" by blast
  have "sp_inst S ck = None"
    using refinesD [OF ref U] b ok by (auto simp: runtime_ok_def split: option.splits)
  moreover have "refines H E pid U L' (S\<lparr>sp_inst := (sp_inst S)(ck \<mapsto>
      \<lparr>ins_root = root, ins_m = unat m', ins_n = unat n', ins_count = 0\<rparr>)\<rparr>)"
    unfolding L'
  proof (rule refines_upd [OF ref inj U])
    fix x c assume "x \<noteq> StateOf ck" "matches E pid S x c"
    then show "matches E pid (S\<lparr>sp_inst := (sp_inst S)(ck \<mapsto>
      \<lparr>ins_root = root, ins_m = unat m', ins_n = unat n', ins_count = 0\<rparr>)\<rparr>) x c"
      by (cases x) simp_all
  qed (use storesD(1) [OF st d] in \<open>simp add: inst_of_def\<close>)
  ultimately show ?thesis using m by simp
qed

lemma simulate_vault:
  assumes ok: "runtime_ok H R pid" and inj: "inj_on (address H pid) U"
    and ref: "refines H E pid U L S" and U: "StateOf ck \<in> U" "VaultOf ck \<in> U"
    and s: "submit E R pid L (CreateVault ck) ids signers = Some (L', out)"
  shows "\<exists>S'. spec_step H pid S (CreateVault ck) = Some S' \<and> refines H E pid U L' S'"
proof -
  from vault_effect [OF ok s] have o: "program_owner (L (address H pid (StateOf ck))) = pid"
    and b: "L (address H pid (VaultOf ck)) = blank R"
    and L': "L' = L(address H pid (VaultOf ck) := (blank R)\<lparr>program_owner := pid\<rparr>)" by simp_all
  have "sp_inst S ck \<noteq> None" "ck \<notin> sp_vaults S"
    using refinesD [OF ref U(1)] refinesD [OF ref U(2)] o b ok
    by (auto simp: runtime_ok_def split: option.splits)
  moreover have "refines H E pid U L' (S\<lparr>sp_vaults := insert ck (sp_vaults S)\<rparr>)"
    unfolding L'
  proof (rule refines_upd [OF ref inj U(2)])
    fix x c assume "x \<noteq> VaultOf ck" "matches E pid S x c"
    then show "matches E pid (S\<lparr>sp_vaults := insert ck (sp_vaults S)\<rparr>) x c" by (cases x) simp_all
  qed simp
  ultimately show ?thesis by simp
qed

lemma simulate_reject:
  assumes ok: "runtime_ok H R pid"
    and ref: "refines H E pid U L S" and U: "StateOf ck \<in> U"
    and s: "submit E R pid L (Reject ck) ids signers = Some (L', out)"
  shows "\<exists>S'. spec_step H pid S (Reject ck) = Some S' \<and> refines H E pid U L' S'"
proof -
  from reject_effect [OF ok s] have o: "program_owner (L (address H pid (StateOf ck))) = pid"
    and L': "L' = L" by simp_all
  have "sp_inst S ck \<noteq> None"
    using refinesD [OF ref U] o by (auto split: option.splits)
  with ref L' show ?thesis by simp
qed

lemma known_instance:
  assumes "matches E pid S (StateOf ck) a" "program_owner a = pid"
    "state_from_slice E (acc_data a) = Some s"
  shows "sp_inst S ck = Some (inst_of s)" "create_key s = ck"
  using assms by (auto split: option.splits)

lemma known_ballot:
  assumes "matches E pid S (ProposalOf ck i) a" "program_owner a = pid"
    "proposal_from_slice E (acc_data a) = Some p"
  obtains b where "sp_ballot S (ck, i) = Some b" "ballot_matches p b"
  using assms by (auto split: option.splits)

lemma simulate_propose:
  assumes ok: "runtime_ok H R pid" and st: "stores E" and inj: "inj_on (address H pid) U"
    and ref: "refines H E pid U L S" and U: "StateOf ck \<in> U" "ProposalOf ck i \<in> U"
    and s: "submit E R pid L (Propose ck i action target) ids signers = Some (L', out)"
  shows "\<exists>S'. spec_step H pid S (Propose ck i action target) = Some S' \<and> refines H E pid U L' S'"
proof -
  from propose_effect [OF ok s] obtain st' ds dp where
    len: "length action \<le> MAX_ACTION_BYTES_LEN"
    and o: "program_owner (L (address H pid (StateOf ck))) = pid"
    and b: "L (address H pid (ProposalOf ck i)) = blank R"
    and dec: "state_from_slice E (acc_data (L (address H pid (StateOf ck)))) = Some st'"
    and i: "i = proposal_count st'" "unat i + 1 < 2 ^ 64"
    and ds: "encode_state E (st'\<lparr>proposal_count := i + 1\<rparr>) = Some ds"
    and dp: "encode_proposal E \<lparr>action_bytes = action, target_program = target,
        approvals_count = 0, executed = False\<rparr> = Some dp"
    and L': "L' = L(address H pid (StateOf ck) := \<lparr>program_owner = pid, acc_data = ds\<rparr>,
           address H pid (ProposalOf ck i) := \<lparr>program_owner = pid, acc_data = dp\<rparr>)"
    by blast
  have q: "sp_inst S ck = Some (inst_of st')" "create_key st' = ck"
    using known_instance [OF refinesD [OF ref U(1)] o dec] by simp_all
  have nb: "sp_ballot S (ck, i) = None"
    using refinesD [OF ref U(2)] b ok by (auto simp: runtime_ok_def split: option.splits)
  have c: "inst_of (st'\<lparr>proposal_count := i + 1\<rparr>) = (inst_of st')\<lparr>ins_count := ins_count (inst_of st') + 1\<rparr>"
    using i unat_suc [of i] by (simp add: inst_of_def)
  let ?S = "S\<lparr>sp_inst := (sp_inst S)(ck \<mapsto> (inst_of st')\<lparr>ins_count := ins_count (inst_of st') + 1\<rparr>),
     sp_ballot := (sp_ballot S)((ck, i) \<mapsto>
       \<lparr>bl_action = action, bl_target = target, bl_votes = [], bl_done = False\<rparr>)\<rparr>"
  have "refines H E pid U L' ?S"
    unfolding L'
  proof (rule refines_upd2 [OF ref inj U])
    show "matches E pid ?S (StateOf ck) \<lparr>program_owner = pid, acc_data = ds\<rparr>"
      using storesD(1) [OF st ds] c q(2) by simp
    show "matches E pid ?S (ProposalOf ck i) \<lparr>program_owner = pid, acc_data = dp\<rparr>"
      using storesD(2) [OF st dp] by (simp add: ballot_matches_def)
    fix x c assume "x \<noteq> StateOf ck" "x \<noteq> ProposalOf ck i" "matches E pid S x c"
    then show "matches E pid ?S x c" using nb by (cases x) auto
  qed simp
  moreover have "unat i = ins_count (inst_of st')" using i by (simp add: inst_of_def)
  ultimately show ?thesis using q nb len by simp
qed

lemma simulate_approve:
  assumes ok: "runtime_ok H R pid" and st: "stores E" and inj: "inj_on (address H pid) U"
    and H: "sha256 E = H" and ref: "refines H E pid U L S"
    and U: "StateOf ck \<in> U" "ProposalOf ck i \<in> U" "NullifierOf ck i nul \<in> U"
    and s: "submit E R pid L (Approve ck i nul pi) ids signers = Some (L', out)"
  shows "\<exists>S'. spec_step H pid S (Approve ck i nul pi) = Some S' \<and> refines H E pid U L' S'"
proof -
  from approve_effect [OF ok s] obtain st' p d where
    o: "program_owner (L (address H pid (StateOf ck))) = pid"
      "program_owner (L (address H pid (ProposalOf ck i))) = pid"
    and b: "L (address H pid (NullifierOf ck i nul)) = blank R"
    and dec: "state_from_slice E (acc_data (L (address H pid (StateOf ck)))) = Some st'"
      "proposal_from_slice E (acc_data (L (address H pid (ProposalOf ck i)))) = Some p"
    and pi: "pi = to_bytes \<lparr>in_members_root = members_root st',
           in_proposal_id = expected_proposal_id (sha256 E) (address H pid (StateOf ck)) i p,
           in_nullifier = nul\<rparr>"
    and ov: "unat (approvals_count p) + 1 < 2 ^ 32"
    and d: "encode_proposal E (p\<lparr>approvals_count := approvals_count p + 1\<rparr>) = Some d"
    and L': "L' = L(address H pid (ProposalOf ck i) := \<lparr>program_owner = pid, acc_data = d\<rparr>,
           address H pid (NullifierOf ck i nul) := (blank R)\<lparr>program_owner := pid\<rparr>)"
    by blast
  have q: "sp_inst S ck = Some (inst_of st')"
    using known_instance(1) [OF refinesD [OF ref U(1)] o(1) dec(1)] .
  obtain bl where bl: "sp_ballot S (ck, i) = Some bl" and m: "ballot_matches p bl"
    using known_ballot [OF refinesD [OF ref U(2)] o(2) dec(2)] .
  have fresh: "nul \<notin> set (bl_votes bl)"
    using refinesD [OF ref U(3)] b ok bl by (auto simp: runtime_ok_def)
  have in': "pi = to_bytes (vote_inputs H pid ck i (ins_root (inst_of st')) (bl_action bl) (bl_target bl) nul)"
    using pi m by (simp add: vote_inputs_def expected_proposal_id_def H inst_of_def ballot_matches_def)
  let ?S = "S\<lparr>sp_ballot := (sp_ballot S)((ck, i) \<mapsto> bl\<lparr>bl_votes := nul # bl_votes bl\<rparr>)\<rparr>"
  have "refines H E pid U L' ?S"
    unfolding L'
  proof (rule refines_upd2 [OF ref inj U(2,3)])
    show "matches E pid ?S (ProposalOf ck i) \<lparr>program_owner = pid, acc_data = d\<rparr>"
      using storesD(2) [OF st d] m ov unat_suc [of "approvals_count p"]
      by (simp add: ballot_matches_def)
    fix x c assume "x \<noteq> ProposalOf ck i" "x \<noteq> NullifierOf ck i nul" "matches E pid S x c"
    then show "matches E pid ?S x c" using bl by (cases x) auto
  qed simp_all
  then show ?thesis using q bl fresh in' by simp
qed

lemma simulate_execute:
  assumes ok: "runtime_ok H R pid" and st: "stores E" and inj: "inj_on (address H pid) U"
    and ref: "refines H E pid U L S"
    and U: "StateOf ck \<in> U" "ProposalOf ck i \<in> U" "VaultOf ck \<in> U"
    and s: "submit E R pid L (Execute ck i) ids signers = Some (L', out)"
  shows "\<exists>S'. spec_step H pid S (Execute ck i) = Some S' \<and> refines H E pid U L' S'"
proof -
  from execute_effect [OF ok s] obtain st' p d where
    o: "program_owner (L (address H pid (StateOf ck))) = pid"
      "program_owner (L (address H pid (ProposalOf ck i))) = pid"
      "program_owner (L (address H pid (VaultOf ck))) = pid"
    and dec: "state_from_slice E (acc_data (L (address H pid (StateOf ck)))) = Some st'"
      "proposal_from_slice E (acc_data (L (address H pid (ProposalOf ck i)))) = Some p"
    and g: "\<not> executed p" "unat (st_m st') \<le> unat (approvals_count p)"
    and d: "encode_proposal E (p\<lparr>executed := True\<rparr>) = Some d"
    and L': "L' = L(address H pid (ProposalOf ck i) := \<lparr>program_owner = pid, acc_data = d\<rparr>)"
    by blast
  have q: "sp_inst S ck = Some (inst_of st')"
    using known_instance(1) [OF refinesD [OF ref U(1)] o(1) dec(1)] .
  obtain bl where bl: "sp_ballot S (ck, i) = Some bl" and m: "ballot_matches p bl"
    using known_ballot [OF refinesD [OF ref U(2)] o(2) dec(2)] .
  have v: "ck \<in> sp_vaults S" using refinesD [OF ref U(3)] o(3) by simp
  let ?S = "S\<lparr>sp_ballot := (sp_ballot S)((ck, i) \<mapsto> bl\<lparr>bl_done := True\<rparr>)\<rparr>"
  have "refines H E pid U L' ?S"
    unfolding L'
  proof (rule refines_upd [OF ref inj U(2)])
    show "matches E pid ?S (ProposalOf ck i) \<lparr>program_owner = pid, acc_data = d\<rparr>"
      using storesD(2) [OF st d] m by (simp add: ballot_matches_def)
    fix x c assume "x \<noteq> ProposalOf ck i" "matches E pid S x c"
    then show "matches E pid ?S x c" using bl by (cases x) auto
  qed
  then show ?thesis using q bl v g m by (simp add: inst_of_def ballot_matches_def)
qed

lemma simulate:
  assumes "runtime_ok H R pid" "stores E" "inj_on (address H pid) U" "sha256 E = H"
    and "refines H E pid U L S" "set (ix_names ix) \<subseteq> U"
    and "submit E R pid L ix ids signers = Some (L', out)"
  shows "\<exists>S'. spec_step H pid S ix = Some S' \<and> refines H E pid U L' S'"
  using assms
  by (cases ix; simp only: ix_names.simps list.set insert_subset;
    blast intro: simulate_create simulate_propose simulate_approve simulate_execute simulate_vault
      simulate_reject)

lemma run_refines:
  assumes ok: "runtime_ok H R pid" "stores E" "sha256 E = H"
    and inj: "inj_on (address H pid) U" and start: "refines H E pid U L0 spec_init"
    and run: "ledger_run E R pid L0 es L" and U: "set (run_names (calls es)) \<subseteq> U"
  shows "\<exists>S. spec_run H pid spec_init (calls es) = Some S \<and> refines H E pid U L S"
  using run U
proof (induction rule: ledger_run.induct)
  case run_start
  then show ?case using start by simp
next
  case (run_call es L ix ids signers L' out)
  then have "set (run_names (calls es)) \<subseteq> U" "set (ix_names ix) \<subseteq> U" by (auto simp: run_names_def)
  with run_call simulate [OF ok(1,2) inj ok(3)] show ?case
    by (simp add: spec_run_snoc) blast
next
  case (run_foreign es L L')
  then show ?case using refines_foreign by fastforce
qed

end
