(* ===== verification/Liveness.thy ===== *)
theory Liveness
  imports Refinement
begin

text \<open>
  The converse of the refinement: what the machine of \<open>Multisig_Spec\<close> allows, the program
  does. \<open>runtime_exact\<close> adds that the chain admits a call whose accounts satisfy the
  attributes; \<open>roomy\<close> that bodies of the allowed sizes fit into an account.
\<close>

definition runtime_exact :: "hasher \<Rightarrow> runtime \<Rightarrow> bytes32 \<Rightarrow> bool" where
  "runtime_exact H R pid \<longleftrightarrow> runtime_ok H R pid \<and>
     (\<forall>attrs accts. distinct (map account_id accts) \<and>
        list_all2 (attr_holds H R pid accts) attrs accts \<longrightarrow> spel_check R pid attrs accts)"

definition roomy :: "spel_env \<Rightarrow> bool" where
  "roomy E \<longleftrightarrow> (\<forall>s. encode_state E s \<noteq> None) \<and>
     (\<forall>p. length (action_bytes p) \<le> MAX_ACTION_BYTES_LEN \<longrightarrow> encode_proposal E p \<noteq> None)"

text \<open>Accounts that are not the program's yet are blank.\<close>

definition vacant :: "hasher \<Rightarrow> runtime \<Rightarrow> bytes32 \<Rightarrow> account_name set \<Rightarrow> ledger \<Rightarrow> bool" where
  "vacant H R pid U L \<longleftrightarrow>
     (\<forall>x \<in> U. program_owner (L (address H pid x)) \<noteq> pid \<longrightarrow> L (address H pid x) = blank R)"

text \<open>The accounts that a call must name, and the limits of its counters and receipts.\<close>

definition call_ids :: "hasher \<Rightarrow> bytes32 \<Rightarrow> instruction \<Rightarrow> bytes32 \<Rightarrow> bytes32 list" where
  "call_ids H pid ix signer = map (address H pid) (ix_names ix) @ [signer]"

fun within_limits :: "runtime \<Rightarrow> spec \<Rightarrow> instruction \<Rightarrow> bool" where
  "within_limits R S (Propose ck i action target) \<longleftrightarrow> unat i + 1 < 2 ^ 64"
| "within_limits R S (Approve ck i nul pi) \<longleftrightarrow>
     (\<forall>b. sp_ballot S (ck, i) = Some b \<longrightarrow> length (bl_votes b) + 1 < 2 ^ 32) \<and>
     discharged R APPROVE_CIRCUIT_IMAGE_ID pi"
| "within_limits R S ix \<longleftrightarrow> True"

lemma submitI:
  assumes ex: "runtime_exact H R pid" and d: "distinct ids"
    and a: "list_all2 (attr_holds H R pid (map (load_account L signers) ids)) (handler_attrs ix)
              (map (load_account L signers) ids)"
    and h: "dispatch E ix (map (load_account L signers) ids) = Some (Inr out)"
    and r: "\<forall>(image, journal) \<in> set (assumptions out). discharged R image journal"
  shows "\<exists>L'. submit E R pid L ix ids signers = Some (L', out)"
proof -
  let ?accts = "map (load_account L signers) ids"
  have "map account_id ?accts = ids" by (simp add: load_account_def comp_def)
  then have "spel_check R pid (handler_attrs ix) ?accts"
    using ex d a by (metis runtime_exact_def)
  with h r show ?thesis by (simp add: submit_def list_all_iff)
qed

text \<open>What the relation says of the accounts a call reads.\<close>

lemma matches_instance:
  assumes "refines H E pid U L S" "StateOf ck \<in> U" "sp_inst S ck = Some q"
  obtains s where "program_owner (L (address H pid (StateOf ck))) = pid"
    "state_from_slice E (acc_data (L (address H pid (StateOf ck)))) = Some s" "inst_of s = q"
  using refinesD [OF assms(1,2)] assms(3) by auto

lemma matches_key:
  assumes "refines H E pid U L S" "StateOf ck \<in> U" "sp_inst S ck = Some q"
    and "state_from_slice E (acc_data (L (address H pid (StateOf ck)))) = Some s"
  shows "create_key s = ck"
  using refinesD [OF assms(1,2)] assms(3,4) by auto

lemma matches_ballot:
  assumes "refines H E pid U L S" "ProposalOf ck i \<in> U" "sp_ballot S (ck, i) = Some b"
  obtains p where "program_owner (L (address H pid (ProposalOf ck i))) = pid"
    "proposal_from_slice E (acc_data (L (address H pid (ProposalOf ck i)))) = Some p"
    "ballot_matches p b"
  using refinesD [OF assms(1,2)] assms(3) by auto

lemma blank_names:
  assumes "vacant H R pid U L" "refines H E pid U L S"
  shows "StateOf ck \<in> U \<Longrightarrow> sp_inst S ck = None \<Longrightarrow> L (address H pid (StateOf ck)) = blank R"
    and "ProposalOf ck i \<in> U \<Longrightarrow> sp_ballot S (ck, i) = None \<Longrightarrow>
      L (address H pid (ProposalOf ck i)) = blank R"
    and "VaultOf ck \<in> U \<Longrightarrow> ck \<notin> sp_vaults S \<Longrightarrow> L (address H pid (VaultOf ck)) = blank R"
    and "NullifierOf ck i nul \<in> U \<Longrightarrow> sp_ballot S (ck, i) = Some b \<Longrightarrow> nul \<notin> set (bl_votes b) \<Longrightarrow>
      L (address H pid (NullifierOf ck i nul)) = blank R"
proof -
  have v: "x \<in> U \<Longrightarrow> program_owner (L (address H pid x)) \<noteq> pid \<Longrightarrow> L (address H pid x) = blank R" for x
    using assms(1) by (simp add: vacant_def)
  note m = refinesD [OF assms(2)]
  show "StateOf ck \<in> U \<Longrightarrow> sp_inst S ck = None \<Longrightarrow> L (address H pid (StateOf ck)) = blank R"
    using v [of "StateOf ck"] m [of "StateOf ck"] by simp
  show "ProposalOf ck i \<in> U \<Longrightarrow> sp_ballot S (ck, i) = None \<Longrightarrow>
      L (address H pid (ProposalOf ck i)) = blank R"
    using v [of "ProposalOf ck i"] m [of "ProposalOf ck i"] by simp
  show "VaultOf ck \<in> U \<Longrightarrow> ck \<notin> sp_vaults S \<Longrightarrow> L (address H pid (VaultOf ck)) = blank R"
    using v [of "VaultOf ck"] m [of "VaultOf ck"] by simp
  show "NullifierOf ck i nul \<in> U \<Longrightarrow> sp_ballot S (ck, i) = Some b \<Longrightarrow> nul \<notin> set (bl_votes b) \<Longrightarrow>
      L (address H pid (NullifierOf ck i nul)) = blank R"
    using v [of "NullifierOf ck i nul"] m [of "NullifierOf ck i nul"] by simp
qed

lemma distinct_call:
  assumes "inj_on (address H pid) U" "set (ix_names ix) \<subseteq> U"
    and "signer \<notin> address H pid ` U"
  shows "distinct (call_ids H pid ix signer)"
proof -
  have "distinct (ix_names ix)" by (cases ix) auto
  then have "distinct (map (address H pid) (ix_names ix))"
    using assms(1,2) by (simp add: distinct_map inj_on_subset)
  then show ?thesis using assms(2,3) by (auto simp: call_ids_def)
qed

text \<open>One instruction at a time; the accounts' attributes hold and the handler succeeds.\<close>

lemma enabled_create:
  assumes ex: "runtime_exact H R pid" and room: "roomy E"
    and d: "distinct (call_ids H pid (CreateMultisig ck root m' n') signer)"
    and b: "L (address H pid (StateOf ck)) = blank R" and q: "1 \<le> unat m'" "unat m' \<le> unat n'"
  shows "\<exists>L' out. submit E R pid L (CreateMultisig ck root m' n')
    (call_ids H pid (CreateMultisig ck root m' n') signer) {signer} = Some (L', out)"
proof -
  obtain ds where "encode_state E \<lparr>create_key = ck, members_root = root, st_m = m', st_n = n',
      proposal_count = 0\<rparr> = Some ds" using room by (auto simp: roomy_def)
  then obtain out where "create_multisig E (load_account L {signer} (address H pid (StateOf ck)))
      (load_account L {signer} signer) ck root m' n' = Inr out" "assumptions out = []"
    using q by (auto simp: create_multisig_eq_Inr output_execute_def)
  then show ?thesis
    using submitI [OF ex d, where L = L and signers = "{signer}" and E = E and out = out and
      ix = "CreateMultisig ck root m' n'"] b by (auto simp: load_simps call_ids_def)
qed

lemma enabled_vault:
  assumes ex: "runtime_exact H R pid"
    and d: "distinct (call_ids H pid (CreateVault ck) signer)"
    and o: "program_owner (L (address H pid (StateOf ck))) = pid"
    and s: "state_from_slice E (acc_data (L (address H pid (StateOf ck)))) = Some s"
    and b: "L (address H pid (VaultOf ck)) = blank R"
  shows "\<exists>L' out. submit E R pid L (CreateVault ck) (call_ids H pid (CreateVault ck) signer) {signer}
    = Some (L', out)"
proof -
  obtain out where "create_vault E (load_account L {signer} (address H pid (StateOf ck)))
      (load_account L {signer} (address H pid (VaultOf ck)))
      (load_account L {signer} signer) ck = Inr out" "assumptions out = []"
    using s by (auto simp: create_vault_eq_Inr output_execute_def load_account_def)
  then show ?thesis
    using submitI [OF ex d, where L = L and signers = "{signer}" and E = E and out = out and
      ix = "CreateVault ck"] o b by (auto simp: load_simps call_ids_def)
qed

lemma enabled_reject:
  assumes ex: "runtime_exact H R pid"
    and d: "distinct (call_ids H pid (Reject ck) signer)"
    and o: "program_owner (L (address H pid (StateOf ck))) = pid"
  shows "\<exists>L' out. submit E R pid L (Reject ck) (call_ids H pid (Reject ck) signer) {signer}
    = Some (L', out)"
proof -
  obtain out where "reject E (load_account L {signer} (address H pid (StateOf ck)))
      (load_account L {signer} signer) ck = Inr out" "assumptions out = []"
    by (auto simp: reject_def output_execute_def)
  then show ?thesis
    using submitI [OF ex d, where L = L and signers = "{signer}" and E = E and out = out and
      ix = "Reject ck"] o by (auto simp: load_simps call_ids_def)
qed

lemma enabled_propose:
  assumes ex: "runtime_exact H R pid" and room: "roomy E"
    and d: "distinct (call_ids H pid (Propose ck i action target) signer)"
    and o: "program_owner (L (address H pid (StateOf ck))) = pid"
    and s: "state_from_slice E (acc_data (L (address H pid (StateOf ck)))) = Some s"
    and b: "L (address H pid (ProposalOf ck i)) = blank R"
    and g: "length action \<le> MAX_ACTION_BYTES_LEN" "i = proposal_count s" "unat i + 1 < 2 ^ 64"
  shows "\<exists>L' out. submit E R pid L (Propose ck i action target)
    (call_ids H pid (Propose ck i action target) signer) {signer} = Some (L', out)"
proof -
  obtain ds dp where "encode_state E (s\<lparr>proposal_count := i + 1\<rparr>) = Some ds"
    "encode_proposal E \<lparr>action_bytes = action, target_program = target, approvals_count = 0,
       executed = False\<rparr> = Some dp" using room g(1) by (fastforce simp: roomy_def)
  then obtain out where "propose E (load_account L {signer} (address H pid (StateOf ck)))
      (load_account L {signer} (address H pid (ProposalOf ck i)))
      (load_account L {signer} signer) ck i action target = Inr out" "assumptions out = []"
    using s g by (auto simp: propose_eq_Inr output_execute_def load_account_def)
  then show ?thesis
    using submitI [OF ex d, where L = L and signers = "{signer}" and E = E and out = out and
      ix = "Propose ck i action target"] o b by (auto simp: load_simps call_ids_def)
qed

lemma enabled_approve:
  assumes ex: "runtime_exact H R pid" and room: "roomy E" and H: "sha256 E = H"
    and d: "distinct (call_ids H pid (Approve ck i nul pi) signer)"
    and o: "program_owner (L (address H pid (StateOf ck))) = pid"
      "program_owner (L (address H pid (ProposalOf ck i))) = pid"
    and s: "state_from_slice E (acc_data (L (address H pid (StateOf ck)))) = Some s"
      "proposal_from_slice E (acc_data (L (address H pid (ProposalOf ck i)))) = Some p"
    and b: "L (address H pid (NullifierOf ck i nul)) = blank R"
    and g: "length (action_bytes p) \<le> MAX_ACTION_BYTES_LEN" "unat (approvals_count p) + 1 < 2 ^ 32"
      "pi = to_bytes (vote_inputs H pid ck i (members_root s) (action_bytes p) (target_program p) nul)"
    and r: "discharged R APPROVE_CIRCUIT_IMAGE_ID pi"
  shows "\<exists>L' out. submit E R pid L (Approve ck i nul pi)
    (call_ids H pid (Approve ck i nul pi) signer) {signer} = Some (L', out)"
proof -
  obtain dp where "encode_proposal E (p\<lparr>approvals_count := approvals_count p + 1\<rparr>) = Some dp"
    using room g(1) by (fastforce simp: roomy_def)
  then obtain out where "approve E (load_account L {signer} (address H pid (StateOf ck)))
      (load_account L {signer} (address H pid (ProposalOf ck i)))
      (load_account L {signer} (address H pid (NullifierOf ck i nul)))
      (load_account L {signer} signer) ck i nul pi = Inr out"
    "assumptions out = [(APPROVE_CIRCUIT_IMAGE_ID, pi)]"
    using s g H by (auto simp: approve_eq_Inr output_execute_def load_account_def vote_inputs_def
        expected_proposal_id_def)
  then show ?thesis
    using submitI [OF ex d, where L = L and signers = "{signer}" and E = E and out = out and
      ix = "Approve ck i nul pi"] o b r by (auto simp: load_simps call_ids_def)
qed

lemma enabled_execute:
  assumes ex: "runtime_exact H R pid" and room: "roomy E"
    and d: "distinct (call_ids H pid (Execute ck i) signer)"
    and o: "program_owner (L (address H pid (StateOf ck))) = pid"
      "program_owner (L (address H pid (ProposalOf ck i))) = pid"
      "program_owner (L (address H pid (VaultOf ck))) = pid"
    and s: "state_from_slice E (acc_data (L (address H pid (StateOf ck)))) = Some s"
      "proposal_from_slice E (acc_data (L (address H pid (ProposalOf ck i)))) = Some p"
    and g: "length (action_bytes p) \<le> MAX_ACTION_BYTES_LEN" "\<not> executed p"
      "unat (st_m s) \<le> unat (approvals_count p)"
  shows "\<exists>L' out. submit E R pid L (Execute ck i) (call_ids H pid (Execute ck i) signer) {signer}
    = Some (L', out)"
proof -
  obtain dp where "encode_proposal E (p\<lparr>executed := True\<rparr>) = Some dp"
    using room g(1) by (fastforce simp: roomy_def)
  then obtain out where "execute E (load_account L {signer} (address H pid (StateOf ck)))
      (load_account L {signer} (address H pid (ProposalOf ck i)))
      (load_account L {signer} (address H pid (VaultOf ck)))
      (load_account L {signer} signer) ck i = Inr out" "assumptions out = []"
    using s g by (auto simp: execute_eq_Inr output_execute_def load_account_def)
  then show ?thesis
    using submitI [OF ex d, where L = L and signers = "{signer}" and E = E and out = out and
      ix = "Execute ck i"] o by (auto simp: load_simps call_ids_def)
qed

lemma enabled:
  assumes ex: "runtime_exact H R pid" and H: "sha256 E = H" and room: "roomy E"
    and inj: "inj_on (address H pid) U" and names: "set (ix_names ix) \<subseteq> U"
    and signer: "signer \<notin> address H pid ` U"
    and ref: "refines H E pid U L S" and vac: "vacant H R pid U L" and inv: "spec_inv S"
    and st: "spec_step H pid S ix = Some S'" and lim: "within_limits R S ix"
  shows "\<exists>L' out. submit E R pid L ix (call_ids H pid ix signer) {signer} = Some (L', out)"
proof -
  note d = distinct_call [OF inj names signer]
  show ?thesis
  proof (cases ix)
    case (CreateMultisig ck root m' n')
    with st names have "StateOf ck \<in> U" "sp_inst S ck = None" "1 \<le> unat m'" "unat m' \<le> unat n'"
      by (auto split: if_splits)
    with enabled_create [where L = L, OF ex room d [unfolded CreateMultisig]] blank_names(1) [OF vac ref]
    show ?thesis by (simp add: CreateMultisig)
  next
    case (CreateVault ck)
    with st names have u: "StateOf ck \<in> U" "VaultOf ck \<in> U" "ck \<notin> sp_vaults S"
      and "\<exists>q. sp_inst S ck = Some q" by (auto split: if_splits)
    then obtain q where "sp_inst S ck = Some q" by blast
    from matches_instance [OF ref u(1) this] obtain s where
      "program_owner (L (address H pid (StateOf ck))) = pid"
      "state_from_slice E (acc_data (L (address H pid (StateOf ck)))) = Some s" .
    with enabled_vault [where L = L, OF ex d [unfolded CreateVault]] blank_names(3) [OF vac ref u(2,3)]
    show ?thesis by (simp add: CreateVault)
  next
    case (Reject ck)
    with st names have u: "StateOf ck \<in> U" and "\<exists>q. sp_inst S ck = Some q" by (auto split: if_splits)
    then obtain q where "sp_inst S ck = Some q" by blast
    from matches_instance [OF ref u(1) this] have
      "program_owner (L (address H pid (StateOf ck))) = pid" .
    with enabled_reject [where L = L, OF ex d [unfolded Reject]] show ?thesis by (simp add: Reject)
  next
    case (Propose ck i action target)
    with st names obtain q where u: "StateOf ck \<in> U" "ProposalOf ck i \<in> U" "sp_inst S ck = Some q"
      "sp_ballot S (ck, i) = None" "length action \<le> MAX_ACTION_BYTES_LEN" "unat i = ins_count q"
      by (auto split: if_splits option.splits)
    from matches_instance [OF ref u(1,3)] obtain s where
      s: "program_owner (L (address H pid (StateOf ck))) = pid"
      "state_from_slice E (acc_data (L (address H pid (StateOf ck)))) = Some s" "inst_of s = q" .
    then have "i = proposal_count s" using u(6) by (auto simp: inst_of_def word_unat_eq_iff)
    with enabled_propose [where L = L, OF ex room d [unfolded Propose] s(1,2)]
      blank_names(2) [OF vac ref u(2,4)] u(5) lim
    show ?thesis by (simp add: Propose)
  next
    case (Approve ck i nul pi)
    with st names obtain q b where u: "StateOf ck \<in> U" "ProposalOf ck i \<in> U"
      "NullifierOf ck i nul \<in> U" "sp_inst S ck = Some q" "sp_ballot S (ck, i) = Some b"
      "nul \<notin> set (bl_votes b)"
      "pi = to_bytes (vote_inputs H pid ck i (ins_root q) (bl_action b) (bl_target b) nul)"
      by (auto split: if_splits option.splits)
    from matches_instance [OF ref u(1,4)] obtain s where
      s: "program_owner (L (address H pid (StateOf ck))) = pid"
      "state_from_slice E (acc_data (L (address H pid (StateOf ck)))) = Some s" "inst_of s = q" .
    from matches_ballot [OF ref u(2,5)] obtain p where
      p: "program_owner (L (address H pid (ProposalOf ck i))) = pid"
      "proposal_from_slice E (acc_data (L (address H pid (ProposalOf ck i)))) = Some p"
      "ballot_matches p b" .
    have "length (action_bytes p) \<le> MAX_ACTION_BYTES_LEN" "unat (approvals_count p) + 1 < 2 ^ 32"
      "pi = to_bytes (vote_inputs H pid ck i (members_root s) (action_bytes p) (target_program p) nul)"
      "discharged R APPROVE_CIRCUIT_IMAGE_ID pi"
      using inv u s(3) p(3) lim by (auto simp: Approve ballot_matches_def inst_of_def spec_inv_def)
    with enabled_approve [where L = L, OF ex room H d [unfolded Approve] s(1) p(1) s(2) p(2)]
      blank_names(4) [OF vac ref u(3,5,6)]
    show ?thesis by (simp add: Approve)
  next
    case (Execute ck i)
    with st names obtain q b where u: "StateOf ck \<in> U" "ProposalOf ck i \<in> U"
      "VaultOf ck \<in> U" "sp_inst S ck = Some q" "sp_ballot S (ck, i) = Some b"
      "\<not> bl_done b" "ins_m q \<le> length (bl_votes b)" "ck \<in> sp_vaults S"
      by (auto split: if_splits option.splits)
    from matches_instance [OF ref u(1,4)] obtain s where
      s: "program_owner (L (address H pid (StateOf ck))) = pid"
      "state_from_slice E (acc_data (L (address H pid (StateOf ck)))) = Some s" "inst_of s = q" .
    from matches_ballot [OF ref u(2,5)] obtain p where
      p: "program_owner (L (address H pid (ProposalOf ck i))) = pid"
      "proposal_from_slice E (acc_data (L (address H pid (ProposalOf ck i)))) = Some p"
      "ballot_matches p b" .
    have v: "program_owner (L (address H pid (VaultOf ck))) = pid"
      using refinesD [OF ref u(3)] u(8) by simp
    have "length (action_bytes p) \<le> MAX_ACTION_BYTES_LEN" "\<not> executed p"
      "unat (st_m s) \<le> unat (approvals_count p)"
      using inv u s(3) p(3) by (auto simp: ballot_matches_def inst_of_def spec_inv_def)
    with enabled_execute [where L = L, OF ex room d [unfolded Execute] s(1) p(1) v s(2) p(2)]
    show ?thesis by (simp add: Execute)
  qed
qed

section \<open>Whole runs\<close>

lemma submit_owned:
  assumes ok: "runtime_ok H R pid" and s: "submit E R pid L ix ids signers = Some (L', out)"
  shows "L' a = L a \<or> program_owner (L' a) = pid"
proof (cases ix)
  case (CreateMultisig ck root m' n')
  with create_effect [OF ok] s show ?thesis by fastforce
next
  case (Propose ck i action target)
  with propose_effect [OF ok] s show ?thesis by fastforce
next
  case (Approve ck i nul pi)
  with approve_effect [OF ok] s show ?thesis by fastforce
next
  case (Execute ck i)
  with execute_effect [OF ok] s show ?thesis by fastforce
next
  case (CreateVault ck)
  with vault_effect [OF ok] s show ?thesis by fastforce
next
  case (Reject ck)
  with reject_effect [OF ok] s show ?thesis by fastforce
qed

lemma vacant_step:
  assumes "runtime_ok H R pid" "submit E R pid L ix ids signers = Some (L', out)" "vacant H R pid U L"
  shows "vacant H R pid U L'"
  using submit_owned [OF assms(1,2)] assms(3) unfolding vacant_def by metis

text \<open>The limits along a run of the machine.\<close>

primrec run_within :: "hasher \<Rightarrow> bytes32 \<Rightarrow> runtime \<Rightarrow> spec \<Rightarrow> instruction list \<Rightarrow> bool" where
  "run_within H pid R S [] \<longleftrightarrow> True"
| "run_within H pid R S (ix # ixs) \<longleftrightarrow> within_limits R S ix \<and>
     (\<forall>S'. spec_step H pid S ix = Some S' \<longrightarrow> run_within H pid R S' ixs)"

lemma run_within_append:
  "run_within H pid R S (xs @ ys) \<longleftrightarrow> run_within H pid R S xs \<and>
     (\<forall>S'. spec_run H pid S xs = Some S' \<longrightarrow> run_within H pid R S' ys)"
  by (induction xs arbitrary: S) (auto simp: Option.bind_eq_Some_conv)

text \<open>Fresh votes with receipts stay within the limits as long as the counter does.\<close>

lemma ballot_votes_within:
  assumes "sp_ballot S (ck, i) = Some b" "length nuls + length (bl_votes b) < 2 ^ 32"
    and "\<forall>nul \<in> set nuls. discharged R APPROVE_CIRCUIT_IMAGE_ID
           (to_bytes (vote_inputs H pid ck i root action target nul))"
  shows "run_within H pid R S
    (map (\<lambda>nul. Approve ck i nul (to_bytes (vote_inputs H pid ck i root action target nul))) nuls)"
  using assms
proof (induction nuls arbitrary: S b)
  case (Cons nul nuls)
  let ?v = "Approve ck i nul (to_bytes (vote_inputs H pid ck i root action target nul))"
  have "run_within H pid R S'
      (map (\<lambda>nul. Approve ck i nul (to_bytes (vote_inputs H pid ck i root action target nul))) nuls)"
    if s: "spec_step H pid S ?v = Some S'" for S'
  proof -
    have "sp_ballot S' (ck, i) = Some (b\<lparr>bl_votes := nul # bl_votes b\<rparr>)"
      using s Cons.prems(1) by (auto split: option.splits if_splits)
    from Cons.IH [OF this] Cons.prems(2,3) show ?thesis by simp
  qed
  with Cons.prems show ?case by simp
qed simp

lemma ledger_run_cons:
  assumes "submit E R pid L0 ix ids signers = Some (L1, out)" "ledger_run E R pid L1 es L"
  shows "ledger_run E R pid L0 (Called ix out # es) L"
  using assms(2)
proof (induction rule: ledger_run.induct)
  case run_start
  then show ?case using ledger_run.run_call [OF ledger_run.run_start assms(1)] by simp
next
  case (run_call es L ix' ids' signers' L' out')
  then show ?case using ledger_run.run_call [of E R pid L0 "Called ix out # es"] by simp
next
  case (run_foreign es L L')
  then show ?case using ledger_run.run_foreign [of E R pid L0 "Called ix out # es"] by simp
qed

text \<open>Calls one after the other, each over the accounts of its handler, signed by one account.\<close>

fun submits ::
  "spel_env \<Rightarrow> runtime \<Rightarrow> bytes32 \<Rightarrow> bytes32 \<Rightarrow> ledger \<Rightarrow> instruction list \<Rightarrow> ledger option" where
  "submits E R pid signer L [] = Some L"
| "submits E R pid signer L (ix # ixs) =
     (case submit E R pid L ix (call_ids (sha256 E) pid ix signer) {signer} of
        None \<Rightarrow> None
      | Some (L', out) \<Rightarrow> submits E R pid signer L' ixs)"

lemma submits_run:
  "submits E R pid signer L ixs = Some L' \<Longrightarrow> \<exists>es. ledger_run E R pid L es L' \<and> calls es = ixs"
proof (induction ixs arbitrary: L)
  case Nil
  then show ?case using run_start by fastforce
next
  case (Cons ix ixs)
  then obtain L1 out where s: "submit E R pid L ix (call_ids (sha256 E) pid ix signer) {signer} = Some (L1, out)"
    and "submits E R pid signer L1 ixs = Some L'" by (auto split: option.splits)
  with Cons.IH obtain es where "ledger_run E R pid L1 es L'" "calls es = ixs" by blast
  with ledger_run_cons [OF s] show ?case by (metis append_Cons append_Nil calls_simps(2,3))
qed

lemma run_submits:
  assumes ex: "runtime_exact H R pid" and H: "sha256 E = H" and room: "roomy E" and st: "stores E"
    and inj: "inj_on (address H pid) U" and signer: "signer \<notin> address H pid ` U"
  shows "refines H E pid U L S \<Longrightarrow> vacant H R pid U L \<Longrightarrow> spec_inv S \<Longrightarrow>
    set (run_names ixs) \<subseteq> U \<Longrightarrow> spec_run H pid S ixs = Some S' \<Longrightarrow> run_within H pid R S ixs \<Longrightarrow>
    \<exists>L'. submits E R pid signer L ixs = Some L' \<and> refines H E pid U L' S'"
proof (induction ixs arbitrary: L S)
  case (Cons ix ixs)
  from Cons.prems obtain S1 where x: "spec_step H pid S ix = Some S1"
    and r: "spec_run H pid S1 ixs = Some S'" by (auto simp: Option.bind_eq_Some_conv)
  have n: "set (ix_names ix) \<subseteq> U" "set (run_names ixs) \<subseteq> U"
    using Cons.prems by (auto simp: run_names_def)
  have lim: "within_limits R S ix" "run_within H pid R S1 ixs" using Cons.prems x by auto
  have ok: "runtime_ok H R pid" using ex by (simp add: runtime_exact_def)
  obtain L1 out where s: "submit E R pid L ix (call_ids H pid ix signer) {signer} = Some (L1, out)"
    using enabled [OF ex H room inj n(1) signer Cons.prems(1-3) x lim(1)] by blast
  have "refines H E pid U L1 S1"
    using simulate [OF ok st inj H Cons.prems(1) n(1) s] x by simp
  from Cons.IH [OF this vacant_step [OF ok s Cons.prems(2)] spec_inv_step [OF x Cons.prems(3)] n(2) r lim(2)]
  show ?case using s H by simp
qed simp

lemma run_realized:
  assumes "runtime_exact H R pid" "sha256 E = H" "roomy E" "stores E"
    "inj_on (address H pid) U" "signer \<notin> address H pid ` U"
    "refines H E pid U L S" "vacant H R pid U L" "spec_inv S"
    "set (run_names ixs) \<subseteq> U" "spec_run H pid S ixs = Some S'" "run_within H pid R S ixs"
  shows "\<exists>es L'. ledger_run E R pid L es L' \<and> calls es = ixs \<and> refines H E pid U L' S'"
  using run_submits [OF assms] submits_run by blast

text \<open>What a live chain and untouched accounts are.\<close>

definition live_setting ::
  "spel_env \<Rightarrow> runtime \<Rightarrow> bytes32 \<Rightarrow> ledger \<Rightarrow> bytes32 \<Rightarrow> instruction list \<Rightarrow> bool" where
  "live_setting E R pid L0 signer ixs \<longleftrightarrow>
     runtime_exact (sha256 E) R pid \<and> stores E \<and> roomy E \<and>
     collision_free (sha256 E) (address_queries (sha256 E) pid ixs) \<and>
     (\<forall>x \<in> set (run_names ixs). L0 (address (sha256 E) pid x) = blank R \<and>
        address (sha256 E) pid x \<noteq> signer)"

lemma live_submits:
  assumes live: "live_setting E R pid L0 signer ixs"
    and run: "spec_run (sha256 E) pid spec_init ixs = Some S"
    and lim: "run_within (sha256 E) pid R spec_init ixs"
  shows "\<exists>L. submits E R pid signer L0 ixs = Some L \<and> refines (sha256 E) E pid (set (run_names ixs)) L S"
proof -
  let ?H = "sha256 E" and ?U = "set (run_names ixs)"
  have ex: "runtime_exact ?H R pid" and st: "stores E" and room: "roomy E"
    and cf: "collision_free ?H (address_queries ?H pid ixs)"
    and b: "\<And>x. x \<in> ?U \<Longrightarrow> L0 (address ?H pid x) = blank R \<and> address ?H pid x \<noteq> signer"
    using live by (auto simp: live_setting_def)
  have inj: "inj_on (address ?H pid) ?U"
    by (rule address_inj_on) (use cf in \<open>simp add: address_queries_def\<close>)
  have "program_owner (blank R) \<noteq> pid" using ex by (simp add: runtime_exact_def runtime_ok_def)
  then have "untouched ?H pid (run_names ixs) L0" using b by (simp add: untouched_def)
  note ref = refines_start [OF this, of E]
  have vac: "vacant ?H R pid ?U L0" using b by (simp add: vacant_def)
  have "signer \<notin> address ?H pid ` ?U" using b by blast
  from run_submits [OF ex refl room st inj this ref vac spec_inv_init subset_refl run lim]
  show ?thesis .
qed

end
