(* ===== verification/System.thy ===== *)
theory System
  imports Liveness
begin

text \<open>
  What the deployed program guarantees over whole runs: the properties of \<open>Multisig_Spec\<close>
  carried over to ledgers, with the receipts that the chain has checked. \<open>sound_setting\<close>
  collects what the chain and the encodings promise, that no account named in the run belongs
  to the program at the start, and that the hash function has no collision among the strings
  hashed for the addresses of the accounts that the run names.
\<close>

definition sound_setting :: "spel_env \<Rightarrow> runtime \<Rightarrow> bytes32 \<Rightarrow> ledger \<Rightarrow> instruction list \<Rightarrow> bool" where
  "sound_setting E R pid L0 ixs \<longleftrightarrow>
     runtime_ok (sha256 E) R pid \<and> stores E \<and>
     collision_free (sha256 E) (address_queries (sha256 E) pid ixs) \<and>
     untouched (sha256 E) pid (run_names ixs) L0"

lemma setting_inj: "sound_setting E R pid L0 ixs \<Longrightarrow> inj_on (address (sha256 E) pid) (set (run_names ixs))"
  by (rule address_inj_on) (simp add: sound_setting_def address_queries_def)

lemma setting_refines:
  assumes set: "sound_setting E R pid L0 ixs" and run: "ledger_run E R pid L0 es L"
    and sub: "set (run_names (calls es)) \<subseteq> set (run_names ixs)"
  obtains S where "spec_run (sha256 E) pid spec_init (calls es) = Some S"
    "refines (sha256 E) E pid (set (run_names ixs)) L S"
proof -
  have "runtime_ok (sha256 E) R pid" "stores E"
    "refines (sha256 E) E pid (set (run_names ixs)) L0 spec_init"
    using set refines_start by (auto simp: sound_setting_def)
  with run_refines [OF _ _ refl setting_inj [OF set] _ run sub] that show thesis by blast
qed

text \<open>The last call of a run, and the ledger it was made on.\<close>

lemma last_call:
  assumes set: "sound_setting E R pid L0 (calls (es @ [Called ix out]))"
    and run: "ledger_run E R pid L0 (es @ [Called ix out]) L"
  obtains L1 ids signers S1 where "ledger_run E R pid L0 es L1"
    "submit E R pid L1 ix ids signers = Some (L, out)"
    "spec_run (sha256 E) pid spec_init (calls es) = Some S1"
    "refines (sha256 E) E pid (set (run_names (calls es @ [ix]))) L1 S1"
    "\<exists>S. spec_run (sha256 E) pid spec_init (calls es @ [ix]) = Some S"
proof -
  from run obtain L1 ids signers where r: "ledger_run E R pid L0 es L1"
    and s: "submit E R pid L1 ix ids signers = Some (L, out)"
    by (auto elim: ledger_run_snocE)
  have sub: "set (run_names (calls es)) \<subseteq> set (run_names (calls es @ [ix]))"
    by (auto simp: run_names_def)
  from set have set': "sound_setting E R pid L0 (calls es @ [ix])" by simp
  from setting_refines [OF set' r sub] obtain S1 where
    "spec_run (sha256 E) pid spec_init (calls es) = Some S1"
    "refines (sha256 E) E pid (set (run_names (calls es @ [ix]))) L1 S1" .
  moreover obtain S where "spec_run (sha256 E) pid spec_init (calls es @ [ix]) = Some S"
    using setting_refines [OF set' run] by auto
  ultimately show thesis using that r s by blast
qed

lemma run_discharged:
  assumes ok: "runtime_ok H R pid" and run: "ledger_run E R pid L0 es L"
    and a: "Approve ck i nul pi \<in> set (calls es)"
  shows "discharged R APPROVE_CIRCUIT_IMAGE_ID pi"
  using run a
proof (induction rule: ledger_run.induct)
  case (run_call es L ix ids signers L' out)
  then show ?case using approve_effect [OF ok] by fastforce
qed simp_all

section \<open>A setting and a run for the examples\<close>

definition sample_blank :: account where
  "sample_blank = \<lparr>program_owner = 0, acc_data = []\<rparr>"

definition bare_runtime :: runtime where
  "bare_runtime = \<lparr>blank = sample_blank, spel_check = \<lambda>_ _ _. False, discharged = \<lambda>_ _. False,
     settle = \<lambda>_ _ _ L. L\<rparr>"

definition test_runtime :: "hasher \<Rightarrow> byte list list \<Rightarrow> runtime" where
  "test_runtime H proved =
     \<lparr>blank = sample_blank,
      spel_check = \<lambda>pid attrs accts. distinct (map account_id accts) \<and>
        list_all2 (attr_holds H bare_runtime pid accts) attrs accts,
      discharged = \<lambda>image journal. image = APPROVE_CIRCUIT_IMAGE_ID \<and> journal \<in> set proved,
      settle = \<lambda>pid attrs posts L. fold (\<lambda>(k, v) f. f(k := v)) (posted pid attrs posts) L\<rparr>"

lemma attr_holds_test: "attr_holds H (test_runtime H' js) = attr_holds H bare_runtime"
  by (simp add: fun_eq_iff attr_holds_def test_runtime_def bare_runtime_def)

lemma test_runtime_exact:
  assumes "pid \<noteq> 0" shows "runtime_exact H (test_runtime H js) pid"
proof -
  have "fold (\<lambda>(k, v) f. f(k := v)) (posted pid attrs posts) L (account_id (posts ! k))
      = written pid (attrs ! k) (posts ! k)"
    if "length posts = length attrs" "distinct (map account_id posts)" "k < length posts"
    for attrs posts L k
  proof (rule fold_upd_in)
    show "distinct (map fst (posted pid attrs posts))" using that by (simp add: map_fst_posted)
    show "(account_id (posts ! k), written pid (attrs ! k) (posts ! k)) \<in> set (posted pid attrs posts)"
      using that by (auto simp: posted_def image_iff set_zip intro!: exI [of _ k])
  qed
  moreover have "fold (\<lambda>(k, v) f. f(k := v)) (posted pid attrs posts) L a = L a"
    if "length posts = length attrs" "a \<notin> account_id ` set posts" for attrs posts L a
    using that map_fst_posted [of posts attrs pid] by (intro fold_upd_other) (metis list.set_map)
  ultimately have "runtime_ok H (test_runtime H js) pid"
    using assms unfolding runtime_ok_def attr_holds_test
    by (simp add: test_runtime_def sample_blank_def)
  then show ?thesis unfolding runtime_exact_def attr_holds_test by (simp add: test_runtime_def)
qed

abbreviation "sample_runtime \<equiv> test_runtime sample_hash"

lemmas sample_runtime_def = test_runtime_def [of sample_hash]

lemmas sample_runtime_exact = test_runtime_exact [of _ sample_hash]

lemma roomy_borsh: "roomy (borsh_env H)"
  by (simp add: roomy_def encode_proposal_borsh MAX_ACTION_BYTES_LEN_def)

text \<open>A 1-of-2 instance over the sample tree; the first member approves and anyone executes.\<close>

definition sample_vote :: "bytes32 \<Rightarrow> byte list" where
  "sample_vote nul = to_bytes (vote_inputs sample_hash 5 9 0 (merkle_root sample_hash sample_tree) [1] 3 nul)"

definition sample_nullifier :: bytes32 where
  "sample_nullifier = nullifier sample_hash (sk sample_member)
     (in_proposal_id (vote_inputs sample_hash 5 9 0 (merkle_root sample_hash sample_tree) [1] 3 0))"

definition sample_setup :: "instruction list" where
  "sample_setup = [CreateMultisig 9 (merkle_root sample_hash sample_tree) 1 2, CreateVault 9,
     Propose 9 0 [1] 3, Approve 9 0 sample_nullifier (sample_vote sample_nullifier)]"

definition sample_calls :: "instruction list" where
  "sample_calls = sample_setup @ [Execute 9 0]"

definition sample_names :: "account_name list" where
  "sample_names = [StateOf 9, VaultOf 9, ProposalOf 9 0, NullifierOf 9 0 sample_nullifier]"

lemma literal_index_0: "literal_seed (to_le (0 :: u64)) = 0"
  by (simp add: literal_seed_def array32_pad_zero array32_to_le)

lemma sample_addresses:
  "address sample_hash 5 (StateOf 9) = 296624120032539847006161211948366522358490489983414102684565"
  "address sample_hash 5 (VaultOf 9) = 296624120032539847006161211948366612840870134923878399767445"
  "address sample_hash 5 (ProposalOf 9 0) =
     296624120032539847006161211948366485997559119174240595899445"
  by (simp_all add: address_def pda_preimage_words sample_hash_2 sample_hash_3 sample_literals
      proposal_seeds_def literal_index_0)

lemma sample_nullifier:
  "sample_nullifier = 2669617080292858623055450907535298701226414409850735571362700"
  by (simp add: sample_nullifier_def nullifier_def nullifier_preimage_def sample_hash_2
      vote_inputs_def sample_proposal_id sample_addresses sample_hash_byte sample_member_def
      DEPLOYMENT_CHAIN_ID_U64_def)

lemma sample_address_nullifier:
  "address sample_hash 5 (NullifierOf 9 0 sample_nullifier) =
     71486412927842103128484852079556331366972874181018359808031605"
proof -
  have "sample_hash (pda_preimage sample_hash 5 (proposal_seeds 9 0)) =
      296624120032539847006161211948366485997559119174240595899445"
    using sample_addresses(3) by (simp add: address_def)
  then show ?thesis
    by (simp add: address_def pda_preimage_words [of _ _ "[_, _, _]"] sample_hash_3 sample_literals
        sample_nullifier)
qed

lemma sample_collision_free:
  "collision_free sample_hash (concat (map (name_queries sample_hash 5) sample_names))"
proof -
  have p: "sample_hash (pda_preimage sample_hash 5 (proposal_seeds 9 0)) =
      296624120032539847006161211948366485997559119174240595899445"
    using sample_addresses(3) by (simp add: address_def)
  have q: "sample_hash (concat (map bytes_of (proposal_seeds 9 0))) =
      7556191893701884112084621553131"
    by (simp add: proposal_seeds_def sample_hash_3 sample_literals literal_index_0)
  show ?thesis
    apply (rule collision_free_subset [OF collision_free_distinct, of _ "[
      pda_preimage sample_hash 5 (name_seeds sample_hash 5 (StateOf 9)),
      concat (map bytes_of (name_seeds sample_hash 5 (StateOf 9))),
      pda_preimage sample_hash 5 (name_seeds sample_hash 5 (VaultOf 9)),
      concat (map bytes_of (name_seeds sample_hash 5 (VaultOf 9))),
      pda_preimage sample_hash 5 (name_seeds sample_hash 5 (ProposalOf 9 0)),
      concat (map bytes_of (name_seeds sample_hash 5 (ProposalOf 9 0))),
      pda_preimage sample_hash 5 (name_seeds sample_hash 5 (NullifierOf 9 0 sample_nullifier)),
      concat (map bytes_of (name_seeds sample_hash 5 (NullifierOf 9 0 sample_nullifier)))]"])
    subgoal
      using sample_addresses sample_address_nullifier
      by (simp add: address_def [symmetric] del: name_seeds.simps)
        (simp add: p q sample_hash_2 sample_hash_3 sample_literals sample_nullifier)
    subgoal by (auto simp: sample_names_def)
    done
qed

abbreviation "sample_env \<equiv> borsh_env sample_hash"

abbreviation "sample_chain \<equiv> sample_runtime [sample_vote sample_nullifier]"

definition sample_spec :: "bool \<Rightarrow> spec" where
  "sample_spec fired =
     \<lparr>sp_inst = [9 \<mapsto> \<lparr>ins_root = merkle_root sample_hash sample_tree, ins_m = 1, ins_n = 2, ins_count = 1\<rparr>],
      sp_ballot = [(9, 0) \<mapsto> \<lparr>bl_action = [1], bl_target = 3, bl_votes = [sample_nullifier], bl_done = fired\<rparr>],
      sp_vaults = {9}\<rparr>"

lemma sample_spec_setup:
  "spec_run sample_hash 5 spec_init sample_setup = Some (sample_spec False)"
  "run_within sample_hash 5 sample_chain spec_init sample_setup"
  by (simp_all add: sample_setup_def spec_init_def sample_spec_def MAX_ACTION_BYTES_LEN_def
      sample_vote_def sample_runtime_def)

lemma sample_spec_execute:
  "spec_step sample_hash 5 (sample_spec False) (Execute 9 0) = Some (sample_spec True)"
  by (simp add: sample_spec_def)

lemma sample_spec_calls:
  "spec_run sample_hash 5 spec_init sample_calls = Some (sample_spec True)"
  "run_within sample_hash 5 sample_chain spec_init sample_calls"
  by (simp_all add: sample_calls_def sample_setup_def spec_init_def sample_spec_def
      MAX_ACTION_BYTES_LEN_def sample_vote_def sample_runtime_def)

lemma sample_inj: "inj_on (address sample_hash 5) (set sample_names)"
  by (rule address_inj_on [OF sample_collision_free])

lemma sample_run_names:
  "set (run_names sample_setup) = set sample_names" "set (run_names sample_calls) = set sample_names"
  by (auto simp: run_names_def sample_setup_def sample_calls_def sample_names_def)

lemma sample_untouched: "untouched sample_hash 5 names (\<lambda>_. sample_blank)"
  by (simp add: untouched_def sample_blank_def)

lemma sample_setting:
  assumes "set (run_names ixs) = set sample_names"
  shows "sound_setting sample_env sample_chain 5 (\<lambda>_. sample_blank) ixs"
proof -
  have "collision_free sample_hash (address_queries sample_hash 5 ixs)"
    by (rule collision_free_subset [OF sample_collision_free])
      (use assms in \<open>auto simp: address_queries_def\<close>)
  then show ?thesis
    using sample_runtime_exact [of 5] stores_borsh sample_untouched
    by (simp add: sound_setting_def runtime_exact_def)
qed

lemma sample_signer: "1 \<notin> address sample_hash 5 ` set sample_names"
  by (simp add: sample_names_def sample_addresses sample_address_nullifier)

lemma sample_realized:
  assumes "spec_run sample_hash 5 spec_init ixs = Some S" "set (run_names ixs) = set sample_names"
    "run_within sample_hash 5 sample_chain spec_init ixs"
  obtains es L where "ledger_run sample_env sample_chain 5 (\<lambda>_. sample_blank) es L" "calls es = ixs"
proof -
  have ex: "runtime_exact sample_hash sample_chain 5" by (rule sample_runtime_exact) simp
  have "refines sample_hash sample_env 5 (set sample_names) (\<lambda>_. sample_blank) spec_init"
    by (rule refines_start [OF sample_untouched])
  moreover have "vacant sample_hash sample_chain 5 (set sample_names) (\<lambda>_. sample_blank)"
    by (simp add: vacant_def sample_runtime_def)
  ultimately show thesis
    using run_realized [OF ex _ roomy_borsh stores_borsh sample_inj sample_signer _ _ spec_inv_init _
        assms(1,3)] assms(2) that by fastforce
qed

text \<open>The whole example as a run that ends with the call of \<open>execute\<close>.\<close>

lemma calls_snocE:
  assumes "calls es = ixs @ [ix]"
  obtains es1 out fs where "es = es1 @ [Called ix out] @ fs" "calls es1 = ixs" "calls fs = []"
proof -
  have "\<exists>es1 out fs. es = es1 @ [Called ix out] @ fs \<and> calls es1 = ixs \<and> calls fs = []"
    using assms
  proof (induction es arbitrary: ixs rule: rev_induct)
    case (snoc e es)
    show ?case
    proof (cases e)
      case (Called ix' out)
      with snoc.prems have "calls es = ixs" "ix' = ix" by simp_all
      with Called have "es @ [e] = es @ [Called ix out] @ [] \<and> calls es = ixs \<and> calls [] = []" by simp
      then show ?thesis by blast
    next
      case Foreign
      with snoc.prems snoc.IH obtain es1 out fs where
        "es = es1 @ [Called ix out] @ fs" "calls es1 = ixs" "calls fs = []" by auto
      with Foreign have "es @ [e] = es1 @ [Called ix out] @ (fs @ [Foreign]) \<and> calls es1 = ixs \<and>
        calls (fs @ [Foreign]) = []" by simp
      then show ?thesis by blast
    qed
  qed simp
  with that show thesis by blast
qed

lemma ledger_run_prefix:
  "ledger_run E R pid L0 es L \<Longrightarrow> es = es1 @ fs \<Longrightarrow> \<exists>L1. ledger_run E R pid L0 es1 L1"
proof (induction arbitrary: fs rule: ledger_run.induct)
  case run_start
  then show ?case by (auto intro: exI [of _ L0] ledger_run.run_start)
next
  case (run_call es L ix ids signers L' out)
  then show ?case
    by (cases fs rule: rev_cases) (auto intro: ledger_run.run_call)
next
  case (run_foreign es L L')
  then show ?case
    by (cases fs rule: rev_cases) (auto intro: ledger_run.run_foreign)
qed

lemma sample_run:
  obtains es out L where
    "ledger_run sample_env sample_chain 5 (\<lambda>_. sample_blank) (es @ [Called (Execute 9 0) out]) L"
    "calls es = sample_setup"
proof -
  obtain es L where r: "ledger_run sample_env sample_chain 5 (\<lambda>_. sample_blank) es L"
    "calls es = sample_setup @ [Execute 9 0]"
    using sample_realized [OF sample_spec_calls(1) sample_run_names(2) sample_spec_calls(2)]
    by (auto simp: sample_calls_def)
  from calls_snocE [OF r(2)] obtain es1 out fs where
    e: "es = es1 @ [Called (Execute 9 0) out] @ fs" "calls es1 = sample_setup" .
  with ledger_run_prefix [OF r(1), of "es1 @ [Called (Execute 9 0) out]" fs] that
  show thesis by auto
qed

section \<open>Properties of the deployed program\<close>

text \<open>
  C1: the program implements the abstract machine. Along every run, whatever other programs
  do in between and whatever calls are chained or fail, the successful calls of the program
  are a run of the machine of \<open>Multisig_Spec\<close>, and the accounts of the run hold what the
  machine holds: each instance's root, quorum and count, each ballot's action, target, number
  of votes and executed flag, each vote's entry and each vault.
\<close>

theorem program_refines_spec:
  assumes "sound_setting E R pid L0 (calls es)" and "ledger_run E R pid L0 es L"
  shows "\<exists>S. spec_run (sha256 E) pid spec_init (calls es) = Some S \<and>
    refines (sha256 E) E pid (set (run_names (calls es))) L S"
  using setting_refines [OF assms] by auto

theorem program_refines_spec_witness:
  "\<exists>es L S. ledger_run sample_env sample_chain 5 (\<lambda>_. sample_blank) es L \<and>
     calls es = sample_calls \<and> refines sample_hash sample_env 5 (set sample_names) L S"
proof -
  from sample_realized [OF sample_spec_calls(1) sample_run_names(2) sample_spec_calls(2)]
  obtain es L where r: "ledger_run sample_env sample_chain 5 (\<lambda>_. sample_blank) es L"
    "calls es = sample_calls" .
  have "sound_setting sample_env sample_chain 5 (\<lambda>_. sample_blank) (calls es)"
    by (rule sample_setting) (simp add: r(2) sample_run_names)
  from program_refines_spec [OF this r(1)] r show ?thesis by (auto simp: sample_run_names)
qed

text \<open>
  C3: a proposal executes at most once. In every run, the number of successful \<open>execute\<close>
  calls for a given instance and index is 0 or 1.
\<close>

theorem executes_at_most_once:
  assumes "sound_setting E R pid L0 (calls es)" and "ledger_run E R pid L0 es L"
  shows "count_list (calls es) (Execute ck i) \<le> 1"
proof -
  from setting_refines [OF assms] obtain S where
    "spec_run (sha256 E) pid spec_init (calls es) = Some S" by blast
  then show ?thesis by (rule spec_execute_once)
qed

theorem executes_at_most_once_witness:
  "\<exists>es L. ledger_run sample_env sample_chain 5 (\<lambda>_. sample_blank) es L \<and>
     calls es = sample_calls \<and> count_list (calls es) (Execute 9 0) \<le> 1"
proof -
  from sample_realized [OF sample_spec_calls(1) sample_run_names(2) sample_spec_calls(2)]
  obtain es L where r: "ledger_run sample_env sample_chain 5 (\<lambda>_. sample_blank) es L"
    "calls es = sample_calls" .
  have "sound_setting sample_env sample_chain 5 (\<lambda>_. sample_blank) (calls es)"
    by (rule sample_setting) (simp add: r(2) sample_run_names)
  from executes_at_most_once [OF this r(1)] r show ?thesis by blast
qed

lemma setting_calls_snoc:
  "sound_setting E R pid L0 (ixs @ [ix]) \<Longrightarrow> calls es = ixs \<Longrightarrow>
   sound_setting E R pid L0 (calls (es @ [Called ix out]))"
  by simp

lemma sample_last_setting:
  "calls es = sample_setup \<Longrightarrow>
   sound_setting sample_env sample_chain 5 (\<lambda>_. sample_blank) (calls (es @ [Called (Execute 9 0) out]))"
  by (rule setting_calls_snoc [OF sample_setting, of sample_setup])
    (auto simp: run_names_def sample_setup_def sample_names_def)

text \<open>What a successful \<open>execute\<close> tells about the calls before it.\<close>

lemma execute_quorum:
  assumes set: "sound_setting E R pid L0 (calls (es @ [Called (Execute ck i) out]))"
    and run: "ledger_run E R pid L0 (es @ [Called (Execute ck i) out]) L"
  shows "\<exists>root m' n' action target nuls.
    CreateMultisig ck root m' n' \<in> set (calls es) \<and> 1 \<le> unat m' \<and> unat m' \<le> unat n' \<and>
    Propose ck i action target \<in> set (calls es) \<and>
    distinct nuls \<and> unat m' \<le> length nuls \<and>
    (\<forall>nul \<in> set nuls. \<exists>pi. pi = to_bytes (vote_inputs (sha256 E) pid ck i root action target nul) \<and>
       Approve ck i nul pi \<in> set (calls es) \<and> discharged R APPROVE_CIRCUIT_IMAGE_ID pi)"
proof -
  have ok: "runtime_ok (sha256 E) R pid" using set by (simp add: sound_setting_def)
  from last_call [OF set run] obtain L1 ids signers S1 where r: "ledger_run E R pid L0 es L1"
    and "\<exists>S. spec_run (sha256 E) pid spec_init (calls es @ [Execute ck i]) = Some S" by metis
  then obtain S where "spec_run (sha256 E) pid spec_init (calls es @ [Execute ck i]) = Some S" by blast
  from spec_execute_quorum [OF this] run_discharged [OF ok r] show ?thesis by metis
qed

text \<open>
  C4: nothing executes without a quorum. If \<open>execute\<close> succeeds for a proposal, then earlier
  in the run the instance was created with some root and quorum \<open>1 <= m <= n\<close>, the proposal
  was made with some action and target, and at least \<open>m\<close> approvals succeeded for it with
  pairwise distinct nullifiers, each with a receipt of the pinned circuit for the bundle of
  exactly that root, that nullifier and the proposal id of exactly that chain, instance,
  index, action and target.
\<close>

theorem execution_needs_quorum:
  assumes "sound_setting E R pid L0 (calls (es @ [Called (Execute ck i) out]))"
    and "ledger_run E R pid L0 (es @ [Called (Execute ck i) out]) L"
  shows "\<exists>root m' n' action target nuls.
    CreateMultisig ck root m' n' \<in> set (calls es) \<and> 1 \<le> unat m' \<and> unat m' \<le> unat n' \<and>
    Propose ck i action target \<in> set (calls es) \<and>
    distinct nuls \<and> unat m' \<le> length nuls \<and>
    (\<forall>nul \<in> set nuls. \<exists>pi. pi = to_bytes (vote_inputs (sha256 E) pid ck i root action target nul) \<and>
       Approve ck i nul pi \<in> set (calls es) \<and> discharged R APPROVE_CIRCUIT_IMAGE_ID pi)"
  using assms by (rule execute_quorum)

theorem execution_needs_quorum_witness:
  "\<exists>es out L root m' n'. \<exists>nuls :: bytes32 list.
     ledger_run sample_env sample_chain 5 (\<lambda>_. sample_blank) (es @ [Called (Execute 9 0) out]) L \<and>
     CreateMultisig 9 root m' n' \<in> set (calls es) \<and> distinct nuls \<and> unat m' \<le> length nuls"
proof -
  obtain es out L where
    r: "ledger_run sample_env sample_chain 5 (\<lambda>_. sample_blank) (es @ [Called (Execute 9 0) out]) L"
    and c: "calls es = sample_setup" by (rule sample_run)
  from execution_needs_quorum [OF sample_last_setting [OF c] r]
  obtain root m' n' and nuls :: "bytes32 list" where "CreateMultisig 9 root m' n' \<in> set (calls es)" "distinct nuls"
    "unat m' \<le> length nuls" by (elim exE conjE) (rule that)
  with r show ?thesis by blast
qed

lemma executed_call:
  assumes "sound_setting E R pid L0 (calls (es @ [Called (Execute ck i) out]))"
    and "ledger_run E R pid L0 (es @ [Called (Execute ck i) out]) L"
  shows "\<exists>action target c v. Propose ck i action target \<in> set (calls es) \<and>
    chained_calls out = [c] \<and> call_program c = target_program_id target \<and>
    instruction_data c = serde_to_vec E action \<and> pda_seeds c = [vault_pda_seed E ck] \<and>
    pre_states c = [\<lparr>acc = v, is_authorized = True, account_id = address (sha256 E) pid (VaultOf ck)\<rparr>]"
proof -
  have ok: "runtime_ok (sha256 E) R pid" using assms(1) by (simp add: sound_setting_def)
  from last_call [OF assms] obtain L1 ids signers S1 where
    s: "submit E R pid L1 (Execute ck i) ids signers = Some (L, out)"
    and h: "spec_run (sha256 E) pid spec_init (calls es) = Some S1"
    and ref: "refines (sha256 E) E pid (set (run_names (calls es @ [Execute ck i]))) L1 S1" .
  from execute_effect [OF ok s] obtain p where
    o: "program_owner (L1 (address (sha256 E) pid (ProposalOf ck i))) = pid"
    and d: "proposal_from_slice E (acc_data (L1 (address (sha256 E) pid (ProposalOf ck i)))) = Some p"
    and c: "chained_calls out = [\<lparr>call_program = target_program_id (target_program p),
        pre_states = [\<lparr>acc = L1 (address (sha256 E) pid (VaultOf ck)), is_authorized = True,
                       account_id = address (sha256 E) pid (VaultOf ck)\<rparr>],
        instruction_data = serde_to_vec E (action_bytes p),
        pda_seeds = [vault_pda_seed E ck]\<rparr>]" by blast
  have "ProposalOf ck i \<in> set (run_names (calls es @ [Execute ck i]))" by (simp add: run_names_def)
  from known_ballot [OF refinesD [OF ref this] o d] obtain b where
    b: "sp_ballot S1 (ck, i) = Some b" "ballot_matches p b" .
  have "ballot_origin (sha256 E) pid (calls es) ck i (sp_inst S1 ck) (Some b)"
    using spec_history [OF h] b(1) unfolding history_ok_def by metis
  then have "Propose ck i (bl_action b) (bl_target b) \<in> set (calls es)"
    by (cases "sp_inst S1 ck") auto
  then show ?thesis
    using b(2) c by (auto simp: ballot_matches_def)
qed

text \<open>
  What executes is what was proposed. The one call that a successful \<open>execute\<close> makes goes
  to the target of the proposal, carries the serialised action of the proposal, as given to
  the one \<open>propose\<close> call for that index, and is authorised by the seed of the instance's
  vault.
\<close>

theorem executes_what_was_proposed:
  assumes "sound_setting E R pid L0 (calls (es @ [Called (Execute ck i) out]))"
    and "ledger_run E R pid L0 (es @ [Called (Execute ck i) out]) L"
  shows "\<exists>action target c. Propose ck i action target \<in> set (calls es) \<and>
    chained_calls out = [c] \<and> concat (map to_le (call_program c)) = bytes_of target \<and>
    instruction_data c = serde_to_vec E action \<and> pda_seeds c = [vault_pda_seed E ck]"
  using executed_call [OF assms] target_program_id_bytes by metis

theorem executes_what_was_proposed_witness:
  "\<exists>es out L action target c.
     ledger_run sample_env sample_chain 5 (\<lambda>_. sample_blank) (es @ [Called (Execute 9 0) out]) L \<and>
     Propose 9 0 action target \<in> set (calls es) \<and>
     chained_calls out = [c] \<and> concat (map to_le (call_program c)) = bytes_of target"
proof -
  obtain es out L where
    r: "ledger_run sample_env sample_chain 5 (\<lambda>_. sample_blank) (es @ [Called (Execute 9 0) out]) L"
    and c: "calls es = sample_setup" by (rule sample_run)
  from executes_what_was_proposed [OF sample_last_setting [OF c] r] r show ?thesis by blast
qed

text \<open>
  C5: a nullifier votes once. After an \<open>approve\<close> for a proposal has succeeded with some
  nullifier, no \<open>approve\<close> for the same proposal and nullifier succeeds again, whatever
  public inputs or receipt come with it.
\<close>

theorem nullifier_votes_once:
  assumes "sound_setting E R pid L0 (calls (es @ [Called (Approve ck i nul pi) out]))"
    and "ledger_run E R pid L0 (es @ [Called (Approve ck i nul pi) out]) L"
  shows "Approve ck i nul pi' \<notin> set (calls es)"
proof -
  from last_call [OF assms] obtain S where
    "spec_run (sha256 E) pid spec_init (calls es @ [Approve ck i nul pi]) = Some S" by blast
  then show ?thesis by (rule spec_no_double_vote)
qed

theorem nullifier_votes_once_witness:
  "\<exists>es out L. ledger_run sample_env sample_chain 5 (\<lambda>_. sample_blank)
       (es @ [Called (Approve 9 0 sample_nullifier (sample_vote sample_nullifier)) out]) L \<and>
     Approve 9 0 sample_nullifier [] \<notin> set (calls es)"
proof -
  let ?ix = "Approve 9 0 sample_nullifier (sample_vote sample_nullifier)"
  obtain h where h: "sample_setup = h @ [?ix]" by (simp add: sample_setup_def)
  from sample_realized [OF sample_spec_setup(1) sample_run_names(1) sample_spec_setup(2)]
  obtain es L where r: "ledger_run sample_env sample_chain 5 (\<lambda>_. sample_blank) es L"
    "calls es = h @ [?ix]" unfolding h .
  from calls_snocE [OF r(2)] obtain es1 out fs where e: "es = es1 @ [Called ?ix out] @ fs"
    "calls es1 = h" .
  from ledger_run_prefix [OF r(1), of "es1 @ [Called ?ix out]" fs] e obtain L1 where
    r1: "ledger_run sample_env sample_chain 5 (\<lambda>_. sample_blank) (es1 @ [Called ?ix out]) L1" by auto
  have "sound_setting sample_env sample_chain 5 (\<lambda>_. sample_blank) (calls (es1 @ [Called ?ix out]))"
    using sample_setting [OF sample_run_names(1)] e(2) h by simp
  from nullifier_votes_once [OF this r1] r1 show ?thesis by blast
qed

text \<open>
  C11: the counter counts votes. In every ledger that a run reaches, the body stored for a
  proposal the run names decodes, its approval counter is the number of distinct nullifiers
  that have approved it, with no wrap-around, and its executed flag says whether it has
  executed.
\<close>

theorem counter_counts_votes:
  assumes "sound_setting E R pid L0 (calls es)" and "ledger_run E R pid L0 es L"
    and "Propose ck i action target \<in> set (calls es)"
  shows "\<exists>p. proposal_from_slice E (acc_data (L (address (sha256 E) pid (ProposalOf ck i)))) = Some p \<and>
    unat (approvals_count p) = card {nul. \<exists>pi. Approve ck i nul pi \<in> set (calls es)} \<and>
    (executed p \<longleftrightarrow> Execute ck i \<in> set (calls es))"
proof -
  from setting_refines [OF assms(1,2)] obtain S where
    h: "spec_run (sha256 E) pid spec_init (calls es) = Some S"
    and ref: "refines (sha256 E) E pid (set (run_names (calls es))) L S" by blast
  have u: "ProposalOf ck i \<in> set (run_names (calls es))"
    using assms(3) by (force simp: run_names_def)
  have o: "ballot_origin (sha256 E) pid (calls es) ck i (sp_inst S ck) (sp_ballot S (ck, i))"
    using spec_history [OF h] by (simp add: history_ok_def)
  then obtain b where b: "sp_ballot S (ck, i) = Some b"
    using assms(3) by (cases "sp_ballot S (ck, i)") auto
  have "count_list (calls es) (Execute ck i) = of_bool (bl_done b)"
    using o b by (cases "sp_inst S ck") auto
  then have "bl_done b \<longleftrightarrow> Execute ck i \<in> set (calls es)"
    using count_list_0_iff [of "calls es" "Execute ck i"] by (cases "bl_done b") auto
  with matches_ballot [OF ref u b] spec_votes_eq(2) [OF h b] show ?thesis
    by (metis ballot_matches_def)
qed

theorem counter_counts_votes_witness:
  "\<exists>es L p. ledger_run sample_env sample_chain 5 (\<lambda>_. sample_blank) es L \<and>
     proposal_from_slice sample_env (acc_data (L (address sample_hash 5 (ProposalOf 9 0)))) = Some p \<and>
     unat (approvals_count p) = 1 \<and> executed p"
proof -
  from sample_realized [OF sample_spec_calls(1) sample_run_names(2) sample_spec_calls(2)]
  obtain es L where r: "ledger_run sample_env sample_chain 5 (\<lambda>_. sample_blank) es L"
    "calls es = sample_calls" .
  have s: "sound_setting sample_env sample_chain 5 (\<lambda>_. sample_blank) (calls es)"
    by (rule sample_setting) (simp add: r(2) sample_run_names)
  have c: "{nul. \<exists>pi. Approve 9 0 nul pi \<in> set (calls es)} = {sample_nullifier}"
    and x: "Propose 9 0 [1] 3 \<in> set (calls es)" "Execute 9 0 \<in> set (calls es)"
    by (auto simp: r(2) sample_calls_def sample_setup_def)
  from counter_counts_votes [OF s r(1) x(1)] r(1) x(2) show ?thesis by (auto simp: c)
qed

text \<open>
  Runs compose, and what was promised once stays: \<open>frozen\<close> relates the bodies of an account
  before and after.
\<close>

lemma ledger_run_append:
  assumes "ledger_run E R pid L0 es L"
  shows "ledger_run E R pid L fs L' \<Longrightarrow> ledger_run E R pid L0 (es @ fs) L'"
proof (induction rule: ledger_run.induct)
  case run_start
  then show ?case using assms by simp
next
  case (run_call fs L1 ix ids signers L' out)
  then show ?case using ledger_run.run_call [of E R pid L0 "es @ fs"] by simp
next
  case (run_foreign fs L1 L')
  then show ?case using ledger_run.run_foreign [of E R pid L0 "es @ fs"] by simp
qed

definition proposal_le :: "proposal \<Rightarrow> proposal \<Rightarrow> bool" where
  "proposal_le p p' \<longleftrightarrow> action_bytes p' = action_bytes p \<and> target_program p' = target_program p \<and>
     unat (approvals_count p) \<le> unat (approvals_count p') \<and> (executed p \<longrightarrow> executed p')"

definition state_le :: "multisig_state \<Rightarrow> multisig_state \<Rightarrow> bool" where
  "state_le s s' \<longleftrightarrow> create_key s' = create_key s \<and> members_root s' = members_root s \<and> st_m s' = st_m s \<and> st_n s' = st_n s \<and>
     unat (proposal_count s) \<le> unat (proposal_count s')"

text \<open>
  C12: nothing agreed on is ever rewritten. From any ledger that a run has reached to any
  later one, an instance keeps its create key, members root, \<open>m\<close> and \<open>n\<close> and its count only grows; a
  proposal keeps its action and target, its counter only grows, and it stays executed.
\<close>

theorem bodies_frozen:
  assumes "sound_setting E R pid L0 (calls es @ calls fs)"
    and "ledger_run E R pid L0 es L" and "ledger_run E R pid L fs L'"
    and "CreateMultisig ck root m' n' \<in> set (calls es)"
    and "Propose ck i action target \<in> set (calls es)"
  shows "\<exists>s p s' p'.
    state_from_slice E (acc_data (L (address (sha256 E) pid (StateOf ck)))) = Some s \<and>
    state_from_slice E (acc_data (L' (address (sha256 E) pid (StateOf ck)))) = Some s' \<and>
    state_le s s' \<and>
    proposal_from_slice E (acc_data (L (address (sha256 E) pid (ProposalOf ck i)))) = Some p \<and>
    proposal_from_slice E (acc_data (L' (address (sha256 E) pid (ProposalOf ck i)))) = Some p' \<and>
    proposal_le p p'"
proof -
  let ?H = "sha256 E" and ?U = "set (run_names (calls es @ calls fs))"
  have sub: "set (run_names (calls es)) \<subseteq> ?U" by (auto simp: run_names_def)
  from setting_refines [OF assms(1,2) sub] obtain S where
    h: "spec_run ?H pid spec_init (calls es) = Some S" and ref: "refines ?H E pid ?U L S" .
  from setting_refines [OF assms(1) ledger_run_append [OF assms(2,3)]] obtain S' where
    h': "spec_run ?H pid spec_init (calls es @ calls fs) = Some S'" and ref': "refines ?H E pid ?U L' S'"
    by auto
  have "spec_run ?H pid S (calls fs) = Some S'" using h h' by (simp add: spec_run_append)
  then have le: "spec_le S S'" by (rule spec_run_le)
  have u: "StateOf ck \<in> ?U" "ProposalOf ck i \<in> ?U"
    using assms(5) by (force simp: run_names_def)+
  have "instance_origin (calls es) ck (sp_inst S ck)"
    "ballot_origin ?H pid (calls es) ck i (sp_inst S ck) (sp_ballot S (ck, i))"
    using spec_history [OF h] by (simp_all add: history_ok_def)
  then obtain q b where q: "sp_inst S ck = Some q" and b: "sp_ballot S (ck, i) = Some b"
    using assms(4,5) by (cases "sp_inst S ck"; cases "sp_ballot S (ck, i)") auto
  from le q b obtain q' b' where q': "sp_inst S' ck = Some q'" "inst_le q q'"
    and b': "sp_ballot S' (ck, i) = Some b'" "ballot_le b b'" unfolding spec_le_def by blast
  from matches_instance [OF ref u(1) q] obtain s where
    s: "state_from_slice E (acc_data (L (address ?H pid (StateOf ck)))) = Some s" "inst_of s = q" .
  from matches_instance [OF ref' u(1) q'(1)] obtain s' where
    s': "state_from_slice E (acc_data (L' (address ?H pid (StateOf ck)))) = Some s'" "inst_of s' = q'" .
  from matches_ballot [OF ref u(2) b] obtain p where
    p: "proposal_from_slice E (acc_data (L (address ?H pid (ProposalOf ck i)))) = Some p"
      "ballot_matches p b" .
  from matches_ballot [OF ref' u(2) b'(1)] obtain p' where
    p': "proposal_from_slice E (acc_data (L' (address ?H pid (ProposalOf ck i)))) = Some p'"
      "ballot_matches p' b'" .
  have "state_le s s'"
    using s(2) s'(2) q'(2) matches_key [OF ref u(1) q s(1)] matches_key [OF ref' u(1) q'(1) s'(1)]
    by (auto simp: state_le_def inst_of_def inst_le_def word_unat_eq_iff)
  moreover have "proposal_le p p'"
    using p(2) p'(2) b'(2) by (auto simp: proposal_le_def ballot_matches_def ballot_le_def)
  ultimately show ?thesis using s(1) s'(1) p(1) p'(1) by blast
qed

theorem bodies_frozen_witness:
  "\<exists>es L p p'. ledger_run sample_env sample_chain 5 (\<lambda>_. sample_blank) es L \<and>
     proposal_from_slice sample_env (acc_data (L (address sample_hash 5 (ProposalOf 9 0)))) = Some p \<and>
     proposal_le p p'"
proof -
  from sample_realized [OF sample_spec_calls(1) sample_run_names(2) sample_spec_calls(2)]
  obtain es L where r: "ledger_run sample_env sample_chain 5 (\<lambda>_. sample_blank) es L"
    "calls es = sample_calls" .
  have s: "sound_setting sample_env sample_chain 5 (\<lambda>_. sample_blank) (calls es @ calls [Foreign])"
    using sample_setting [of sample_calls] by (simp add: r(2) sample_run_names)
  have f: "ledger_run sample_env sample_chain 5 L [Foreign] L"
    using run_foreign [OF run_start, of 5 L L] by (simp add: foreign_step_def)
  have x: "CreateMultisig 9 (merkle_root sample_hash sample_tree) 1 2 \<in> set (calls es)"
    "Propose 9 0 [1] 3 \<in> set (calls es)"
    by (simp_all add: r(2) sample_calls_def sample_setup_def)
  from bodies_frozen [OF s r(1) f x] r(1) show ?thesis by auto
qed

end
