(* ===== verification/Members.thy ===== *)
theory Members
  imports System
begin

text \<open>
  From receipts to members. Risc0's guarantee is the hypothesis \<open>extracts\<close>: a discharged
  assumption of the pinned image comes from some stream on which the circuit committed that
  journal (\<open>ext\<close> picks it). With it, behind the distinct nullifiers of an execution are runs of
  the circuit on streams that hold the secrets of distinct enrolled members; and with its
  converse, a quorum of members can always execute.
\<close>

definition extracts :: "spel_env \<Rightarrow> runtime \<Rightarrow> reader \<Rightarrow> (byte list \<Rightarrow> byte list) \<Rightarrow> bool" where
  "extracts E R rd ext \<longleftrightarrow>
     (\<forall>j. discharged R APPROVE_CIRCUIT_IMAGE_ID j \<longrightarrow> approve_circuit (sha256 E) rd (ext j) = Some j)"

text \<open>The host can hand over a receipt for a journal that some run of the circuit commits.\<close>

definition provable_discharged :: "spel_env \<Rightarrow> runtime \<Rightarrow> reader \<Rightarrow> byte list \<Rightarrow> bool" where
  "provable_discharged E R rd j \<longleftrightarrow>
     (\<forall>s. approve_circuit (sha256 E) rd s = Some j \<longrightarrow> discharged R APPROVE_CIRCUIT_IMAGE_ID j)"

text \<open>The strings hashed for one vote: the commitment, its path and the tree's own path.\<close>

definition vote_queries :: "hasher \<Rightarrow> reader \<Rightarrow> merkle_tree \<Rightarrow> byte list \<Rightarrow> byte list list" where
  "vote_queries H rd t s =
     (case read_witness rd s of None \<Rightarrow> []
      | Some w \<Rightarrow>
          let i = identity_new (w_sk w) (w_salt w);
              c = commitment_bytes (commitment H i)
          in commitment_preimage i # walk_queries H (w_proof w) c @ tree_queries H t (indices (w_proof w)))"

fun approval_queries ::
  "hasher \<Rightarrow> reader \<Rightarrow> merkle_tree \<Rightarrow> (byte list \<Rightarrow> byte list) \<Rightarrow> instruction \<Rightarrow> byte list list" where
  "approval_queries H rd t ext (Approve ck i nul pi) = vote_queries H rd t (ext pi)"
| "approval_queries H rd t ext _ = []"

definition receipt_queries ::
  "hasher \<Rightarrow> reader \<Rightarrow> merkle_tree \<Rightarrow> (byte list \<Rightarrow> byte list) \<Rightarrow> instruction list \<Rightarrow> byte list list" where
  "receipt_queries H rd t ext ixs = concat (map (approval_queries H rd t ext) ixs)"

text \<open>
  A run of the circuit that answers a receipt for a vote: on the stream that \<open>ext\<close> finds for
  the public inputs of an accepted \<open>approve\<close>, the circuit commits these public inputs, and the
  witness \<open>w\<close> it reads from that stream is the secret of an enrolled member, with a path from
  its commitment to the root, and the nullifier of the vote is the one of that secret.
\<close>

definition enrolled_vote ::
  "hasher \<Rightarrow> reader \<Rightarrow> merkle_tree \<Rightarrow> (byte list \<Rightarrow> byte list) \<Rightarrow> bytes32 \<Rightarrow> bytes32 \<Rightarrow> u64 \<Rightarrow>
   byte list \<Rightarrow> bytes32 \<Rightarrow> instruction list \<Rightarrow> witness \<Rightarrow> bool" where
  "enrolled_vote H rd t ext pid ck i action target h w \<longleftrightarrow>
     (let mem = identity_new (w_sk w) (w_salt w);
          nul = identity_nullifier H mem (w_proposal_id w);
          b = vote_inputs H pid ck i (merkle_root H t) action target nul
      in Approve ck i nul (to_bytes b) \<in> set h \<and>
         approve_circuit H rd (ext (to_bytes b)) = Some (to_bytes b) \<and>
         read_witness rd (ext (to_bytes b)) = Some w \<and>
         w_members_root w = merkle_root H t \<and> w_proposal_id w = in_proposal_id b \<and>
         verify_proof H (merkle_root H t) (commitment_bytes (commitment H mem)) (w_proof w) \<and>
         commitment_bytes (commitment H mem) \<in> set (leaves t))"

definition witness_commitment :: "hasher \<Rightarrow> witness \<Rightarrow> bytes32" where
  "witness_commitment H w = commitment_bytes (commitment H (identity_new (w_sk w) (w_salt w)))"

lemma receipt_enrolled:
  assumes c: "approve_circuit H rd s = Some (to_bytes b)"
    and wt: "wf_tree H t" and root: "in_members_root b = merkle_root H t"
    and cf: "collision_free H (vote_queries H rd t s)"
  obtains w where "read_witness rd s = Some w" "w_members_root w = merkle_root H t"
    "w_proposal_id w = in_proposal_id b"
    "in_nullifier b = identity_nullifier H (identity_new (w_sk w) (w_salt w)) (w_proposal_id w)"
    "verify_proof H (merkle_root H t) (witness_commitment H w) (w_proof w)"
    "witness_commitment H w \<in> set (leaves t)"
    "commitment_preimage (identity_new (w_sk w) (w_salt w)) \<in> set (vote_queries H rd t s)"
proof -
  from c obtain w where w: "read_witness rd s = Some w" and j: "commit_approval H w = Some (to_bytes b)"
    by (auto simp: approve_circuit_def Option.bind_eq_Some_conv)
  let ?i = "identity_new (w_sk w) (w_salt w)"
  have b: "b = \<lparr>in_members_root = w_members_root w, in_proposal_id = w_proposal_id w,
      in_nullifier = nullifier H (w_sk w) (w_proposal_id w)\<rparr>"
    and v: "verify_proof H (w_members_root w) (witness_commitment H w) (w_proof w)"
    using j inputs_codec.enc_inject by (auto simp: commit_approval_eq_Some witness_commitment_def)
  have q: "vote_queries H rd t s = commitment_preimage ?i #
      walk_queries H (w_proof w) (witness_commitment H w) @ tree_queries H t (indices (w_proof w))"
    by (simp add: vote_queries_def w Let_def witness_commitment_def)
  have "collision_free H (walk_queries H (w_proof w) (witness_commitment H w) @
      tree_queries H t (indices (w_proof w)))"
    by (rule collision_free_subset [OF cf]) (auto simp: q)
  from proved_leaf [OF this wt read_witness_wf [OF w]] v root b
  have "witness_commitment H w \<in> set (leaves t)" by simp
  with that [OF w] b q v root show thesis by (simp add: identity_nullifier_def)
qed

text \<open>The approvals of one ballot come from runs of the circuit by as many different members.\<close>

lemma voters_ran:
  assumes ok: "runtime_ok (sha256 E) R pid" and run: "ledger_run E R pid L0 es L"
    and wt: "wf_tree (sha256 E) t" and ext: "extracts E R rd ext"
    and cf: "collision_free (sha256 E) (receipt_queries (sha256 E) rd t ext (calls es))"
    and d: "distinct nuls"
    and ap: "\<And>nul. nul \<in> set nuls \<Longrightarrow> Approve ck i nul
       (to_bytes (vote_inputs (sha256 E) pid ck i (merkle_root (sha256 E) t) action target nul)) \<in> set (calls es)"
  shows "\<exists>ws. length ws = length nuls \<and> distinct (map (witness_commitment (sha256 E)) ws) \<and>
    (\<forall>w \<in> set ws. enrolled_vote (sha256 E) rd t ext pid ck i action target (calls es) w)"
proof -
  let ?H = "sha256 E" and ?root = "merkle_root (sha256 E) t"
  let ?b = "\<lambda>nul. vote_inputs ?H pid ck i ?root action target nul"
  let ?i = "\<lambda>w. identity_new (w_sk w) (w_salt w)"
  let ?qs = "receipt_queries ?H rd t ext (calls es)"
  have "\<exists>w. nul = identity_nullifier ?H (?i w) (w_proposal_id w) \<and> w_proposal_id w = in_proposal_id (?b 0) \<and>
      commitment_preimage (?i w) \<in> set ?qs \<and> enrolled_vote ?H rd t ext pid ck i action target (calls es) w"
    if n: "nul \<in> set nuls" for nul
  proof -
    have c: "approve_circuit ?H rd (ext (to_bytes (?b nul))) = Some (to_bytes (?b nul))"
      using ext run_discharged [OF ok run ap [OF n]] by (simp add: extracts_def)
    have sub: "set (vote_queries ?H rd t (ext (to_bytes (?b nul)))) \<subseteq> set ?qs"
      using ap [OF n] by (force simp: receipt_queries_def)
    from receipt_enrolled [OF c wt _ collision_free_subset [OF cf sub]] obtain w where
      w: "read_witness rd (ext (to_bytes (?b nul))) = Some w" "w_members_root w = ?root"
        "w_proposal_id w = in_proposal_id (?b nul)"
        "in_nullifier (?b nul) = identity_nullifier ?H (?i w) (w_proposal_id w)"
        "verify_proof ?H ?root (witness_commitment ?H w) (w_proof w)" "witness_commitment ?H w \<in> set (leaves t)"
        "commitment_preimage (?i w) \<in> set (vote_queries ?H rd t (ext (to_bytes (?b nul))))"
      by (auto simp: vote_inputs_def)
    have nul: "identity_nullifier ?H (?i w) (w_proposal_id w) = nul" using w(4) by (simp add: vote_inputs_def)
    have "enrolled_vote ?H rd t ext pid ck i action target (calls es) w"
      using ap [OF n] c w(1-3,5,6) unfolding enrolled_vote_def Let_def nul witness_commitment_def by blast
    moreover have "w_proposal_id w = in_proposal_id (?b 0)" using w(3) by (simp add: vote_inputs_def)
    ultimately show ?thesis using nul w(7) sub by blast
  qed
  then obtain f where f: "\<forall>nul \<in> set nuls. nul = identity_nullifier ?H (?i (f nul)) (w_proposal_id (f nul)) \<and>
      w_proposal_id (f nul) = in_proposal_id (?b 0) \<and> commitment_preimage (?i (f nul)) \<in> set ?qs \<and>
      enrolled_vote ?H rd t ext pid ck i action target (calls es) (f nul)" by metis
  have "inj_on (witness_commitment ?H \<circ> f) (set nuls)"
  proof (rule inj_onI)
    fix x y assume xy: "x \<in> set nuls" "y \<in> set nuls"
      "(witness_commitment ?H \<circ> f) x = (witness_commitment ?H \<circ> f) y"
    then have "?i (f x) = ?i (f y)"
      using commitment_inject [OF cf] f by (simp add: witness_commitment_def)
    then show "x = y" using f xy(1,2) by metis
  qed
  then have "distinct (map (witness_commitment ?H) (map f nuls))" using d by (simp add: distinct_map)
  then show ?thesis using f by (intro exI [of _ "map f nuls"]) simp
qed

text \<open>Counted by their commitments.\<close>

lemma voters_enrolled:
  assumes "runtime_ok (sha256 E) R pid" and "ledger_run E R pid L0 es L"
    and "wf_tree (sha256 E) t" and "extracts E R rd ext"
    and "collision_free (sha256 E) (receipt_queries (sha256 E) rd t ext (calls es))"
    and "distinct nuls"
    and "\<And>nul. nul \<in> set nuls \<Longrightarrow> Approve ck i nul
       (to_bytes (vote_inputs (sha256 E) pid ck i (merkle_root (sha256 E) t) action target nul)) \<in> set (calls es)"
  shows "length nuls \<le> card {c \<in> set (leaves t). \<exists>mem pi. c = commitment_bytes (commitment (sha256 E) mem) \<and>
      Approve ck i (identity_nullifier (sha256 E) mem (in_proposal_id
        (vote_inputs (sha256 E) pid ck i (merkle_root (sha256 E) t) action target 0))) pi \<in> set (calls es)}"
    (is "_ \<le> card ?C")
proof -
  let ?H = "sha256 E"
  from voters_ran [OF assms] obtain ws where
    ws: "length ws = length nuls" "distinct (map (witness_commitment ?H) ws)"
    and v: "\<forall>w \<in> set ws. enrolled_vote ?H rd t ext pid ck i action target (calls es) w" by blast
  have "witness_commitment ?H w \<in> ?C" if "w \<in> set ws" for w
  proof -
    let ?mem = "identity_new (w_sk w) (w_salt w)"
    from v that have e: "enrolled_vote ?H rd t ext pid ck i action target (calls es) w" by blast
    then have "w_proposal_id w = in_proposal_id (vote_inputs ?H pid ck i (merkle_root ?H t) action target 0)"
      by (simp add: enrolled_vote_def Let_def vote_inputs_def)
    then show ?thesis
      using e unfolding enrolled_vote_def Let_def witness_commitment_def by auto
  qed
  then have "set (map (witness_commitment ?H) ws) \<subseteq> ?C" by auto
  moreover have "finite ?C" by simp
  ultimately have "card (set (map (witness_commitment ?H) ws)) \<le> card ?C" by (intro card_mono)
  then show ?thesis using distinct_card [OF ws(2)] ws(1) by simp
qed

lemma members_ran:
  assumes set: "sound_setting E R pid L0 (calls (es @ [Called (Execute ck i) out]))"
    and run: "ledger_run E R pid L0 (es @ [Called (Execute ck i) out]) L"
    and created: "CreateMultisig ck (merkle_root (sha256 E) t) m' n' \<in> set (calls es)"
    and wt: "wf_tree (sha256 E) t" and ext: "extracts E R rd ext"
    and cf: "collision_free (sha256 E) (receipt_queries (sha256 E) rd t ext (calls es))"
  obtains action target nuls L1 where "Propose ck i action target \<in> set (calls es)" "distinct nuls"
    "unat m' \<le> length nuls" "ledger_run E R pid L0 es L1"
    "\<And>nul. nul \<in> set nuls \<Longrightarrow> Approve ck i nul
       (to_bytes (vote_inputs (sha256 E) pid ck i (merkle_root (sha256 E) t) action target nul)) \<in> set (calls es)"
proof -
  from last_call [OF set run] obtain L1 S1 where r1: "ledger_run E R pid L0 es L1"
    and h: "spec_run (sha256 E) pid spec_init (calls es) = Some S1" by metis
  from execute_quorum [OF set run] obtain root m2 n2 action target nuls where
    c2: "CreateMultisig ck root m2 n2 \<in> set (calls es)"
    and pr: "Propose ck i action target \<in> set (calls es)" and d: "distinct nuls"
    and m2: "unat m2 \<le> length nuls"
    and ap: "\<And>nul. nul \<in> set nuls \<Longrightarrow>
       Approve ck i nul (to_bytes (vote_inputs (sha256 E) pid ck i root action target nul)) \<in> set (calls es)"
    by (elim exE conjE) (rule that, (blast | assumption)+)
  have eq: "root = merkle_root (sha256 E) t" "unat m2 = unat m'"
    using spec_create_unique [OF h c2 created] by simp_all
  show thesis by (rule that [OF pr d _ r1 ap [unfolded eq(1)]]) (use m2 eq(2) in simp_all)
qed

lemma members_executed:
  assumes "sound_setting E R pid L0 (calls (es @ [Called (Execute ck i) out]))"
    and "ledger_run E R pid L0 (es @ [Called (Execute ck i) out]) L"
    and "CreateMultisig ck (merkle_root (sha256 E) t) m' n' \<in> set (calls es)"
    and wt: "wf_tree (sha256 E) t" and ext: "extracts E R rd ext"
    and cf: "collision_free (sha256 E) (receipt_queries (sha256 E) rd t ext (calls es))"
  shows "\<exists>action target. Propose ck i action target \<in> set (calls es) \<and>
    unat m' \<le> card {c \<in> set (leaves t). \<exists>mem pi. c = commitment_bytes (commitment (sha256 E) mem) \<and>
      Approve ck i (identity_nullifier (sha256 E) mem (in_proposal_id
        (vote_inputs (sha256 E) pid ck i (merkle_root (sha256 E) t) action target 0))) pi \<in> set (calls es)}"
proof -
  have ok: "runtime_ok (sha256 E) R pid" using assms(1) by (simp add: sound_setting_def)
  from members_ran [OF assms] obtain action target nuls L1 where
    v: "Propose ck i action target \<in> set (calls es)" "distinct nuls" "unat m' \<le> length nuls"
      "ledger_run E R pid L0 es L1"
      "\<And>nul. nul \<in> set nuls \<Longrightarrow> Approve ck i nul
       (to_bytes (vote_inputs (sha256 E) pid ck i (merkle_root (sha256 E) t) action target nul)) \<in> set (calls es)"
    by metis
  from voters_enrolled [OF ok v(4) wt ext cf v(2,5)] v(1,3) show ?thesis
    by (intro exI [of _ action] exI [of _ target] conjI) auto
qed

section \<open>The members of the example\<close>

lemma sample_vote_circuit:
  assumes p: "merkle_prove sample_hash sample_tree 0 = Inr p"
  shows "approve_circuit sample_hash sample_reader
    (pack_approve_witness sample_member p (merkle_root sample_hash sample_tree)
      (in_proposal_id (vote_inputs sample_hash 5 9 0 (merkle_root sample_hash sample_tree) [1] 3 0)))
    = Some (sample_vote sample_nullifier)"
proof -
  have "wf_proof p" "verify_proof sample_hash (merkle_root sample_hash sample_tree) 7 p"
    using prove_verifies [OF sample_tree(1), of 0] p by (auto simp: sample_tree(2))
  then have "approves sample_hash (vote_inputs sample_hash 5 9 0 (merkle_root sample_hash sample_tree)
      [1] 3 sample_nullifier) sample_member p"
    by (simp add: approves_def vote_inputs_def sample_member sample_nullifier_def)
  from approves_circuit [OF sample_reader this] show ?thesis
    by (simp add: sample_vote_def vote_inputs_def)
qed

lemma sample_extracts:
  obtains ext where "extracts sample_env sample_chain sample_reader ext"
    "collision_free sample_hash
       (receipt_queries sample_hash sample_reader sample_tree ext sample_setup)"
proof -
  obtain p where p: "merkle_prove sample_hash sample_tree 0 = Inr p" and wp: "wf_proof p"
    using sample_proof by blast
  let ?r = "merkle_root sample_hash sample_tree"
  let ?pd = "in_proposal_id (vote_inputs sample_hash 5 9 0 ?r [1] 3 0)"
  define ext where "ext = (\<lambda>j :: byte list. pack_approve_witness sample_member p ?r ?pd)"
  have "extracts sample_env sample_chain sample_reader ext"
    using sample_vote_circuit [OF p] by (simp add: extracts_def sample_runtime_def ext_def)
  moreover have "set (receipt_queries sample_hash sample_reader sample_tree ext sample_setup)
      \<subseteq> set (commitment_preimage sample_member # walk_queries sample_hash p 7)"
    using read_pack [OF sample_reader wp, of sample_member ?r ?pd "[]"]
      honest_queries(1) [OF sample_tree(1) p]
    by (auto simp: receipt_queries_def sample_setup_def vote_queries_def ext_def witness_of_def
        sample_member sample_tree(2))
  moreover have "distinct (map sample_hash (commitment_preimage sample_member # walk_queries sample_hash p 7))"
    by (simp only: list.map map_walk_queries sample_climb [OF p])
      (simp add: commitment_preimage_def sample_hash_2 sample_member_def)
  ultimately show thesis
    using that collision_free_subset [OF collision_free_distinct] by blast
qed

text \<open>
  C7: an execution is a decision of \<open>m\<close> members who hold their secrets. Take an instance that
  was created with the root of a tree of members and quorum \<open>m\<close>, and a successful \<open>execute\<close> of
  one of its proposals. Then there are at least \<open>m\<close> runs of the circuit, one for each of as
  many accepted approvals of exactly the proposed action and target: in each the circuit
  commits the public inputs of the approval, on a stream that holds a key and a salt; the
  nullifier of the approval is the one of that key; and the commitments of the keys and salts
  are pairwise different leaves of the tree. Hypotheses: what the chain discharges was proved,
  that is \<open>ext\<close> finds a stream on which the circuit commits it (\<open>extracts\<close>), and the hash
  function has no collision among the strings hashed for these votes and for the addresses.
\<close>

theorem executed_by_members:
  assumes "sound_setting E R pid L0 (calls (es @ [Called (Execute ck i) out]))"
    and "ledger_run E R pid L0 (es @ [Called (Execute ck i) out]) L"
    and "CreateMultisig ck (merkle_root (sha256 E) t) m' n' \<in> set (calls es)"
    and "wf_tree (sha256 E) t" and "extracts E R rd ext"
    and "collision_free (sha256 E) (receipt_queries (sha256 E) rd t ext (calls es))"
  shows "\<exists>action target ws. Propose ck i action target \<in> set (calls es) \<and> unat m' \<le> length ws \<and>
    distinct (map (witness_commitment (sha256 E)) ws) \<and>
    (\<forall>w \<in> set ws. enrolled_vote (sha256 E) rd t ext pid ck i action target (calls es) w)"
proof -
  have ok: "runtime_ok (sha256 E) R pid" using assms(1) by (simp add: sound_setting_def)
  from members_ran [OF assms] obtain action target nuls L1 where
    v: "Propose ck i action target \<in> set (calls es)" "distinct nuls" "unat m' \<le> length nuls"
      "ledger_run E R pid L0 es L1"
      "\<And>nul. nul \<in> set nuls \<Longrightarrow> Approve ck i nul
       (to_bytes (vote_inputs (sha256 E) pid ck i (merkle_root (sha256 E) t) action target nul)) \<in> set (calls es)"
    by metis
  from voters_ran [OF ok v(4) assms(4-6) v(2,5)] v(1,3) show ?thesis by metis
qed

theorem executed_by_members_witness:
  "\<exists>es out L ext action target w.
     ledger_run sample_env sample_chain 5 (\<lambda>_. sample_blank) (es @ [Called (Execute 9 0) out]) L \<and>
     extracts sample_env sample_chain sample_reader ext \<and>
     enrolled_vote sample_hash sample_reader sample_tree ext 5 9 0 action target (calls es) w"
proof -
  obtain es out L where
    r: "ledger_run sample_env sample_chain 5 (\<lambda>_. sample_blank) (es @ [Called (Execute 9 0) out]) L"
    and c: "calls es = sample_setup" by (rule sample_run)
  obtain ext where e: "extracts sample_env sample_chain sample_reader ext"
    "collision_free sample_hash (receipt_queries sample_hash sample_reader sample_tree ext sample_setup)"
    by (rule sample_extracts)
  have m: "CreateMultisig 9 (merkle_root sample_hash sample_tree) 1 2 \<in> set (calls es)"
    by (simp add: c sample_setup_def)
  have q: "collision_free sample_hash (receipt_queries sample_hash sample_reader sample_tree ext (calls es))"
    using e(2) by (simp only: c)
  from executed_by_members [OF sample_last_setting [OF c] r, of sample_tree 1 2 sample_reader ext,
      unfolded borsh_env_sel(1) unat_1, OF m sample_tree(1) e(1) q]
  obtain action target ws where w: "1 \<le> length ws"
    "\<forall>w \<in> set ws. enrolled_vote sample_hash sample_reader sample_tree ext 5 9 0 action target (calls es) w"
    by (elim exE conjE) (rule that)
  from w(1) have "hd ws \<in> set ws" by (cases ws) simp_all
  with w(2) r e(1) show ?thesis by blast
qed

section \<open>A quorum can always execute\<close>

definition votes_for ::
  "hasher \<Rightarrow> bytes32 \<Rightarrow> bytes32 \<Rightarrow> bytes32 \<Rightarrow> byte list \<Rightarrow> bytes32 \<Rightarrow> bytes32 list \<Rightarrow> instruction list" where
  "votes_for H pid ck root action target nuls =
     map (\<lambda>nul. Approve ck 0 nul (to_bytes (vote_inputs H pid ck 0 root action target nul))) nuls"

definition lifecycle ::
  "hasher \<Rightarrow> bytes32 \<Rightarrow> bytes32 \<Rightarrow> bytes32 \<Rightarrow> u8 \<Rightarrow> u32 \<Rightarrow> byte list \<Rightarrow> bytes32 \<Rightarrow> bytes32 list \<Rightarrow>
   instruction list" where
  "lifecycle H pid ck root m' n' action target nuls =
     [CreateMultisig ck root m' n', CreateVault ck, Propose ck 0 action target] @
     votes_for H pid ck root action target nuls @ [Execute ck 0]"

definition opened :: "bytes32 \<Rightarrow> bytes32 \<Rightarrow> u8 \<Rightarrow> u32 \<Rightarrow> byte list \<Rightarrow> bytes32 \<Rightarrow> bytes32 list \<Rightarrow> bool \<Rightarrow> spec" where
  "opened ck root m' n' action target votes fired =
     \<lparr>sp_inst = [ck \<mapsto> \<lparr>ins_root = root, ins_m = unat m', ins_n = unat n', ins_count = 1\<rparr>],
      sp_ballot = [(ck, 0) \<mapsto> \<lparr>bl_action = action, bl_target = target, bl_votes = votes, bl_done = fired\<rparr>],
      sp_vaults = {ck}\<rparr>"

lemma opening_run:
  assumes "1 \<le> unat m'" "unat m' \<le> unat n'" "length action \<le> MAX_ACTION_BYTES_LEN"
  shows "spec_run H pid spec_init [CreateMultisig ck root m' n', CreateVault ck, Propose ck 0 action target]
    = Some (opened ck root m' n' action target [] False)"
  using assms by (simp add: spec_init_def opened_def)

lemma votes_run:
  assumes "distinct nuls" "set nuls \<inter> set vs = {}"
  shows "spec_run H pid (opened ck root m' n' action target vs False)
      (votes_for H pid ck root action target nuls)
    = Some (opened ck root m' n' action target (rev nuls @ vs) False)"
proof -
  let ?q = "\<lparr>ins_root = root, ins_m = unat m', ins_n = unat n', ins_count = 1\<rparr>"
  have "sp_inst (opened ck root m' n' action target vs False) ck = Some ?q" by (simp add: opened_def)
  from spec_run_votes [OF _ assms(1) _ this, of 0 "\<lparr>bl_action = action, bl_target = target,
      bl_votes = vs, bl_done = False\<rparr>" H pid] assms(2)
  show ?thesis by (simp add: opened_def votes_for_def)
qed

lemma votes_within:
  assumes "length nuls + length vs < 2 ^ 32"
    and "\<forall>nul \<in> set nuls. discharged R APPROVE_CIRCUIT_IMAGE_ID
           (to_bytes (vote_inputs H pid ck 0 root action target nul))"
  shows "run_within H pid R (opened ck root m' n' action target vs False)
    (votes_for H pid ck root action target nuls)"
  unfolding votes_for_def
  by (rule ballot_votes_within [where b = "\<lparr>bl_action = action, bl_target = target, bl_votes = vs,
        bl_done = False\<rparr>", OF _ _ assms(2)])
    (use assms(1) in \<open>simp_all add: opened_def\<close>)

lemma lifecycle_run:
  assumes "1 \<le> unat m'" "unat m' \<le> unat n'" "length action \<le> MAX_ACTION_BYTES_LEN"
    and "distinct nuls" "unat m' \<le> length nuls"
  shows "spec_run H pid spec_init (lifecycle H pid ck root m' n' action target nuls)
    = Some (opened ck root m' n' action target (rev nuls) True)"
proof -
  have "spec_step H pid (opened ck root m' n' action target (rev nuls) False) (Execute ck 0)
    = Some (opened ck root m' n' action target (rev nuls) True)"
    using assms(5) by (simp add: opened_def)
  then show ?thesis
    using opening_run [OF assms(1-3)] votes_run [OF assms(4), of "[]"]
    unfolding lifecycle_def spec_run_append by simp
qed

lemma lifecycle_within:
  assumes "1 \<le> unat m'" "unat m' \<le> unat n'" "length action \<le> MAX_ACTION_BYTES_LEN"
    and "distinct nuls" "length nuls < 2 ^ 32"
    and "\<forall>nul \<in> set nuls. discharged R APPROVE_CIRCUIT_IMAGE_ID
           (to_bytes (vote_inputs H pid ck 0 root action target nul))"
  shows "run_within H pid R spec_init (lifecycle H pid ck root m' n' action target nuls)"
proof -
  have "run_within H pid R spec_init
      [CreateMultisig ck root m' n', CreateVault ck, Propose ck 0 action target]" by simp
  moreover have "run_within H pid R (opened ck root m' n' action target [] False)
      (votes_for H pid ck root action target nuls)"
    using assms(5,6) by (intro votes_within) simp_all
  ultimately show ?thesis
    using opening_run [OF assms(1-3)] votes_run [OF assms(4), of "[]"]
    unfolding lifecycle_def run_within_append by simp
qed

text \<open>A whole life of one proposal, and what is stored at its end.\<close>

lemma lifecycle_submits:
  assumes live: "live_setting E R pid L0 signer
      (lifecycle (sha256 E) pid ck root m' n' action target nuls)"
    and q: "1 \<le> unat m'" "unat m' \<le> unat n'" "length action \<le> MAX_ACTION_BYTES_LEN"
    and n: "distinct nuls" "unat m' \<le> length nuls" "length nuls < 2 ^ 32"
    and d: "\<forall>nul \<in> set nuls. discharged R APPROVE_CIRCUIT_IMAGE_ID
           (to_bytes (vote_inputs (sha256 E) pid ck 0 root action target nul))"
  shows "\<exists>L p. submits E R pid signer L0 (lifecycle (sha256 E) pid ck root m' n' action target nuls) = Some L \<and>
    proposal_from_slice E (acc_data (L (address (sha256 E) pid (ProposalOf ck 0)))) = Some p \<and>
    executed p \<and> unat (approvals_count p) = length nuls"
proof -
  let ?H = "sha256 E" and ?S = "opened ck root m' n' action target (rev nuls) True"
  let ?ixs = "lifecycle ?H pid ck root m' n' action target nuls"
  from live_submits [OF live lifecycle_run [OF q n(1,2)] lifecycle_within [OF q n(1,3) d]]
  obtain L where r: "submits E R pid signer L0 ?ixs = Some L"
    and ref: "refines ?H E pid (set (run_names ?ixs)) L ?S" by blast
  have u: "ProposalOf ck 0 \<in> set (run_names ?ixs)" by (simp add: run_names_def lifecycle_def)
  have b: "sp_ballot ?S (ck, 0) = Some \<lparr>bl_action = action, bl_target = target,
      bl_votes = rev nuls, bl_done = True\<rparr>" by (simp add: opened_def)
  from matches_ballot [OF ref u b] obtain p where
    "proposal_from_slice E (acc_data (L (address ?H pid (ProposalOf ck 0)))) = Some p"
    "executed p" "unat (approvals_count p) = length nuls"
    by (auto simp: ballot_matches_def)
  with r show ?thesis by blast
qed

lemma member_journal:
  assumes rd: "slice_reader rd" and wt: "wf_tree H t"
    and c: "commitment_bytes (commitment H mem) \<in> set (leaves t)" "commitment_bytes (commitment H mem) \<noteq> 0"
    and b: "in_members_root b = merkle_root H t" "in_nullifier b = identity_nullifier H mem (in_proposal_id b)"
  shows "\<exists>s. approve_circuit H rd s = Some (to_bytes b)"
proof -
  from merkle_acc.member_checks [OF wt c] obtain i p where
    "prove_ok H t i = Some p" "verify_proof H (merkle_root H t) (commitment_bytes (commitment H mem)) p"
    by blast
  then have "approves H b mem p"
    using b wf_proof_prove by (auto simp: approves_def prove_ok_def identity_nullifier_def split: sum.splits)
  from approves_circuit [OF rd this] show ?thesis by blast
qed

definition member_nullifiers ::
  "hasher \<Rightarrow> bytes32 \<Rightarrow> bytes32 \<Rightarrow> bytes32 \<Rightarrow> byte list \<Rightarrow> bytes32 \<Rightarrow> identity list \<Rightarrow> bytes32 list" where
  "member_nullifiers H pid ck root action target mems =
     map (\<lambda>mem. identity_nullifier H mem
       (in_proposal_id (vote_inputs H pid ck 0 root action target 0))) mems"

text \<open>
  C8: a quorum can always execute. On a live chain with blank accounts, for any tree of
  members, any quorum \<open>1 <= m <= n\<close>, any action of at most 4096 bytes and any target: if at
  least \<open>m\<close> enrolled members (fewer than \<open>2^32\<close>, with distinct nullifiers) want to, then
  creating the instance and its vault, proposing, approving with each member's circuit
  receipt and executing all succeed in this order, and leave the proposal executed with
  exactly these approvals.
\<close>

theorem quorum_executes:
  assumes "live_setting E R pid L0 signer
      (lifecycle (sha256 E) pid ck (merkle_root (sha256 E) t) m' n' action target
        (member_nullifiers (sha256 E) pid ck (merkle_root (sha256 E) t) action target mems))"
    and "slice_reader rd" and "wf_tree (sha256 E) t"
    and "\<forall>mem \<in> set mems. commitment_bytes (commitment (sha256 E) mem) \<in> set (leaves t) - {0}"
    and "distinct (member_nullifiers (sha256 E) pid ck (merkle_root (sha256 E) t) action target mems)"
    and "1 \<le> unat m'" and "unat m' \<le> unat n'" and "length action \<le> MAX_ACTION_BYTES_LEN"
    and "unat m' \<le> length mems" and "length mems < 2 ^ 32"
    and "\<forall>nul \<in> set (member_nullifiers (sha256 E) pid ck (merkle_root (sha256 E) t) action target mems).
           provable_discharged E R rd
           (to_bytes (vote_inputs (sha256 E) pid ck 0 (merkle_root (sha256 E) t) action target nul))"
  shows "\<exists>es L p. ledger_run E R pid L0 es L \<and>
    calls es = lifecycle (sha256 E) pid ck (merkle_root (sha256 E) t) m' n' action target
        (member_nullifiers (sha256 E) pid ck (merkle_root (sha256 E) t) action target mems) \<and>
    proposal_from_slice E (acc_data (L (address (sha256 E) pid (ProposalOf ck 0)))) = Some p \<and>
    executed p \<and> unat (approvals_count p) = length mems"
proof -
  let ?H = "sha256 E" and ?root = "merkle_root (sha256 E) t"
  let ?nuls = "member_nullifiers ?H pid ck ?root action target mems"
  let ?ixs = "lifecycle ?H pid ck ?root m' n' action target ?nuls"
  have l: "length ?nuls = length mems" by (simp add: member_nullifiers_def)
  have d: "\<forall>nul \<in> set ?nuls. discharged R APPROVE_CIRCUIT_IMAGE_ID
      (to_bytes (vote_inputs ?H pid ck 0 ?root action target nul))"
  proof
    fix nul assume n: "nul \<in> set ?nuls"
    then obtain mem where mem: "mem \<in> set mems" "nul = identity_nullifier ?H mem
        (in_proposal_id (vote_inputs ?H pid ck 0 ?root action target nul))"
      by (auto simp: member_nullifiers_def vote_inputs_def)
    have "\<exists>s. approve_circuit ?H rd s = Some (to_bytes (vote_inputs ?H pid ck 0 ?root action target nul))"
      by (rule member_journal [OF assms(2,3), of mem]) (use assms(4) mem in \<open>auto simp: vote_inputs_def\<close>)
    then show "discharged R APPROVE_CIRCUIT_IMAGE_ID
      (to_bytes (vote_inputs ?H pid ck 0 ?root action target nul))"
      using assms(11) n by (auto simp: provable_discharged_def)
  qed
  obtain L p where s: "submits E R pid signer L0 ?ixs = Some L"
    and p: "proposal_from_slice E (acc_data (L (address ?H pid (ProposalOf ck 0)))) = Some p"
      "executed p" "unat (approvals_count p) = length ?nuls"
    using lifecycle_submits [OF assms(1,6,7,8,5) _ _ d] assms(9,10) l by auto
  from submits_run [OF s] p l show ?thesis by auto
qed

theorem quorum_executes_witness:
  "\<exists>es L p. ledger_run sample_env sample_chain 5 (\<lambda>_. sample_blank) es L \<and> calls es = sample_calls \<and>
     proposal_from_slice sample_env (acc_data (L (address sample_hash 5 (ProposalOf 9 0)))) = Some p \<and>
     executed p \<and> unat (approvals_count p) = 1"
proof -
  let ?root = "merkle_root sample_hash sample_tree"
  have nuls: "member_nullifiers sample_hash 5 9 ?root [1] 3 [sample_member] = [sample_nullifier]"
    by (simp add: member_nullifiers_def sample_nullifier_def identity_nullifier_def)
  have life: "lifecycle sample_hash 5 9 ?root 1 2 [1] 3 [sample_nullifier] = sample_calls"
    by (simp add: lifecycle_def votes_for_def sample_calls_def sample_setup_def sample_vote_def)
  have "collision_free sample_hash (address_queries sample_hash 5 sample_calls)"
    by (rule collision_free_subset [OF sample_collision_free])
      (use sample_run_names(2) in \<open>auto simp: address_queries_def\<close>)
  then have live: "live_setting sample_env sample_chain 5 (\<lambda>_. sample_blank) 1 sample_calls"
    using sample_runtime_exact [of 5] stores_borsh roomy_borsh sample_signer
    by (auto simp: live_setting_def sample_run_names(2)) (simp_all add: sample_runtime_def)
  have c: "commitment_bytes (commitment sample_hash sample_member) \<in> set (leaves sample_tree) - {0}"
    by (simp add: sample_member sample_tree(2))
  have "provable_discharged sample_env sample_chain sample_reader
      (to_bytes (vote_inputs sample_hash 5 9 0 ?root [1] 3 sample_nullifier))"
    by (simp add: provable_discharged_def sample_runtime_def sample_vote_def)
  with quorum_executes [of sample_env sample_chain 5 "\<lambda>_. sample_blank" 1 9 sample_tree 1 2 "[1]" 3
      "[sample_member]" sample_reader, unfolded borsh_env_sel(1) nuls life,
      OF live sample_reader sample_tree(1)] c
  show ?thesis by (simp add: MAX_ACTION_BYTES_LEN_def)
qed

end
