(* ===== verification/Spec_Algebra.thy ===== *)
theory Spec_Algebra
  imports Multisig_Spec "HOL-Library.Multiset"
begin

text \<open>
  The algebra of the machine of \<open>Multisig_Spec\<close>: calls on different instances are independent of
  each other (a list of calls is accepted exactly when the calls on each instance are, made
  alone), and what the machine holds at the end is a function of the set of the calls it
  accepted, whatever their order.
\<close>

section \<open>One instance at a time\<close>

definition about :: "bytes32 \<Rightarrow> instruction list \<Rightarrow> instruction list" where
  "about ck ixs = filter (\<lambda>ix. ix_create_key ix = ck) ixs"

text \<open>Two states look the same from one instance.\<close>

definition agree :: "bytes32 \<Rightarrow> spec \<Rightarrow> spec \<Rightarrow> bool" where
  "agree ck S T \<longleftrightarrow> sp_inst S ck = sp_inst T ck \<and> (\<forall>i. sp_ballot S (ck, i) = sp_ballot T (ck, i)) \<and>
     (ck \<in> sp_vaults S \<longleftrightarrow> ck \<in> sp_vaults T)"

lemma run_is_steps: "spec_run H pid S ixs = run_steps (spec_step H pid) S ixs"
  by (induction ixs arbitrary: S) simp_all

lemma step_elsewhere:
  "spec_step H pid S ix = Some S' \<Longrightarrow> ix_create_key ix \<noteq> ck \<Longrightarrow> agree ck S' S"
  by (cases ix) (auto simp: agree_def split: if_splits option.splits)

lemma step_local:
  "agree (ix_create_key ix) S T \<Longrightarrow>
   rel_option (agree (ix_create_key ix)) (spec_step H pid S ix) (spec_step H pid T ix)"
  by (cases ix) (auto simp: agree_def split: option.splits)

interpretation spec_split: split_machine "spec_step H pid" ix_create_key agree
  for H :: hasher and pid :: bytes32
proof unfold_locales
  show "agree k s s" for k s by (simp add: agree_def)
  show "agree k s u" if "agree k s t" "agree k t u" for k s t u using that by (simp add: agree_def)
qed (fact step_elsewhere step_local)+

text \<open>What an instance goes through in a run is what it goes through alone.\<close>

lemma spec_projects:
  "spec_run H pid S ixs = Some S' \<Longrightarrow> \<exists>T'. spec_run H pid S (about ck ixs) = Some T' \<and> agree ck S' T'"
  unfolding run_is_steps about_def by (rule spec_split.run_projects)

section \<open>The state as a function of the calls\<close>

lemma spec_propose_recorded:
  "spec_run H pid spec_init h = Some S \<Longrightarrow> Propose ck i action target \<in> set h \<Longrightarrow>
   \<exists>b. sp_ballot S (ck, i) = Some b \<and> bl_action b = action \<and> bl_target b = target"
proof (induction h arbitrary: S rule: rev_induct)
  case (snoc ix h)
  then obtain S1 where r: "spec_run H pid spec_init h = Some S1" and x: "spec_step H pid S1 ix = Some S"
    by (auto simp: spec_run_snoc)
  show ?case
  proof (cases "Propose ck i action target \<in> set h")
    case True
    then show ?thesis
      using snoc.IH [OF r] spec_le_step [OF x] unfolding spec_le_def ballot_le_def by metis
  next
    case False
    with snoc.prems have "ix = Propose ck i action target" by simp
    with x show ?thesis by (auto split: option.splits if_splits)
  qed
qed simp

lemma spec_vaults_eq: "spec_run H pid spec_init h = Some S \<Longrightarrow> sp_vaults S = {ck. CreateVault ck \<in> set h}"
proof (induction h arbitrary: S rule: rev_induct)
  case (snoc ix h)
  then obtain S1 where r: "spec_run H pid spec_init h = Some S1" and x: "spec_step H pid S1 ix = Some S"
    by (auto simp: spec_run_snoc)
  have "sp_vaults S = (case ix of CreateVault ck \<Rightarrow> insert ck (sp_vaults S1) | _ \<Rightarrow> sp_vaults S1)"
    using x by (cases ix) (auto split: option.splits if_splits)
  with snoc.IH [OF r] show ?case by (cases ix) auto
qed (simp add: spec_init_def)

text \<open>The ballots of an instance are the ones below its count.\<close>

definition count_inv :: "spec \<Rightarrow> bool" where
  "count_inv S \<longleftrightarrow> (\<forall>ck q. sp_inst S ck = Some q \<longrightarrow> ins_count q \<le> 2 ^ 64 \<and>
     (\<forall>i. unat i < ins_count q \<longrightarrow> sp_ballot S (ck, i) \<noteq> None))"

lemma count_inv_step: "spec_step H pid S ix = Some S' \<Longrightarrow> count_inv S \<Longrightarrow> count_inv S'"
proof (cases ix)
  case (Propose ck i action target)
  assume s: "spec_step H pid S ix = Some S'" and inv: "count_inv S"
  obtain q where q: "sp_inst S ck = Some q" "unat i = ins_count q"
    "S' = S\<lparr>sp_inst := (sp_inst S)(ck \<mapsto> q\<lparr>ins_count := ins_count q + 1\<rparr>),
       sp_ballot := (sp_ballot S)((ck, i) \<mapsto>
         \<lparr>bl_action = action, bl_target = target, bl_votes = [], bl_done = False\<rparr>)\<rparr>"
    using s Propose by (auto split: if_splits option.splits)
  have "unat i < 2 ^ LENGTH(64)" by (rule unsigned_less)
  then have "ins_count q + 1 \<le> 2 ^ 64" using q(2) by simp
  moreover have "unat j < ins_count q + 1 \<Longrightarrow> j \<noteq> i \<Longrightarrow> unat j < ins_count q" for j
    using q(2) by (metis less_Suc_eq Suc_eq_plus1 word_unat_eq_iff)
  ultimately show ?thesis using inv q by (auto simp: count_inv_def)
qed (auto simp: count_inv_def split: if_splits option.splits)

interpretation count_sys: invariant_system "\<lambda>S. S = spec_init" "spec_move H pid" count_inv
  for H :: hasher and pid :: bytes32
proof unfold_locales
  show "count_inv S" if "S = spec_init" for S using that by (simp add: count_inv_def spec_init_def)
  show "count_inv T" if "count_inv S" "spec_move H pid S T" for S T
    using that count_inv_step by (auto simp: spec_move_def)
qed

lemma spec_count:
  assumes h: "spec_run H pid spec_init h = Some S" and q: "sp_inst S ck = Some q"
  shows "unat i < ins_count q \<longleftrightarrow> (\<exists>a g. Propose ck i a g \<in> set h)" and "ins_count q \<le> 2 ^ 64"
proof -
  have c: "count_inv S" using count_sys.inv_reachable [OF refl spec_run_moves [OF h]] .
  then show "ins_count q \<le> 2 ^ 64" using q unfolding count_inv_def by blast
  have "sp_ballot S (ck, i) \<noteq> None" if "unat i < ins_count q"
    using c q that unfolding count_inv_def by blast
  moreover have "unat i < ins_count q" if "sp_ballot S (ck, i) = Some b" for b
    using spec_run_inv [OF h] q that unfolding spec_inv_def by (metis option.inject)
  moreover have "ballot_origin H pid h ck i (Some q) (sp_ballot S (ck, i))"
    using spec_history [OF h] q unfolding history_ok_def by metis
  ultimately show "unat i < ins_count q \<longleftrightarrow> (\<exists>a g. Propose ck i a g \<in> set h)"
    by (cases "sp_ballot S (ck, i)") auto
qed

lemma counts_equal:
  assumes "c \<le> 2 ^ 64" "d \<le> 2 ^ 64" "\<And>i :: u64. unat i < c \<longleftrightarrow> unat i < d"
  shows "c = d"
proof (rule ccontr)
  assume "c \<noteq> d"
  then have "min c d < 2 ^ 64" using assms(1,2) by auto
  then have "unat (of_nat (min c d) :: u64) = min c d"
    by (simp add: unsigned_of_nat take_bit_nat_eq_self)
  then show False using assms(3) [of "of_nat (min c d)"] \<open>c \<noteq> d\<close> by auto
qed

text \<open>States that differ in the order of votes only.\<close>

definition ballot_same :: "ballot \<Rightarrow> ballot \<Rightarrow> bool" where
  "ballot_same b c \<longleftrightarrow> bl_action b = bl_action c \<and> bl_target b = bl_target c \<and>
     mset (bl_votes b) = mset (bl_votes c) \<and> bl_done b = bl_done c"

definition spec_same :: "spec \<Rightarrow> spec \<Rightarrow> bool" where
  "spec_same S T \<longleftrightarrow> sp_inst S = sp_inst T \<and> sp_vaults S = sp_vaults T \<and>
     (\<forall>k. rel_option ballot_same (sp_ballot S k) (sp_ballot T k))"

lemma same_instances:
  assumes S: "spec_run H pid spec_init h = Some S" and T: "spec_run H pid spec_init k = Some T"
    and e: "set h = set k"
  shows "sp_inst S ck = sp_inst T ck"
proof (cases "\<exists>root m' n'. CreateMultisig ck root m' n' \<in> set h")
  case True
  then obtain root m' n' where c: "CreateMultisig ck root m' n' \<in> set h" by blast
  obtain q where q: "sp_inst S ck = Some q" "ins_root q = root" "ins_m q = unat m'" "ins_n q = unat n'"
    using spec_create_recorded [OF S c] by blast
  obtain r where r: "sp_inst T ck = Some r" "ins_root r = root" "ins_m r = unat m'" "ins_n r = unat n'"
    using spec_create_recorded [OF T] c e by blast
  have "ins_count q = ins_count r"
    by (rule counts_equal [OF spec_count(2) [OF S q(1)] spec_count(2) [OF T r(1)]])
      (simp add: spec_count(1) [OF S q(1)] spec_count(1) [OF T r(1)] e)
  with q r show ?thesis by simp
next
  case False
  have "instance_origin h ck (sp_inst S ck)" "instance_origin k ck (sp_inst T ck)"
    using spec_history [OF S] spec_history [OF T] by (simp_all add: history_ok_def)
  with False e show ?thesis by (cases "sp_inst S ck"; cases "sp_inst T ck") auto
qed

lemma same_ballots:
  assumes S: "spec_run H pid spec_init h = Some S" and T: "spec_run H pid spec_init k = Some T"
    and e: "set h = set k"
  shows "rel_option ballot_same (sp_ballot S (ck, i)) (sp_ballot T (ck, i))"
proof (cases "\<exists>a g. Propose ck i a g \<in> set h")
  case True
  then obtain a g where p: "Propose ck i a g \<in> set h" by blast
  obtain b where b: "sp_ballot S (ck, i) = Some b" "bl_action b = a" "bl_target b = g"
    using spec_propose_recorded [OF S p] by blast
  obtain c where c: "sp_ballot T (ck, i) = Some c" "bl_action c = a" "bl_target c = g"
    using spec_propose_recorded [OF T] p e by blast
  have "distinct (bl_votes b)" "distinct (bl_votes c)"
    using spec_run_inv [OF S] spec_run_inv [OF T] b(1) c(1) by (auto simp: spec_inv_def)
  moreover have "set (bl_votes b) = set (bl_votes c)"
    using spec_votes_eq(1) [OF S b(1)] spec_votes_eq(1) [OF T c(1)] e by simp
  ultimately have "mset (bl_votes b) = mset (bl_votes c)" by (simp add: set_eq_iff_mset_eq_distinct)
  moreover have "ballot_origin H pid h ck i (sp_inst S ck) (Some b)"
    "ballot_origin H pid k ck i (sp_inst T ck) (Some c)"
    using spec_history [OF S] spec_history [OF T] b(1) c(1) unfolding history_ok_def by metis+
  then have "count_list h (Execute ck i) = of_bool (bl_done b)"
    "count_list k (Execute ck i) = of_bool (bl_done c)"
    by (cases "sp_inst S ck"; cases "sp_inst T ck"; simp)+
  then have "bl_done b = bl_done c"
    using e count_list_0_iff [of h "Execute ck i"] count_list_0_iff [of k "Execute ck i"]
    by (cases "bl_done b"; cases "bl_done c") auto
  ultimately show ?thesis using b c by (simp add: ballot_same_def)
next
  case False
  have "ballot_origin H pid h ck i (sp_inst S ck) (sp_ballot S (ck, i))"
    "ballot_origin H pid k ck i (sp_inst T ck) (sp_ballot T (ck, i))"
    using spec_history [OF S] spec_history [OF T] by (simp_all add: history_ok_def)
  then have "sp_ballot S (ck, i) = None" "sp_ballot T (ck, i) = None"
    using False e
    by (cases "sp_inst S ck"; cases "sp_ballot S (ck, i)"; auto;
        cases "sp_inst T ck"; cases "sp_ballot T (ck, i)"; auto)+
  then show ?thesis by simp
qed

lemma run_order:
  assumes "spec_run H pid spec_init h = Some S" "spec_run H pid spec_init k = Some T" "set h = set k"
  shows "spec_same S T"
proof -
  have "sp_vaults S = sp_vaults T" using spec_vaults_eq assms by metis
  moreover have "rel_option ballot_same (sp_ballot S key) (sp_ballot T key)" for key
    using same_ballots [OF assms] by (cases key) auto
  ultimately show ?thesis
    using same_instances [OF assms] by (simp add: spec_same_def fun_eq_iff)
qed

end
