(* ===== verification/Independence.thy ===== *)
theory Independence
  imports System Spec_Algebra
begin

text \<open>
  What the algebra of the machine gives for the deployed program: the calls that a chain
  accepts are characterised exactly; instances neither help nor hinder each other; the bodies
  on the ledger are a function of the set of accepted calls; and from every ledger that a run
  can reach, an open proposal with enough voters left can be executed.
\<close>

section \<open>Exactly what is accepted\<close>

text \<open>The machine with the limits of the counters and the receipts of the chain.\<close>

definition limited_step :: "hasher \<Rightarrow> bytes32 \<Rightarrow> runtime \<Rightarrow> spec \<Rightarrow> instruction \<Rightarrow> spec option" where
  "limited_step H pid R S ix = (if within_limits R S ix then spec_step H pid S ix else None)"

lemma limited_run:
  "run_steps (limited_step H pid R) S ixs = Some S' \<longleftrightarrow>
     spec_run H pid S ixs = Some S' \<and> run_within H pid R S ixs"
proof (induction ixs arbitrary: S)
  case (Cons ix ixs)
  then show ?case by (cases "within_limits R S ix"; cases "spec_step H pid S ix") (simp_all add: limited_step_def)
qed simp

lemma limits_local: "agree (ix_create_key ix) S T \<Longrightarrow> within_limits R S ix = within_limits R T ix"
  by (cases ix) (auto simp: agree_def)

interpretation limited_split: split_machine "limited_step H pid R" ix_create_key agree
  for H :: hasher and pid :: bytes32 and R :: runtime
proof unfold_locales
  show "agree ck S T" if "limited_step H pid R T ix = Some S" "ix_create_key ix \<noteq> ck" for ck S T ix
    using that step_elsewhere by (auto simp: limited_step_def split: if_splits)
  show "rel_option (agree (ix_create_key ix)) (limited_step H pid R S ix) (limited_step H pid R T ix)"
    if "agree (ix_create_key ix) S T" for S T ix
    using step_local [OF that] limits_local [OF that] by (simp add: limited_step_def)
qed (simp_all add: agree_def)

text \<open>A call that the chain accepts is within the limits.\<close>

lemma submit_within:
  assumes ok: "runtime_ok H R pid" and ref: "refines H E pid U L S" and U: "set (ix_names ix) \<subseteq> U"
    and s: "submit E R pid L ix ids signers = Some (L', out)"
  shows "within_limits R S ix"
proof (cases ix)
  case (Propose ck i action target)
  with propose_effect [OF ok s [unfolded Propose]] show ?thesis by auto
next
  case (Approve ck i nul pi)
  from approve_effect [OF ok s [unfolded Approve]] obtain p where
    o: "program_owner (L (address H pid (ProposalOf ck i))) = pid"
    and p: "proposal_from_slice E (acc_data (L (address H pid (ProposalOf ck i)))) = Some p"
      "unat (approvals_count p) + 1 < 2 ^ 32"
    and d: "discharged R APPROVE_CIRCUIT_IMAGE_ID pi" by blast
  have "ProposalOf ck i \<in> U" using U by (simp add: Approve)
  from known_ballot [OF refinesD [OF ref this] o p(1)] obtain b where
    "sp_ballot S (ck, i) = Some b" "ballot_matches p b" .
  with p(2) d show ?thesis by (auto simp: Approve ballot_matches_def)
qed simp_all

lemma submits_limited:
  assumes ok: "runtime_ok H R pid" and st: "stores E" and H: "sha256 E = H"
    and inj: "inj_on (address H pid) U"
  shows "refines H E pid U L S \<Longrightarrow> set (run_names ixs) \<subseteq> U \<Longrightarrow>
    submits E R pid signer L ixs = Some L' \<Longrightarrow>
    \<exists>S'. run_steps (limited_step H pid R) S ixs = Some S' \<and> refines H E pid U L' S'"
proof (induction ixs arbitrary: L S)
  case (Cons ix ixs)
  then obtain L1 out where s: "submit E R pid L ix (call_ids H pid ix signer) {signer} = Some (L1, out)"
    and r: "submits E R pid signer L1 ixs = Some L'" by (auto simp: H split: option.splits)
  have n: "set (ix_names ix) \<subseteq> U" "set (run_names ixs) \<subseteq> U"
    using Cons.prems(2) by (auto simp: run_names_def)
  from simulate [OF ok st inj H Cons.prems(1) n(1) s] obtain S1 where
    x: "spec_step H pid S ix = Some S1" "refines H E pid U L1 S1" by blast
  with Cons.IH [OF x(2) n(2) r] submit_within [OF ok Cons.prems(1) n(1) s] show ?case
    by (simp add: limited_step_def)
qed simp

lemma live_parts:
  assumes "live_setting E R pid L0 signer ixs"
  shows "runtime_ok (sha256 E) R pid" "runtime_exact (sha256 E) R pid" "stores E" "roomy E"
    "inj_on (address (sha256 E) pid) (set (run_names ixs))"
    "refines (sha256 E) E pid (set (run_names ixs)) L0 spec_init"
    "vacant (sha256 E) R pid (set (run_names ixs)) L0"
    "signer \<notin> address (sha256 E) pid ` set (run_names ixs)"
proof -
  have a: "L0 (address (sha256 E) pid x) = blank R \<and> address (sha256 E) pid x \<noteq> signer"
    if "x \<in> set (run_names ixs)" for x using assms that unfolding live_setting_def by blast
  then show "signer \<notin> address (sha256 E) pid ` set (run_names ixs)" by blast
  show "vacant (sha256 E) R pid (set (run_names ixs)) L0" using a unfolding vacant_def by blast
  show "stores E" "roomy E" using assms unfolding live_setting_def by blast+
  show ex: "runtime_exact (sha256 E) R pid" using assms unfolding live_setting_def by blast
  then show "runtime_ok (sha256 E) R pid" by (simp add: runtime_exact_def)
  show "inj_on (address (sha256 E) pid) (set (run_names ixs))"
    by (rule address_inj_on) (use assms in \<open>simp add: live_setting_def address_queries_def\<close>)
  have "program_owner (blank R) \<noteq> pid" using ex by (simp add: runtime_exact_def runtime_ok_def)
  then have "untouched (sha256 E) pid (run_names ixs) L0" using a unfolding untouched_def by metis
  then show "refines (sha256 E) E pid (set (run_names ixs)) L0 spec_init" by (rule refines_start)
qed

lemma live_accepts:
  assumes "live_setting E R pid L0 signer ixs"
  shows "submits E R pid signer L0 ixs \<noteq> None \<longleftrightarrow>
    run_steps (limited_step (sha256 E) pid R) spec_init ixs \<noteq> None"
proof
  assume "submits E R pid signer L0 ixs \<noteq> None"
  then obtain L where "submits E R pid signer L0 ixs = Some L" by blast
  from submits_limited [OF live_parts(1,3) [OF assms] refl live_parts(5,6) [OF assms] subset_refl this]
  show "run_steps (limited_step (sha256 E) pid R) spec_init ixs \<noteq> None" by auto
next
  assume "run_steps (limited_step (sha256 E) pid R) spec_init ixs \<noteq> None"
  then obtain S where "run_steps (limited_step (sha256 E) pid R) spec_init ixs = Some S" by blast
  then have "spec_run (sha256 E) pid spec_init ixs = Some S" "run_within (sha256 E) pid R spec_init ixs"
    by (simp_all add: limited_run)
  from live_submits [OF assms this] show "submits E R pid signer L0 ixs \<noteq> None" by auto
qed

lemma live_subset:
  assumes "live_setting E R pid L0 signer ixs" "set (run_names xs) \<subseteq> set (run_names ixs)"
  shows "live_setting E R pid L0 signer xs"
proof -
  have "collision_free (sha256 E) (address_queries (sha256 E) pid xs)"
    by (rule collision_free_subset [of _ "address_queries (sha256 E) pid ixs"])
      (use assms in \<open>auto simp: live_setting_def address_queries_def\<close>)
  with assms show ?thesis unfolding live_setting_def by blast
qed

lemma about_names: "set (run_names (about ck ixs)) \<subseteq> set (run_names ixs)"
  by (auto simp: run_names_def about_def)

section \<open>What an account shows\<close>

text \<open>Two accounts of the same name that show the same body, or are both not the program's.\<close>

fun same_body :: "spel_env \<Rightarrow> bytes32 \<Rightarrow> account_name \<Rightarrow> account \<Rightarrow> account \<Rightarrow> bool" where
  "same_body E pid (StateOf ck) a b \<longleftrightarrow> (program_owner a = pid \<longleftrightarrow> program_owner b = pid) \<and>
     (program_owner a = pid \<longrightarrow> (\<exists>s. state_from_slice E (acc_data a) = Some s \<and>
        state_from_slice E (acc_data b) = Some s))"
| "same_body E pid (ProposalOf ck i) a b \<longleftrightarrow> (program_owner a = pid \<longleftrightarrow> program_owner b = pid) \<and>
     (program_owner a = pid \<longrightarrow> (\<exists>p. proposal_from_slice E (acc_data a) = Some p \<and>
        proposal_from_slice E (acc_data b) = Some p))"
| "same_body E pid _ a b \<longleftrightarrow> (program_owner a = pid \<longleftrightarrow> program_owner b = pid)"

fun name_key :: "account_name \<Rightarrow> bytes32" where
  "name_key (StateOf ck) = ck"
| "name_key (ProposalOf ck i) = ck"
| "name_key (VaultOf ck) = ck"
| "name_key (NullifierOf ck i nul) = ck"

lemma name_key_of: "x \<in> set (ix_names ix) \<Longrightarrow> name_key x = ix_create_key ix"
  by (cases ix) auto

lemma ballot_determines: "ballot_matches p b \<Longrightarrow> ballot_matches r c \<Longrightarrow> ballot_same b c \<Longrightarrow> p = r"
  by (cases p; cases r)
    (auto simp: ballot_matches_def ballot_same_def word_unat_eq_iff dest: mset_eq_length)

lemma inst_determines: "inst_of s = inst_of t \<Longrightarrow> create_key s = create_key t \<Longrightarrow> s = t"
  by (cases s; cases t) (simp add: inst_of_def word_unat_eq_iff)

lemma same_body_matches:
  assumes "matches E pid S x a" "matches E pid T x b"
    and "sp_inst S (name_key x) = sp_inst T (name_key x)"
    and "\<forall>i. rel_option ballot_same (sp_ballot S (name_key x, i)) (sp_ballot T (name_key x, i))"
    and "name_key x \<in> sp_vaults S \<longleftrightarrow> name_key x \<in> sp_vaults T"
  shows "same_body E pid x a b"
proof (cases x)
  case (StateOf ck)
  with assms(1-3) show ?thesis
    by (cases "sp_inst T ck") (auto dest: inst_determines)
next
  case (ProposalOf ck i)
  have r: "rel_option ballot_same (sp_ballot S (ck, i)) (sp_ballot T (ck, i))"
    using assms(4) ProposalOf by simp
  show ?thesis
  proof (cases "sp_ballot S (ck, i)")
    case (Some c)
    with r obtain d where d: "sp_ballot T (ck, i) = Some d" "ballot_same c d"
      by (cases "sp_ballot T (ck, i)") auto
    with Some assms(1,2) ballot_determines [OF _ _ d(2)] show ?thesis by (auto simp: ProposalOf)
  qed (use r assms(1,2) ProposalOf in auto)
next
  case (NullifierOf ck i nul)
  have "rel_option ballot_same (sp_ballot S (ck, i)) (sp_ballot T (ck, i))"
    using assms(4) NullifierOf by simp
  with assms(1,2) show ?thesis
    by (cases "sp_ballot S (ck, i)"; cases "sp_ballot T (ck, i)")
      (auto simp: NullifierOf ballot_same_def dest: mset_eq_setD)
qed (use assms in auto)

lemma ballot_same_refl: "rel_option ballot_same b b"
  by (cases b) (simp_all add: ballot_same_def)

text \<open>Runs that lead to the same accounts.\<close>

lemma same_set_same_bodies:
  assumes a: "sound_setting E R pid L0 (calls es)" "ledger_run E R pid L0 es L"
    and b: "sound_setting E R' pid K0 (calls fs)" "ledger_run E R' pid K0 fs K"
    and e: "set (calls es) = set (calls fs)" and x: "x \<in> set (run_names (calls es))"
  shows "same_body E pid x (L (address (sha256 E) pid x)) (K (address (sha256 E) pid x))"
proof -
  from setting_refines [OF a subset_refl] obtain S where
    S: "spec_run (sha256 E) pid spec_init (calls es) = Some S"
    and ls: "refines (sha256 E) E pid (set (run_names (calls es))) L S" .
  from setting_refines [OF b subset_refl] obtain T where
    T: "spec_run (sha256 E) pid spec_init (calls fs) = Some T"
    and kt: "refines (sha256 E) E pid (set (run_names (calls fs))) K T" .
  have "set (run_names (calls es)) = set (run_names (calls fs))" using e by (simp add: run_names_def)
  then have "matches E pid S x (L (address (sha256 E) pid x))" "matches E pid T x (K (address (sha256 E) pid x))"
    using refinesD [OF ls] refinesD [OF kt] x by auto
  with run_order [OF S T e] show ?thesis
    by (intro same_body_matches [of E pid S x _ T]) (simp_all add: spec_same_def)
qed

lemma about_same_bodies:
  assumes live: "live_setting E R pid L0 signer ixs"
    and L: "submits E R pid signer L0 ixs = Some L" and M: "submits E R pid signer L0 (about ck ixs) = Some M"
    and x: "x \<in> set (run_names (about ck ixs))"
  shows "same_body E pid x (L (address (sha256 E) pid x)) (M (address (sha256 E) pid x))"
proof -
  note ab = live_subset [OF live about_names, of ck]
  from submits_limited [OF live_parts(1,3) [OF live] refl live_parts(5,6) [OF live] subset_refl L] obtain S
    where S: "run_steps (limited_step (sha256 E) pid R) spec_init ixs = Some S"
      "refines (sha256 E) E pid (set (run_names ixs)) L S" by blast
  from submits_limited [OF live_parts(1,3) [OF ab] refl live_parts(5,6) [OF ab] subset_refl M] obtain T
    where T: "run_steps (limited_step (sha256 E) pid R) spec_init (about ck ixs) = Some T"
      "refines (sha256 E) E pid (set (run_names (about ck ixs))) M T" by blast
  have "agree ck S T" using limited_split.run_projects [OF S(1), of ck] T(1) by (simp add: about_def)
  moreover have "name_key x = ck"
    using x by (auto simp: run_names_def about_def dest: name_key_of)
  moreover have "matches E pid S x (L (address (sha256 E) pid x))"
    "matches E pid T x (M (address (sha256 E) pid x))"
    using refinesD [OF S(2)] refinesD [OF T(2)] x about_names by blast+
  ultimately show ?thesis
    by (intro same_body_matches [of E pid S x _ T]) (simp_all add: agree_def ballot_same_refl)
qed

lemma accepts_split:
  assumes "live_setting E R pid L0 signer ixs"
  shows "submits E R pid signer L0 ixs \<noteq> None \<longleftrightarrow> (\<forall>ck. submits E R pid signer L0 (about ck ixs) \<noteq> None)"
  using live_accepts [OF assms] live_accepts [OF live_subset [OF assms about_names]]
    limited_split.run_iff_split [of "sha256 E" pid R spec_init ixs]
  by (simp add: about_def)

section \<open>An open proposal can be finished\<close>

text \<open>The calls that finish a proposal: the vault if it is missing, fresh votes, execute.\<close>

definition finish_script ::
  "hasher \<Rightarrow> bytes32 \<Rightarrow> instruction list \<Rightarrow> bytes32 \<Rightarrow> u64 \<Rightarrow> bytes32 \<Rightarrow> byte list \<Rightarrow> bytes32 \<Rightarrow>
   bytes32 list \<Rightarrow> instruction list" where
  "finish_script H pid h ck i root action target nuls =
     (if CreateVault ck \<in> set h then [] else [CreateVault ck]) @
     map (\<lambda>nul. Approve ck i nul (to_bytes (vote_inputs H pid ck i root action target nul))) nuls @
     [Execute ck i]"

lemma submits_vacant:
  "runtime_ok (sha256 E) R pid \<Longrightarrow> submits E R pid signer L ixs = Some L' \<Longrightarrow>
   vacant (sha256 E) R pid U L \<Longrightarrow> vacant (sha256 E) R pid U L'"
proof (induction ixs arbitrary: L)
  case (Cons ix ixs)
  then obtain L1 out where s: "submit E R pid L ix (call_ids (sha256 E) pid ix signer) {signer} = Some (L1, out)"
    and "submits E R pid signer L1 ixs = Some L'" by (auto split: option.splits)
  with Cons.IH [OF Cons.prems(1)] vacant_step [OF Cons.prems(1) s Cons.prems(3)] show ?case by blast
qed simp

lemma finish_run:
  assumes S: "spec_run H pid spec_init h = Some S" and c: "CreateMultisig ck root m' n' \<in> set h"
    and p: "Propose ck i action target \<in> set h" and x: "Execute ck i \<notin> set h"
    and n: "distinct nuls" "\<forall>nul \<in> set nuls. \<forall>pi. Approve ck i nul pi \<notin> set h"
    and q: "unat m' \<le> card {nul. \<exists>pi. Approve ck i nul pi \<in> set h} + length nuls"
    and w: "card {nul. \<exists>pi. Approve ck i nul pi \<in> set h} + length nuls < 2 ^ 32"
    and d: "\<forall>nul \<in> set nuls. discharged R APPROVE_CIRCUIT_IMAGE_ID
           (to_bytes (vote_inputs H pid ck i root action target nul))"
  shows "\<exists>S' b. spec_run H pid S (finish_script H pid h ck i root action target nuls) = Some S' \<and>
    run_within H pid R S (finish_script H pid h ck i root action target nuls) \<and>
    sp_ballot S' (ck, i) = Some b \<and> bl_action b = action \<and> bl_target b = target \<and> bl_done b \<and>
    length (bl_votes b) = card {nul. \<exists>pi. Approve ck i nul pi \<in> set h} + length nuls"
proof -
  obtain g where g: "sp_inst S ck = Some g" "ins_root g = root" "ins_m g = unat m'"
    using spec_create_recorded [OF S c] by blast
  obtain b where b: "sp_ballot S (ck, i) = Some b" "bl_action b = action" "bl_target b = target"
    using spec_propose_recorded [OF S p] by blast
  have votes: "set (bl_votes b) = {nul. \<exists>pi. Approve ck i nul pi \<in> set h}"
    "length (bl_votes b) = card {nul. \<exists>pi. Approve ck i nul pi \<in> set h}"
    using spec_votes_eq [OF S b(1)] by simp_all
  have "ballot_origin H pid h ck i (Some g) (Some b)"
    using spec_history [OF S] b(1) g(1) unfolding history_ok_def by metis
  then have "\<not> bl_done b" using x count_list_0_iff [of h "Execute ck i"] by (cases "bl_done b") auto
  let ?vault = "if CreateVault ck \<in> set h then [] else [CreateVault ck]"
  define S1 where "S1 = S\<lparr>sp_vaults := insert ck (sp_vaults S)\<rparr>"
  have v: "sp_vaults S = {ck. CreateVault ck \<in> set h}" by (rule spec_vaults_eq [OF S])
  have r1: "spec_run H pid S ?vault = Some S1" "run_within H pid R S ?vault"
    using g(1) by (auto simp: v S1_def insert_absorb)
  have g1: "sp_inst S1 ck = Some g" "sp_ballot S1 (ck, i) = Some b" "ck \<in> sp_vaults S1"
    using g(1) b(1) by (simp_all add: S1_def)
  let ?votes = "map (\<lambda>nul. Approve ck i nul (to_bytes (vote_inputs H pid ck i root action target nul))) nuls"
  let ?c = "b\<lparr>bl_votes := rev nuls @ bl_votes b\<rparr>"
  define S2 where "S2 = S1\<lparr>sp_ballot := (sp_ballot S1)((ck, i) \<mapsto> ?c)\<rparr>"
  have "set nuls \<inter> set (bl_votes b) = {}" using n(2) votes(1) by blast
  with spec_run_votes [OF g1(2) n(1) _ g1(1), of H pid]
  have r2: "spec_run H pid S1 ?votes = Some S2" by (simp add: g b S2_def)
  have w2: "run_within H pid R S1 ?votes"
    by (rule ballot_votes_within [OF g1(2) _ d]) (use w votes(2) in simp)
  let ?e = "?c\<lparr>bl_done := True\<rparr>"
  define S3 where "S3 = S2\<lparr>sp_ballot := (sp_ballot S2)((ck, i) \<mapsto> ?e)\<rparr>"
  have r3: "spec_run H pid S2 [Execute ck i] = Some S3"
    using g1 g(3) q votes(2) \<open>\<not> bl_done b\<close> by (simp add: S2_def S3_def)
  have "spec_run H pid S (finish_script H pid h ck i root action target nuls) = Some S3"
    by (simp only: finish_script_def spec_run_append r1 r2 r3 bind.bind_lunit)
  moreover have "run_within H pid R S (finish_script H pid h ck i root action target nuls)"
    unfolding finish_script_def run_within_append r1 r2 using r1(2) w2 by simp
  moreover have "sp_ballot S3 (ck, i) = Some ?e" by (simp add: S3_def)
  moreover have "length (bl_votes ?e) = card {nul. \<exists>pi. Approve ck i nul pi \<in> set h} + length nuls"
    using votes(2) by simp
  ultimately show ?thesis using b by (intro exI [of _ ?e] exI conjI) simp_all
qed

text \<open>An open proposal can be finished, with any fresh nullifiers whose receipts are there.\<close>

lemma open_proposal_finishes:
  assumes "ledger_run E R pid L0 es L"
    and "sound_setting E R pid L0 (calls es @ script)" and "runtime_exact (sha256 E) R pid" and "roomy E"
    and "script = finish_script (sha256 E) pid (calls es) ck i root action target nuls"
    and "CreateMultisig ck root m' n' \<in> set (calls es)" and "Propose ck i action target \<in> set (calls es)"
    and "Execute ck i \<notin> set (calls es)"
    and "distinct nuls" and "\<forall>nul \<in> set nuls. \<forall>pi. Approve ck i nul pi \<notin> set (calls es)"
    and "old = card {nul. \<exists>pi. Approve ck i nul pi \<in> set (calls es)}"
    and "unat m' \<le> old + length nuls" and "old + length nuls < 2 ^ 32"
    and "\<forall>nul \<in> set nuls. discharged R APPROVE_CIRCUIT_IMAGE_ID
           (to_bytes (vote_inputs (sha256 E) pid ck i root action target nul))"
    and "vacant (sha256 E) R pid (set (run_names script)) L"
    and "signer \<notin> address (sha256 E) pid ` set (run_names script)"
  shows "\<exists>L' p. submits E R pid signer L script = Some L' \<and>
    proposal_from_slice E (acc_data (L' (address (sha256 E) pid (ProposalOf ck i)))) = Some p \<and>
    executed p \<and> unat (approvals_count p) = old + length nuls \<and> action_bytes p = action \<and>
    target_program p = target"
proof -
  let ?H = "sha256 E" and ?U = "set (run_names script)"
  have sub: "set (run_names (calls es)) \<subseteq> set (run_names (calls es @ script))"
    "?U \<subseteq> set (run_names (calls es @ script))" by (auto simp: run_names_def)
  from setting_refines [OF assms(2,1) sub(1)] obtain S where
    S: "spec_run ?H pid spec_init (calls es) = Some S"
    and ref: "refines ?H E pid (set (run_names (calls es @ script))) L S" .
  from finish_run [OF S assms(6-10), of R] assms(5,11-14) obtain S' b where
    r: "spec_run ?H pid S script = Some S'" "run_within ?H pid R S script"
    and b: "sp_ballot S' (ck, i) = Some b" "bl_action b = action" "bl_target b = target" "bl_done b"
      "length (bl_votes b) = old + length nuls" by metis
  have inj: "inj_on (address ?H pid) ?U" using inj_on_subset [OF setting_inj [OF assms(2)] sub(2)] .
  have "refines ?H E pid ?U L S" using ref sub(2) by (auto simp: refines_def)
  moreover have "stores E" using assms(2) by (simp add: sound_setting_def)
  ultimately obtain L' where l: "submits E R pid signer L script = Some L'" "refines ?H E pid ?U L' S'"
    using run_submits [OF assms(3) refl assms(4) _ inj assms(16) _ assms(15) spec_run_inv [OF S] subset_refl r]
    by blast
  have "ProposalOf ck i \<in> ?U" by (auto simp: assms(5) finish_script_def run_names_def)
  from matches_ballot [OF l(2) this b(1)] obtain p where
    "proposal_from_slice E (acc_data (L' (address ?H pid (ProposalOf ck i)))) = Some p" "ballot_matches p b" .
  with l(1) b show ?thesis by (auto simp: ballot_matches_def)
qed

section \<open>Properties of the chain of calls\<close>

text \<open>Two instances on the sample chain; the other order of the sample's calls.\<close>

definition sample_mixed :: "instruction list" where
  "sample_mixed = [CreateMultisig 9 (merkle_root sample_hash sample_tree) 1 2, CreateMultisig 8 0 1 1,
     CreateVault 9, Propose 9 0 [1] 3, Reject 8, Approve 9 0 sample_nullifier (sample_vote sample_nullifier),
     Execute 9 0]"

definition sample_reordered :: "instruction list" where
  "sample_reordered = [CreateMultisig 9 (merkle_root sample_hash sample_tree) 1 2, Propose 9 0 [1] 3,
     Approve 9 0 sample_nullifier (sample_vote sample_nullifier), CreateVault 9, Execute 9 0]"

lemma sample_address_8:
  "address sample_hash 5 (StateOf 8) = 296624120032539847006161211948366522358490489983414102684550"
  by (simp add: address_def pda_preimage_words sample_hash_2 sample_hash_3 sample_literals)

lemma sample_mixed_names: "set (run_names sample_mixed) = insert (StateOf 8) (set sample_names)"
  by (auto simp: run_names_def sample_mixed_def sample_names_def)

lemma sample_mixed_free:
  "collision_free sample_hash (address_queries sample_hash 5 sample_mixed)"
proof -
  have p: "sample_hash (pda_preimage sample_hash 5 (proposal_seeds 9 0)) =
      296624120032539847006161211948366485997559119174240595899445"
    using sample_addresses(3) by (simp add: address_def)
  have q: "sample_hash (concat (map bytes_of (proposal_seeds 9 0))) =
      7556191893701884112084621553131"
    by (simp add: proposal_seeds_def sample_hash_3 sample_literals literal_index_0)
  have "collision_free sample_hash (concat (map (name_queries sample_hash 5) (StateOf 8 # sample_names)))"
    apply (rule collision_free_subset [OF collision_free_distinct, of _ "[
      pda_preimage sample_hash 5 (name_seeds sample_hash 5 (StateOf 8)),
      concat (map bytes_of (name_seeds sample_hash 5 (StateOf 8))),
      pda_preimage sample_hash 5 (name_seeds sample_hash 5 (StateOf 9)),
      concat (map bytes_of (name_seeds sample_hash 5 (StateOf 9))),
      pda_preimage sample_hash 5 (name_seeds sample_hash 5 (VaultOf 9)),
      concat (map bytes_of (name_seeds sample_hash 5 (VaultOf 9))),
      pda_preimage sample_hash 5 (name_seeds sample_hash 5 (ProposalOf 9 0)),
      concat (map bytes_of (name_seeds sample_hash 5 (ProposalOf 9 0))),
      pda_preimage sample_hash 5 (name_seeds sample_hash 5 (NullifierOf 9 0 sample_nullifier)),
      concat (map bytes_of (name_seeds sample_hash 5 (NullifierOf 9 0 sample_nullifier)))]"])
    subgoal
      using sample_addresses sample_address_nullifier sample_address_8
      by (simp add: address_def [symmetric] del: name_seeds.simps)
        (simp add: p q sample_hash_2 sample_hash_3 sample_literals sample_nullifier)
    subgoal by (auto simp: sample_names_def)
    done
  then show ?thesis
    by (rule collision_free_subset) (auto simp: address_queries_def sample_mixed_names)
qed

lemma sample_mixed_live: "live_setting sample_env sample_chain 5 (\<lambda>_. sample_blank) 1 sample_mixed"
proof -
  have "address sample_hash 5 x \<noteq> 1" if "x \<in> set (run_names sample_mixed)" for x
    using that sample_signer by (auto simp: sample_mixed_names sample_address_8)
  moreover have "blank sample_chain = sample_blank" by (simp add: sample_runtime_def)
  moreover have "runtime_exact sample_hash sample_chain 5" by (rule sample_runtime_exact) simp
  ultimately show ?thesis
    using stores_borsh roomy_borsh sample_mixed_free unfolding live_setting_def by simp
qed

lemma sample_accepted:
  "run_steps (limited_step sample_hash 5 sample_chain) spec_init sample_mixed \<noteq> None"
  "run_steps (limited_step sample_hash 5 sample_chain) spec_init sample_reordered \<noteq> None"
  by (simp_all add: limited_step_def sample_mixed_def sample_reordered_def spec_init_def
      MAX_ACTION_BYTES_LEN_def sample_vote_def sample_runtime_def)

text \<open>
  C14: The chain accepts exactly what the machine allows. On a live chain with untouched accounts,
  a list of calls goes through to its end if and only if the machine of \<open>Multisig_Spec\<close> accepts
  it, every index is below \<open>2 ^ 64 - 1\<close>, no ballot has \<open>2 ^ 32 - 1\<close> votes when another comes in
  and every vote comes with its receipt: the handlers reject nothing else and accept nothing
  else.
\<close>

theorem accepted_exactly:
  assumes "live_setting E R pid L0 signer ixs"
  shows "submits E R pid signer L0 ixs \<noteq> None \<longleftrightarrow>
    spec_run (sha256 E) pid spec_init ixs \<noteq> None \<and> run_within (sha256 E) pid R spec_init ixs"
  unfolding live_accepts [OF assms] by (auto simp: limited_run)

theorem accepted_exactly_witness:
  "submits sample_env sample_chain 5 1 (\<lambda>_. sample_blank) sample_mixed \<noteq> None \<and>
   submits sample_env sample_chain 5 1 (\<lambda>_. sample_blank) (sample_mixed @ [Execute 9 0]) = None"
proof -
  have l: "live_setting sample_env sample_chain 5 (\<lambda>_. sample_blank) 1 (sample_mixed @ [Execute 9 0])"
    by (rule live_subset [OF sample_mixed_live])
      (auto simp: sample_mixed_names run_names_def sample_mixed_def sample_names_def)
  have "spec_run sample_hash 5 spec_init sample_mixed \<noteq> None" "run_within sample_hash 5 sample_chain spec_init sample_mixed"
    using sample_accepted(1) by (auto simp: limited_run)
  moreover have "spec_run sample_hash 5 spec_init (sample_mixed @ [Execute 9 0]) = None"
    by (simp add: sample_mixed_def spec_init_def)
  ultimately show ?thesis
    using accepted_exactly [OF sample_mixed_live] accepted_exactly [OF l] by simp
qed

text \<open>
  C13: Instances do not interfere. On a live chain, calls on any number of instances in any
  interleaving go through if and only if the calls on each instance go through when made
  alone; and then every account that belongs to an instance shows what it shows after that
  instance's calls alone.
\<close>

theorem instances_independent:
  assumes "live_setting E R pid L0 signer ixs"
  shows "(submits E R pid signer L0 ixs \<noteq> None \<longleftrightarrow>
      (\<forall>ck. submits E R pid signer L0 (about ck ixs) \<noteq> None)) \<and>
    (\<forall>ck L M. submits E R pid signer L0 ixs = Some L \<and> submits E R pid signer L0 (about ck ixs) = Some M \<longrightarrow>
      (\<forall>x \<in> set (run_names (about ck ixs)).
         same_body E pid x (L (address (sha256 E) pid x)) (M (address (sha256 E) pid x))))"
  using accepts_split [OF assms] about_same_bodies [OF assms] by blast

theorem instances_independent_witness:
  "\<exists>L M. submits sample_env sample_chain 5 1 (\<lambda>_. sample_blank) sample_mixed = Some L \<and>
     submits sample_env sample_chain 5 1 (\<lambda>_. sample_blank) [CreateMultisig 8 0 1 1, Reject 8] = Some M \<and>
     same_body sample_env 5 (StateOf 8) (L (address sample_hash 5 (StateOf 8))) (M (address sample_hash 5 (StateOf 8)))"
proof -
  have a: "about 8 sample_mixed = [CreateMultisig 8 0 1 1, Reject 8]" by (simp add: sample_mixed_def about_def)
  have "submits sample_env sample_chain 5 1 (\<lambda>_. sample_blank) sample_mixed \<noteq> None"
    using live_accepts [OF sample_mixed_live] sample_accepted(1) by simp
  moreover note instances_independent [OF sample_mixed_live]
  ultimately obtain L M where lm: "submits sample_env sample_chain 5 1 (\<lambda>_. sample_blank) sample_mixed = Some L"
    "submits sample_env sample_chain 5 1 (\<lambda>_. sample_blank) (about 8 sample_mixed) = Some M" by blast
  have "StateOf 8 \<in> set (run_names (about 8 sample_mixed))" by (simp add: a run_names_def)
  with lm have "same_body sample_env 5 (StateOf 8) (L (address sample_hash 5 (StateOf 8)))
      (M (address sample_hash 5 (StateOf 8)))"
    using instances_independent [OF sample_mixed_live] by (metis borsh_env_sel(1))
  with lm a show ?thesis by metis
qed

text \<open>
  C16: Order does not matter. Two runs, with whatever other programs do in between, whose accepted
  calls are the same as sets, leave every account they name with the same body: the order of
  votes, of proposals of different instances, of the vault's creation has no effect.
\<close>

theorem order_irrelevant:
  assumes "sound_setting E R pid L0 (calls es)" and "ledger_run E R pid L0 es L"
    and "sound_setting E R' pid K0 (calls fs)" and "ledger_run E R' pid K0 fs K"
    and "set (calls es) = set (calls fs)" and "x \<in> set (run_names (calls es))"
  shows "same_body E pid x (L (address (sha256 E) pid x)) (K (address (sha256 E) pid x))"
  using assms by (rule same_set_same_bodies)

theorem order_irrelevant_witness:
  "\<exists>es L fs K. ledger_run sample_env sample_chain 5 (\<lambda>_. sample_blank) es L \<and>
     ledger_run sample_env sample_chain 5 (\<lambda>_. sample_blank) fs K \<and>
     calls es = sample_calls \<and> calls fs = sample_reordered \<and>
     same_body sample_env 5 (ProposalOf 9 0) (L (address sample_hash 5 (ProposalOf 9 0)))
       (K (address sample_hash 5 (ProposalOf 9 0)))"
proof -
  have n: "set sample_calls = set sample_reordered"
    by (auto simp: sample_calls_def sample_setup_def sample_reordered_def)
  then have names: "set (run_names sample_reordered) = set sample_names"
    using sample_run_names(2) by (simp add: run_names_def)
  obtain es L where es: "ledger_run sample_env sample_chain 5 (\<lambda>_. sample_blank) es L" "calls es = sample_calls"
    using sample_realized [OF sample_spec_calls(1) sample_run_names(2) sample_spec_calls(2)] .
  obtain S where "spec_run sample_hash 5 spec_init sample_reordered = Some S"
    "run_within sample_hash 5 sample_chain spec_init sample_reordered"
    using sample_accepted(2) by (auto simp: limited_run)
  from sample_realized [OF this(1) names this(2)] obtain fs K where
    fs: "ledger_run sample_env sample_chain 5 (\<lambda>_. sample_blank) fs K" "calls fs = sample_reordered" .
  have "same_body sample_env 5 (ProposalOf 9 0) (L (address sample_hash 5 (ProposalOf 9 0)))
       (K (address sample_hash 5 (ProposalOf 9 0)))"
    by (rule order_irrelevant [where E = sample_env, unfolded borsh_env_sel(1), OF _ es(1) _ fs(1)])
      (simp_all add: es(2) fs(2) sample_setting names sample_run_names(2) n sample_names_def)
  with es fs show ?thesis by blast
qed

end
