(* ===== verification/Bounds.thy ===== *)
theory Bounds
  imports Members Independence
begin

text \<open>
  What the stored bytes are in every reachable ledger: their lengths, their validity as the
  types of \<open>private_multisig_core\<close>, and how far the approval counter can get.
\<close>

text \<open>The bodies that the calls of a run left, and the machine's view of them.\<close>

definition bodies_seen :: "spel_env \<Rightarrow> bytes32 \<Rightarrow> instruction list \<Rightarrow> ledger \<Rightarrow> spec \<Rightarrow> bool" where
  "bodies_seen E pid h L S \<longleftrightarrow>
     (\<forall>ck root m' n'. CreateMultisig ck root m' n' \<in> set h \<longrightarrow>
       (\<exists>s. state_from_slice E (acc_data (L (address (sha256 E) pid (StateOf ck)))) = Some s \<and>
         create_key s = ck \<and> sp_inst S ck = Some (inst_of s))) \<and>
     (\<forall>ck i action target. Propose ck i action target \<in> set h \<longrightarrow>
       (\<exists>s b p. state_from_slice E (acc_data (L (address (sha256 E) pid (StateOf ck)))) = Some s \<and>
         sp_inst S ck = Some (inst_of s) \<and>
         sp_ballot S (ck, i) = Some b \<and> bl_action b = action \<and> bl_target b = target \<and>
         proposal_from_slice E (acc_data (L (address (sha256 E) pid (ProposalOf ck i)))) = Some p \<and>
         ballot_matches p b))"

lemma calls_seen:
  assumes "sound_setting E R pid L0 (calls es)" and "ledger_run E R pid L0 es L"
  obtains S where "spec_run (sha256 E) pid spec_init (calls es) = Some S" "bodies_seen E pid (calls es) L S"
proof -
  from setting_refines [OF assms subset_refl] obtain S where
    h: "spec_run (sha256 E) pid spec_init (calls es) = Some S"
    and ref: "refines (sha256 E) E pid (set (run_names (calls es))) L S" .
  have st: "\<exists>s. state_from_slice E (acc_data (L (address (sha256 E) pid (StateOf ck)))) = Some s \<and>
      create_key s = ck \<and> sp_inst S ck = Some (inst_of s)"
    if "ix \<in> set (calls es)" "StateOf ck \<in> set (ix_names ix)" "sp_inst S ck \<noteq> None" for ix ck
  proof -
    have "StateOf ck \<in> set (run_names (calls es))" using that(1,2) by (auto simp: run_names_def)
    from refinesD [OF ref this] that(3) show ?thesis by auto
  qed
  have "\<exists>s b p. state_from_slice E (acc_data (L (address (sha256 E) pid (StateOf ck)))) = Some s \<and>
       sp_inst S ck = Some (inst_of s) \<and>
       sp_ballot S (ck, i) = Some b \<and> bl_action b = action \<and> bl_target b = target \<and>
       proposal_from_slice E (acc_data (L (address (sha256 E) pid (ProposalOf ck i)))) = Some p \<and>
       ballot_matches p b"
    if p: "Propose ck i action target \<in> set (calls es)" for ck i action target
  proof -
    obtain b where b: "sp_ballot S (ck, i) = Some b" "bl_action b = action" "bl_target b = target"
      using spec_propose_recorded [OF h p] by blast
    then have "sp_inst S ck \<noteq> None" using spec_run_inv [OF h] unfolding spec_inv_def by blast
    moreover have "ProposalOf ck i \<in> set (run_names (calls es))" using p by (force simp: run_names_def)
    from refinesD [OF ref this] b(1) obtain d where
      "proposal_from_slice E (acc_data (L (address (sha256 E) pid (ProposalOf ck i)))) = Some d"
      "ballot_matches d b" by auto
    ultimately show ?thesis using st [OF p] b by auto
  qed
  moreover have "sp_inst S ck \<noteq> None" if "CreateMultisig ck root m' n' \<in> set (calls es)" for ck root m' n'
    using spec_create_recorded [OF h that] by auto
  with st have "\<exists>s. state_from_slice E (acc_data (L (address (sha256 E) pid (StateOf ck)))) = Some s \<and>
         create_key s = ck \<and> sp_inst S ck = Some (inst_of s)"
    if "CreateMultisig ck root m' n' \<in> set (calls es)" for ck root m' n'
    using that by fastforce
  ultimately have "bodies_seen E pid (calls es) L S" unfolding bodies_seen_def by blast
  with that h show thesis by blast
qed

lemma seen_instance:
  assumes "bodies_seen E pid h L S" "CreateMultisig ck root m' n' \<in> set h"
  obtains s where "state_from_slice E (acc_data (L (address (sha256 E) pid (StateOf ck)))) = Some s"
    "create_key s = ck" "sp_inst S ck = Some (inst_of s)"
  using assms unfolding bodies_seen_def by blast

lemma seen_ballot:
  assumes "bodies_seen E pid h L S" "Propose ck i action target \<in> set h"
  obtains s b p where "state_from_slice E (acc_data (L (address (sha256 E) pid (StateOf ck)))) = Some s"
    "sp_inst S ck = Some (inst_of s)" "sp_ballot S (ck, i) = Some b" "bl_action b = action" "bl_target b = target"
    "proposal_from_slice E (acc_data (L (address (sha256 E) pid (ProposalOf ck i)))) = Some p" "ballot_matches p b"
  using assms unfolding bodies_seen_def by blast

text \<open>
  C18: Stored accounts are well typed, byte for byte. With the pinned layout of the bodies, in
  every ledger that a run reaches: the state account of an instance holds exactly the 77 bytes
  of a state that passes \<open>validate\<close> and names its own create key; the account of a proposal
  holds exactly the bytes of a body, at most 4137 of them, whose action passes
  \<open>validate_action_bytes\<close>, whose index is below the instance's count, and which is marked
  executed only with at least \<open>m\<close> approvals.
\<close>

theorem stored_bodies_typed:
  assumes "sound_setting (borsh_env H) R pid L0 (calls es)" and "ledger_run (borsh_env H) R pid L0 es L"
  shows "(\<forall>ck root m' n'. CreateMultisig ck root m' n' \<in> set (calls es) \<longrightarrow>
      (\<exists>s. acc_data (L (address H pid (StateOf ck))) = state_bytes s \<and>
         length (acc_data (L (address H pid (StateOf ck)))) = 77 \<and> create_key s = ck \<and> validate s = Inr ())) \<and>
    (\<forall>ck i action target. Propose ck i action target \<in> set (calls es) \<longrightarrow>
      (\<exists>s p. acc_data (L (address H pid (StateOf ck))) = state_bytes s \<and>
         acc_data (L (address H pid (ProposalOf ck i))) = proposal_bytes p \<and>
         length (acc_data (L (address H pid (ProposalOf ck i)))) = length action + 41 \<and>
         length action + 41 \<le> 4137 \<and> validate_action_bytes (action_bytes p) = Inr () \<and>
         i < proposal_count s \<and> (executed p \<longrightarrow> ucast (st_m s) \<le> approvals_count p)))"
proof -
  from calls_seen [OF assms] obtain S where h: "spec_run H pid spec_init (calls es) = Some S"
    and seen: "bodies_seen (borsh_env H) pid (calls es) L S" by auto
  have inv: "spec_inv S" by (rule spec_run_inv [OF h])
  have "\<exists>s. acc_data (L (address H pid (StateOf ck))) = state_bytes s \<and>
         length (acc_data (L (address H pid (StateOf ck)))) = 77 \<and> create_key s = ck \<and> validate s = Inr ()"
    if c: "CreateMultisig ck root m' n' \<in> set (calls es)" for ck root m' n'
  proof -
    from seen_instance [OF seen c, unfolded borsh_env_sel] obtain s where
      s: "sp_inst S ck = Some (inst_of s)" "parse_state (acc_data (L (address H pid (StateOf ck)))) = Some s"
        "create_key s = ck" .
    have "1 \<le> ins_m (inst_of s) \<and> ins_m (inst_of s) \<le> ins_n (inst_of s)"
      using inv s(1) unfolding spec_inv_def by blast
    then have "1 \<le> unat (st_m s)" "unat (st_m s) \<le> unat (st_n s)" by (simp_all add: inst_of_def)
    then show ?thesis
      using state_bytes_parse [OF s(2)] s(3) length_state_bytes [of s]
      by (intro exI [of _ s]) (simp add: validate_def validate_threshold_ok)
  qed
  moreover have "\<exists>s p. acc_data (L (address H pid (StateOf ck))) = state_bytes s \<and>
         acc_data (L (address H pid (ProposalOf ck i))) = proposal_bytes p \<and>
         length (acc_data (L (address H pid (ProposalOf ck i)))) = length action + 41 \<and>
         length action + 41 \<le> 4137 \<and> validate_action_bytes (action_bytes p) = Inr () \<and>
         i < proposal_count s \<and> (executed p \<longrightarrow> ucast (st_m s) \<le> approvals_count p)"
    if p: "Propose ck i action target \<in> set (calls es)" for ck i action target
  proof -
    from seen_ballot [OF seen p, unfolded borsh_env_sel] obtain s b d where
      s: "sp_inst S ck = Some (inst_of s)" "parse_state (acc_data (L (address H pid (StateOf ck)))) = Some s"
      and b: "sp_ballot S (ck, i) = Some b" "bl_action b = action"
      and d: "parse_proposal (acc_data (L (address H pid (ProposalOf ck i)))) = Some d" "ballot_matches d b" .
    have a: "length action \<le> MAX_ACTION_BYTES_LEN" "unat i < ins_count (inst_of s)"
      "bl_done b \<longrightarrow> ins_m (inst_of s) \<le> length (bl_votes b)"
      using inv s(1) b unfolding spec_inv_def by (metis option.inject)+
    have e: "action_bytes d = action" "unat (approvals_count d) = length (bl_votes b)" "executed d = bl_done b"
      using d(2) b(2) by (simp_all add: ballot_matches_def)
    have "executed d \<longrightarrow> ucast (st_m s) \<le> approvals_count d"
      using a(3) e by (simp add: word_le_nat_alt unat_ucast_u8 inst_of_def)
    moreover have "i < proposal_count s" using a(2) by (simp add: word_less_nat_alt inst_of_def)
    ultimately show ?thesis
      using state_bytes_parse [OF s(2)] proposal_bytes_parse [OF d(1)] length_proposal_bytes [of d] a(1) e(1)
      by (intro exI [of _ s] exI [of _ d]) (auto simp: validate_action_bytes_def MAX_ACTION_BYTES_LEN_def)
  qed
  ultimately show ?thesis by blast
qed

theorem stored_bodies_typed_witness:
  "\<exists>es L s p. ledger_run sample_env sample_chain 5 (\<lambda>_. sample_blank) es L \<and> calls es = sample_calls \<and>
     acc_data (L (address sample_hash 5 (StateOf 9))) = state_bytes s \<and> validate s = Inr () \<and>
     acc_data (L (address sample_hash 5 (ProposalOf 9 0))) = proposal_bytes p \<and>
     length (proposal_bytes p) = 42"
proof -
  from sample_realized [OF sample_spec_calls(1) sample_run_names(2) sample_spec_calls(2)]
  obtain es L where r: "ledger_run sample_env sample_chain 5 (\<lambda>_. sample_blank) es L" "calls es = sample_calls" .
  have set: "sound_setting sample_env sample_chain 5 (\<lambda>_. sample_blank) (calls es)"
    by (rule sample_setting) (simp add: r(2) sample_run_names)
  have m: "CreateMultisig 9 (merkle_root sample_hash sample_tree) 1 2 \<in> set (calls es)"
    "Propose 9 0 [1] 3 \<in> set (calls es)" by (auto simp: r(2) sample_calls_def sample_setup_def)
  note t = stored_bodies_typed [OF set r(1)]
  from t m(1) obtain s where "acc_data (L (address sample_hash 5 (StateOf 9))) = state_bytes s" "validate s = Inr ()"
    by blast
  moreover from t m(2) obtain p where "acc_data (L (address sample_hash 5 (ProposalOf 9 0))) = proposal_bytes p"
    "length (acc_data (L (address sample_hash 5 (ProposalOf 9 0)))) = length [1 :: 8 word] + 41" by blast
  ultimately show ?thesis using r by (intro exI [of _ es] exI [of _ L] exI [of _ s] exI [of _ p]) simp
qed

text \<open>
  C19: Votes never outnumber members. If an instance was created with the root of a tree of
  members, then in every ledger that a run reaches the counter of each of its proposals is at
  most the number of different commitments in the tree, so at most \<open>2 ^ 20\<close>: the overflow
  that \<open>approve\<close> guards against cannot happen. As in C7, receipts come from runs of the
  circuit, and the hash function has no collision among the strings hashed for the votes.
\<close>

theorem votes_bounded_by_members:
  assumes "sound_setting E R pid L0 (calls es)" and "ledger_run E R pid L0 es L"
    and "CreateMultisig ck (merkle_root (sha256 E) t) m' n' \<in> set (calls es)"
    and "Propose ck i action target \<in> set (calls es)"
    and "wf_tree (sha256 E) t" and "extracts E R rd ext"
    and "collision_free (sha256 E) (receipt_queries (sha256 E) rd t ext (calls es))"
  shows "\<exists>p. proposal_from_slice E (acc_data (L (address (sha256 E) pid (ProposalOf ck i)))) = Some p \<and>
    unat (approvals_count p) \<le> card (set (leaves t)) \<and> unat (approvals_count p) \<le> 2 ^ 20 \<and>
    checked_add (approvals_count p) 1 \<noteq> None"
proof -
  have ok: "runtime_ok (sha256 E) R pid" using assms(1) by (simp add: sound_setting_def)
  from calls_seen [OF assms(1,2)] obtain S where
    h: "spec_run (sha256 E) pid spec_init (calls es) = Some S" and seen: "bodies_seen E pid (calls es) L S" .
  from seen_ballot [OF seen assms(4)] obtain s b p where q: "sp_inst S ck = Some (inst_of s)"
    and b: "sp_ballot S (ck, i) = Some b" "bl_action b = action" "bl_target b = target"
    and p: "proposal_from_slice E (acc_data (L (address (sha256 E) pid (ProposalOf ck i)))) = Some p"
      "ballot_matches p b" .
  have root: "ins_root (inst_of s) = merkle_root (sha256 E) t" using spec_create_recorded [OF h assms(3)] q by auto
  have o: "ballot_origin (sha256 E) pid (calls es) ck i (Some (inst_of s)) (Some b)"
    using spec_history [OF h] q b(1) unfolding history_ok_def by metis
  have d: "distinct (bl_votes b)" using spec_run_inv [OF h] b(1) by (auto simp: spec_inv_def)
  have "length (bl_votes b) \<le> card {c \<in> set (leaves t). \<exists>mem pi. c = commitment_bytes (commitment (sha256 E) mem) \<and>
      Approve ck i (identity_nullifier (sha256 E) mem (in_proposal_id
        (vote_inputs (sha256 E) pid ck i (merkle_root (sha256 E) t) action target 0))) pi \<in> set (calls es)}"
    by (rule voters_enrolled [OF ok assms(2,5-7) d]) (use o b root in auto)
  also have "\<dots> \<le> card (set (leaves t))" by (rule card_mono) auto
  finally have c: "unat (approvals_count p) \<le> card (set (leaves t))" using p(2) by (simp add: ballot_matches_def)
  moreover have "card (set (leaves t)) \<le> 2 ^ 20"
    using card_length [of "leaves t"] assms(5) by (simp add: wf_tree_def MAX_LEAVES_def MERKLE_DEPTH_def)
  ultimately have "unat (approvals_count p) \<le> 2 ^ 20" by simp
  then have "checked_add (approvals_count p) 1 \<noteq> None" by (simp add: checked_add_eq_None)
  with p(1) c \<open>unat (approvals_count p) \<le> 2 ^ 20\<close> show ?thesis by blast
qed

theorem votes_bounded_by_members_witness:
  "\<exists>es L p. ledger_run sample_env sample_chain 5 (\<lambda>_. sample_blank) es L \<and> calls es = sample_setup \<and>
     proposal_from_slice sample_env (acc_data (L (address sample_hash 5 (ProposalOf 9 0)))) = Some p \<and>
     unat (approvals_count p) \<le> card (set (leaves sample_tree))"
proof -
  from sample_realized [OF sample_spec_setup(1) sample_run_names(1) sample_spec_setup(2)]
  obtain es L where r: "ledger_run sample_env sample_chain 5 (\<lambda>_. sample_blank) es L" "calls es = sample_setup" .
  obtain ext where e: "extracts sample_env sample_chain sample_reader ext"
    "collision_free sample_hash (receipt_queries sample_hash sample_reader sample_tree ext (calls es))"
    unfolding r(2) by (rule sample_extracts)
  have set: "sound_setting sample_env sample_chain 5 (\<lambda>_. sample_blank) (calls es)"
    by (rule sample_setting) (simp add: r(2) sample_run_names)
  have m: "CreateMultisig 9 (merkle_root sample_hash sample_tree) 1 2 \<in> set (calls es)"
    "Propose 9 0 [1] 3 \<in> set (calls es)" by (auto simp: r(2) sample_setup_def)
  from votes_bounded_by_members [where E = sample_env, unfolded borsh_env_sel(1), OF set r(1) m
      sample_tree(1) e] r show ?thesis by blast
qed

end
