(* ===== verification/Security.thy ===== *)
theory Security
  imports Bounds
begin

text \<open>
  The security statements that cut across the components, for every event of a run: whatever
  call the program makes to another one was decided by a quorum of members, for exactly that
  call; a receipt is good for one vote in one proposal of one deployment; and it makes no
  difference who submits.
\<close>

section \<open>Events in the middle of a run\<close>

lemma setting_prefix:
  assumes "sound_setting E R pid L0 (calls (es @ fs))"
  shows "sound_setting E R pid L0 (calls es)"
proof -
  have "set (address_queries (sha256 E) pid (calls es)) \<subseteq> set (address_queries (sha256 E) pid (calls (es @ fs)))"
    by (auto simp: address_queries_def run_names_def)
  moreover have "set (run_names (calls es)) \<subseteq> set (run_names (calls (es @ fs)))"
    by (auto simp: run_names_def)
  ultimately show ?thesis
    using assms by (auto simp: sound_setting_def untouched_def intro: collision_free_subset)
qed

text \<open>Only \<open>execute\<close> calls another program.\<close>

lemma dispatch_calls:
  assumes "dispatch E ix accts = Some (Inr out)" "chained_calls out \<noteq> []"
  shows "\<exists>ck i. ix = Execute ck i"
  using assms
  by (cases "(E, ix, accts)" rule: dispatch.cases)
    (auto simp: create_multisig_eq_Inr create_vault_eq_Inr propose_eq_Inr approve_eq_Inr reject_eq_Inr
      output_execute_def)

lemma submit_calls:
  assumes "runtime_ok H R pid" "submit E R pid L ix ids signers = Some (L', out)" "chained_calls out \<noteq> []"
  shows "\<exists>ck i. ix = Execute ck i"
  using submit_cases [OF assms(1,2)] dispatch_calls [OF _ assms(3)] by metis

text \<open>One index has one proposal, and the accepted votes carry its public inputs.\<close>

lemma spec_propose_unique:
  assumes "spec_run H pid spec_init h = Some S"
    and "Propose ck i action target \<in> set h" "Propose ck i action' target' \<in> set h"
  shows "action' = action \<and> target' = target"
  using spec_propose_recorded [OF assms(1,2)] spec_propose_recorded [OF assms(1,3)] by auto

lemma spec_vote_inputs:
  assumes S: "spec_run H pid spec_init h = Some S" and a: "Approve ck i nul pi \<in> set h"
    and p: "Propose ck i action target \<in> set h"
  shows "\<exists>root. pi = to_bytes (vote_inputs H pid ck i root action target nul)"
proof -
  from a obtain h1 h2 where h: "h = h1 @ Approve ck i nul pi # h2" by (meson split_list)
  with S obtain S1 S2 where r: "spec_run H pid spec_init h1 = Some S1"
    and x: "spec_step H pid S1 (Approve ck i nul pi) = Some S2"
    by (auto simp: spec_run_append Option.bind_eq_Some_conv simp del: spec_step.simps)
  then obtain q b where b: "sp_inst S1 ck = Some q" "sp_ballot S1 (ck, i) = Some b"
    "pi = to_bytes (vote_inputs H pid ck i (ins_root q) (bl_action b) (bl_target b) nul)"
    by (auto split: option.splits if_splits)
  have "ballot_origin H pid h1 ck i (Some q) (Some b)"
    using spec_history [OF r] b(1,2) unfolding history_ok_def by metis
  then have "Propose ck i (bl_action b) (bl_target b) \<in> set h" by (simp add: h)
  with spec_propose_unique [OF S p] b(3) show ?thesis by metis
qed

section \<open>Every call is a decision of a quorum\<close>

text \<open>
  Every instance was created with the root of a tree of members, and the hash function has no
  collision among the strings hashed for the votes on it.
\<close>

definition over_trees ::
  "hasher \<Rightarrow> reader \<Rightarrow> (byte list \<Rightarrow> byte list) \<Rightarrow> (bytes32 \<Rightarrow> merkle_tree) \<Rightarrow> instruction list \<Rightarrow> bool" where
  "over_trees H rd ext tree h \<longleftrightarrow>
     (\<forall>ck root m' n'. CreateMultisig ck root m' n' \<in> set h \<longrightarrow>
        root = merkle_root H (tree ck) \<and> wf_tree H (tree ck) \<and>
        collision_free H (receipt_queries H rd (tree ck) ext h))"

lemma call_authorised:
  assumes set: "sound_setting E R pid L0 (calls es)" and run: "ledger_run E R pid L0 es L"
    and es: "es = fs @ [Called ix out] @ gs" and c: "c \<in> set (chained_calls out)"
    and tree: "over_trees (sha256 E) rd ext tree (calls es)"
    and ext: "extracts E R rd ext"
  shows "\<exists>ck i m' n' action target v.
    ix = Execute ck i \<and> Execute ck i \<notin> set (calls fs) \<and> chained_calls out = [c] \<and>
    CreateMultisig ck (merkle_root (sha256 E) (tree ck)) m' n' \<in> set (calls fs) \<and> 1 \<le> unat m' \<and>
    Propose ck i action target \<in> set (calls fs) \<and>
    c = \<lparr>call_program = target_program_id target,
         pre_states = [\<lparr>acc = v, is_authorized = True, account_id = address (sha256 E) pid (VaultOf ck)\<rparr>],
         instruction_data = serde_to_vec E action, pda_seeds = [vault_pda_seed E ck]\<rparr> \<and>
    unat m' \<le> card {x \<in> set (leaves (tree ck)). \<exists>mem pi.
      x = commitment_bytes (commitment (sha256 E) mem) \<and>
      Approve ck i (identity_nullifier (sha256 E) mem (in_proposal_id
        (vote_inputs (sha256 E) pid ck i (merkle_root (sha256 E) (tree ck)) action target 0))) pi
        \<in> set (calls fs)}"
proof -
  let ?H = "sha256 E"
  have ok: "runtime_ok ?H R pid" using set by (simp add: sound_setting_def)
  have set': "sound_setting E R pid L0 (calls (fs @ [Called ix out]))"
    using setting_prefix [of E R pid L0 "fs @ [Called ix out]" gs] set by (simp add: es)
  obtain L1 where r: "ledger_run E R pid L0 (fs @ [Called ix out]) L1"
    using ledger_run_prefix [OF run, of "fs @ [Called ix out]" gs] by (auto simp: es)
  from last_call [OF set' r] obtain L2 ids signers S where
    s: "submit E R pid L2 ix ids signers = Some (L1, out)"
    and S: "spec_run ?H pid spec_init (calls fs) = Some S"
    and X: "\<exists>S. spec_run ?H pid spec_init (calls fs @ [ix]) = Some S" by metis
  obtain ck i where ix: "ix = Execute ck i" using submit_calls [OF ok s] c by force
  note set' = set' [unfolded ix] and r = r [unfolded ix]
  from execute_quorum [OF set' r] obtain root m' n' where
    m: "CreateMultisig ck root m' n' \<in> set (calls fs)" "1 \<le> unat m'" by blast
  have "CreateMultisig ck root m' n' \<in> set (calls es)" using m(1) by (simp add: es)
  note all = tree [unfolded over_trees_def, rule_format, OF this]
  have "set (receipt_queries ?H rd (tree ck) ext (calls fs)) \<subseteq> set (receipt_queries ?H rd (tree ck) ext (calls es))"
    by (auto simp: es receipt_queries_def)
  with all have t: "root = merkle_root ?H (tree ck)" "wf_tree ?H (tree ck)"
    "collision_free ?H (receipt_queries ?H rd (tree ck) ext (calls fs))"
    using collision_free_subset by blast+
  from executed_call [OF set' r] obtain action target d v where
    p: "Propose ck i action target \<in> set (calls fs)" and d: "chained_calls out = [d]"
    "call_program d = target_program_id target" "instruction_data d = serde_to_vec E action"
    "pda_seeds d = [vault_pda_seed E ck]"
    "pre_states d = [\<lparr>acc = v, is_authorized = True, account_id = address ?H pid (VaultOf ck)\<rparr>]" by blast
  from members_executed [OF set' r m(1) [unfolded t(1)] t(2) ext t(3)] obtain action' target' where
    "Propose ck i action' target' \<in> set (calls fs)"
    "unat m' \<le> card {x \<in> set (leaves (tree ck)). \<exists>mem pi. x = commitment_bytes (commitment ?H mem) \<and>
      Approve ck i (identity_nullifier ?H mem (in_proposal_id
        (vote_inputs ?H pid ck i (merkle_root ?H (tree ck)) action' target' 0))) pi \<in> set (calls fs)}" by blast
  moreover from this(1) have "action' = action \<and> target' = target" by (rule spec_propose_unique [OF S p])
  moreover have "Execute ck i \<notin> set (calls fs)"
    using X spec_execute_once [of ?H pid "calls fs @ [ix]" _ ck i]
    by (auto simp: ix count_list_snoc count_list_0_iff)
  moreover have "c = d" using c d(1) by simp
  ultimately show ?thesis
    using ix m t(1) p d by (intro exI [of _ ck] exI [of _ i] exI [of _ m'] exI [of _ n'] exI [of _ action]
      exI [of _ target] exI [of _ v]) (simp add: chained_call.equality)
qed

text \<open>
  C2: Every call is a decision of a quorum of members. Take any call \<open>c\<close> to another program that
  any event of a run emits. The event is an \<open>execute\<close>, the first one for its index; \<open>c\<close> is its
  only call, and goes to the program and carries the action that were proposed under that
  index, over the instance's vault alone; and at least \<open>m\<close> different commitments enrolled in
  the instance's tree belong to identities whose nullifiers for exactly this action and
  target were approved before. Receipts come from runs of the circuit, and the hash function
  has no collision among the strings hashed for the votes and addresses of the run.
\<close>

theorem every_call_authorised:
  assumes "sound_setting E R pid L0 (calls es)" and "ledger_run E R pid L0 es L"
    and "es = fs @ [Called ix out] @ gs" and "c \<in> set (chained_calls out)"
    and "over_trees (sha256 E) rd ext tree (calls es)"
    and "extracts E R rd ext"
  shows "\<exists>ck i m' n' action target v.
    ix = Execute ck i \<and> Execute ck i \<notin> set (calls fs) \<and> chained_calls out = [c] \<and>
    CreateMultisig ck (merkle_root (sha256 E) (tree ck)) m' n' \<in> set (calls fs) \<and> 1 \<le> unat m' \<and>
    Propose ck i action target \<in> set (calls fs) \<and>
    c = \<lparr>call_program = target_program_id target,
         pre_states = [\<lparr>acc = v, is_authorized = True, account_id = address (sha256 E) pid (VaultOf ck)\<rparr>],
         instruction_data = serde_to_vec E action, pda_seeds = [vault_pda_seed E ck]\<rparr> \<and>
    unat m' \<le> card {x \<in> set (leaves (tree ck)). \<exists>mem pi.
      x = commitment_bytes (commitment (sha256 E) mem) \<and>
      Approve ck i (identity_nullifier (sha256 E) mem (in_proposal_id
        (vote_inputs (sha256 E) pid ck i (merkle_root (sha256 E) (tree ck)) action target 0))) pi
        \<in> set (calls fs)}"
  using assms by (rule call_authorised)

theorem every_call_authorised_witness:
  "\<exists>es out L c target.
     ledger_run sample_env sample_chain 5 (\<lambda>_. sample_blank) (es @ [Called (Execute 9 0) out]) L \<and>
     chained_calls out = [c] \<and> call_program c = target_program_id target \<and>
     (\<exists>action. Propose 9 0 action target \<in> set (calls es) \<and>
        1 \<le> card {x \<in> set (leaves sample_tree). \<exists>mem pi. x = commitment_bytes (commitment sample_hash mem) \<and>
          Approve 9 0 (identity_nullifier sample_hash mem (in_proposal_id (vote_inputs sample_hash 5 9 0
            (merkle_root sample_hash sample_tree) action target 0))) pi \<in> set (calls es)})"
proof -
  obtain es out L where
    r: "ledger_run sample_env sample_chain 5 (\<lambda>_. sample_blank) (es @ [Called (Execute 9 0) out]) L"
    and c: "calls es = sample_setup" by (rule sample_run)
  obtain ext where e: "extracts sample_env sample_chain sample_reader ext"
    "collision_free sample_hash (receipt_queries sample_hash sample_reader sample_tree ext sample_setup)"
    by (rule sample_extracts)
  note set = sample_last_setting [OF c]
  from executed_call [OF set r] obtain d where d: "chained_calls out = [d]" by blast
  let ?es = "es @ [Called (Execute 9 0) out]"
  have tree: "over_trees sample_hash sample_reader ext (\<lambda>_. sample_tree) (calls ?es)"
    using e(2) sample_tree(1) by (auto simp: over_trees_def c sample_setup_def receipt_queries_def)
  have eq: "?es = es @ [Called (Execute 9 0) out] @ []" and m: "d \<in> set (chained_calls out)"
    using d by simp_all
  from every_call_authorised [where E = sample_env, unfolded borsh_env_sel(1), OF set r eq m tree e(1)]
  obtain ck i and m' :: u8 and action target v where ix: "Execute 9 0 = Execute ck i"
    and x: "1 \<le> unat m'" "Propose ck i action target \<in> set (calls es)"
      "d = \<lparr>call_program = target_program_id target,
         pre_states = [\<lparr>acc = v, is_authorized = True, account_id = address sample_hash 5 (VaultOf ck)\<rparr>],
         instruction_data = serde_to_vec sample_env action, pda_seeds = [vault_pda_seed sample_env ck]\<rparr>"
      "unat m' \<le> card {x \<in> set (leaves sample_tree). \<exists>mem pi. x = commitment_bytes (commitment sample_hash mem) \<and>
          Approve ck i (identity_nullifier sample_hash mem (in_proposal_id (vote_inputs sample_hash 5 ck i
            (merkle_root sample_hash sample_tree) action target 0))) pi \<in> set (calls es)}"
    by (elim exE conjE) (rule that, assumption+)
  have ck: "ck = 9" "i = 0" using ix by simp_all
  have p: "call_program d = target_program_id target" using x(3) by simp
  note x = x [unfolded ck]
  have "1 \<le> card {x \<in> set (leaves sample_tree). \<exists>mem pi. x = commitment_bytes (commitment sample_hash mem) \<and>
          Approve 9 0 (identity_nullifier sample_hash mem (in_proposal_id (vote_inputs sample_hash 5 9 0
            (merkle_root sample_hash sample_tree) action target 0))) pi \<in> set (calls es)}"
    using x(1,4) by (rule order_trans)
  with r d x(2) p show ?thesis by blast
qed

section \<open>A receipt is good for one vote\<close>

text \<open>The strings hashed for the proposal id that a vote refers to.\<close>

definition vote_strings :: "hasher \<Rightarrow> bytes32 \<Rightarrow> bytes32 \<Rightarrow> u64 \<Rightarrow> byte list \<Rightarrow> bytes32 \<Rightarrow> byte list list" where
  "vote_strings H pid ck i action target =
     name_queries H pid (StateOf ck) @
     proposal_queries H (chain_id_from_u64 DEPLOYMENT_CHAIN_ID_U64) (address H pid (StateOf ck)) i action target"

lemma state_address_inject:
  assumes cf: "collision_free H qs"
    and q: "set (name_queries H pid (StateOf ck)) \<subseteq> set qs" "set (name_queries H pid' (StateOf ck')) \<subseteq> set qs"
    and eq: "address H pid (StateOf ck) = address H pid' (StateOf ck')"
  shows "pid = pid' \<and> ck = ck'"
proof -
  let ?s = "name_seeds H pid (StateOf ck)" and ?s' = "name_seeds H pid' (StateOf ck')"
  have "pda_preimage H pid ?s \<in> set qs" "pda_preimage H pid' ?s' \<in> set qs"
    "concat (map bytes_of ?s) \<in> set qs" "concat (map bytes_of ?s') \<in> set qs"
    using q name_queries_in [of H _ "StateOf _"] by blast+
  note in_qs = this
  have "pda_preimage H pid ?s = pda_preimage H pid' ?s'"
    using collision_freeD [OF cf eq [unfolded address_def] in_qs(1,2)] .
  then have p: "pid = pid'" and h: "H (concat (map bytes_of ?s)) = H (concat (map bytes_of ?s'))"
    unfolding pda_preimage_inject by blast+
  have "?s = ?s'"
    using collision_freeD [OF cf h in_qs(3,4)] unfolding concat_bytes_inject .
  then have "ck = ck'" by (simp only: name_seeds.simps list.inject)
  with p show ?thesis by blast
qed

lemma vote_inputs_inject:
  assumes cf: "collision_free H (vote_strings H pid ck i action target @ vote_strings H pid' ck' i' action' target')"
    and eq: "vote_inputs H pid ck i root action target nul = vote_inputs H pid' ck' i' root' action' target' nul'"
  shows "pid = pid' \<and> ck = ck' \<and> i = i' \<and> action = action' \<and> target = target' \<and> nul = nul' \<and> root = root'"
proof -
  have "derive_proposal_id H (chain_id_from_u64 DEPLOYMENT_CHAIN_ID_U64) (address H pid (StateOf ck)) i action target =
      derive_proposal_id H (chain_id_from_u64 DEPLOYMENT_CHAIN_ID_U64) (address H pid' (StateOf ck')) i' action' target'"
    and r: "nul = nul'" "root = root'"
    using eq by (simp_all add: vote_inputs_def)
  moreover have "collision_free H (proposal_queries H (chain_id_from_u64 DEPLOYMENT_CHAIN_ID_U64)
        (address H pid (StateOf ck)) i action target @
      proposal_queries H (chain_id_from_u64 DEPLOYMENT_CHAIN_ID_U64) (address H pid' (StateOf ck')) i' action' target')"
    by (rule collision_free_subset [OF cf]) (auto simp: vote_strings_def)
  ultimately have "address H pid (StateOf ck) = address H pid' (StateOf ck')" "i = i'" "action = action'"
    "target = target'"
    by (simp_all add: derive_proposal_id_inject)
  moreover have "pid = pid' \<and> ck = ck'"
    by (rule state_address_inject [OF cf _ _ calculation(1)]) (auto simp: vote_strings_def)
  ultimately show ?thesis using r by blast
qed

lemma spec_vote_count:
  "spec_run H pid spec_init h = Some S \<Longrightarrow> count_list h (Approve ck i nul pi) \<le> 1"
proof (induction h arbitrary: S rule: rev_induct)
  case (snoc ix h)
  then have r: "\<exists>S. spec_run H pid spec_init h = Some S" by (auto simp: spec_run_snoc)
  show ?case
  proof (cases "ix = Approve ck i nul pi")
    case True
    with snoc.prems have "Approve ck i nul pi \<notin> set h" by (auto dest: spec_no_double_vote)
    then show ?thesis by (simp add: count_list_snoc count_list_0_iff)
  qed (use r snoc.IH in \<open>auto simp: count_list_snoc\<close>)
qed simp

text \<open>
  C6: A receipt counts once, anywhere. Take two runs, on any ledgers, of the program deployed
  under any two ids, and an accepted approval in each that carries the same public inputs.
  Then it is the same approval: the program id, the instance, the index, the proposed action
  and target and the nullifier agree, and the call occurs once in the run, unless the hash
  function collides on the (at most ten) strings hashed for the two proposal ids. So a
  receipt cannot be replayed for another proposal, instance or deployment, nor twice.
\<close>

theorem receipt_counts_once:
  assumes "ledger_run E R pid L0 es L" and "sound_setting E R pid L0 (calls es)"
    and "ledger_run E' R' pid' K0 fs K" and "sound_setting E' R' pid' K0 (calls fs)"
    and "sha256 E' = sha256 E"
    and "Propose ck i action target \<in> set (calls es)" and "Approve ck i nul pi \<in> set (calls es)"
    and "Propose ck' i' action' target' \<in> set (calls fs)" and "Approve ck' i' nul' pi \<in> set (calls fs)"
    and "collision_free (sha256 E) (vote_strings (sha256 E) pid ck i action target @
           vote_strings (sha256 E) pid' ck' i' action' target')"
  shows "pid = pid' \<and> ck = ck' \<and> i = i' \<and> action = action' \<and> target = target' \<and> nul = nul' \<and>
    count_list (calls es) (Approve ck i nul pi) = 1 \<and> count_list (calls fs) (Approve ck i nul pi) = 1"
proof -
  let ?H = "sha256 E"
  from setting_refines [OF assms(2,1) subset_refl] obtain S where
    S: "spec_run ?H pid spec_init (calls es) = Some S" .
  from setting_refines [OF assms(4,3) subset_refl] obtain T where
    T: "spec_run ?H pid' spec_init (calls fs) = Some T" unfolding assms(5) .
  obtain root root' where "pi = to_bytes (vote_inputs ?H pid ck i root action target nul)"
    "pi = to_bytes (vote_inputs ?H pid' ck' i' root' action' target' nul')"
    using spec_vote_inputs [OF S assms(7,6)] spec_vote_inputs [OF T assms(9,8)] by blast
  then have "vote_inputs ?H pid ck i root action target nul = vote_inputs ?H pid' ck' i' root' action' target' nul'"
    using inputs_codec.enc_inject by auto
  note same = vote_inputs_inject [OF assms(10) this]
  have "count_list (calls es) (Approve ck i nul pi) = 1" if "Approve ck i nul pi \<in> set (calls es)"
    using spec_vote_count [OF S, of ck i nul pi] that count_list_0_iff
    by (metis One_nat_def le_Suc_eq le_zero_eq)
  moreover have "count_list (calls fs) (Approve ck i nul pi) = 1" if "Approve ck i nul pi \<in> set (calls fs)"
    using spec_vote_count [OF T, of ck i nul pi] that count_list_0_iff
    by (metis One_nat_def le_Suc_eq le_zero_eq)
  ultimately show ?thesis using same assms(7,9) by simp
qed

theorem receipt_counts_once_witness:
  "\<exists>es L. ledger_run sample_env sample_chain 5 (\<lambda>_. sample_blank) es L \<and>
     count_list (calls es) (Approve 9 0 sample_nullifier (sample_vote sample_nullifier)) = 1"
proof -
  obtain es out L where
    r: "ledger_run sample_env sample_chain 5 (\<lambda>_. sample_blank) (es @ [Called (Execute 9 0) out]) L"
    and c: "calls es = sample_setup" by (rule sample_run)
  let ?es = "es @ [Called (Execute 9 0) out]"
  let ?s = "address sample_hash 5 (StateOf 9)"
  have p: "Propose 9 0 [1] 3 \<in> set (calls ?es)"
    "Approve 9 0 sample_nullifier (sample_vote sample_nullifier) \<in> set (calls ?es)"
    by (simp_all add: c sample_setup_def)
  have "map sample_hash (vote_strings sample_hash 5 9 0 [1] 3) =
      [?s, sample_hash (concat (map bytes_of (name_seeds sample_hash 5 (StateOf 9)))), sample_hash [1],
       sample_hash (bytes_of 3), derive_proposal_id sample_hash (chain_id_from_u64 DEPLOYMENT_CHAIN_ID_U64) ?s 0 [1] 3]"
    by (simp add: vote_strings_def proposal_queries_def address_def derive_proposal_id_def)
  moreover have "distinct \<dots>"
    by (simp add: sample_proposal_id sample_addresses sample_hash_1 sample_hash_2 sample_hash_byte
        sample_literals DEPLOYMENT_CHAIN_ID_U64_def)
  ultimately have "collision_free sample_hash (vote_strings sample_hash 5 9 0 [1] 3)"
    by (intro collision_free_distinct) (simp only:)
  then have q: "collision_free (sha256 sample_env) (vote_strings (sha256 sample_env) 5 9 0 [1] 3 @
      vote_strings (sha256 sample_env) 5 9 0 [1] 3)"
    by (auto simp: collision_free_def)
  from receipt_counts_once [OF r sample_last_setting [OF c] r sample_last_setting [OF c] refl p p q] r
  show ?thesis by blast
qed

section \<open>The submitter does not matter\<close>

lemma signers_agree:
  assumes a: "live_setting E R pid L0 a ixs" and b: "live_setting E R pid L0 b ixs"
  shows "submits E R pid a L0 ixs \<noteq> None \<longleftrightarrow> submits E R pid b L0 ixs \<noteq> None"
  using live_accepts [OF a] live_accepts [OF b] by blast

lemma live_sound:
  assumes live: "live_setting E R pid L0 signer ixs" shows "sound_setting E R pid L0 ixs"
proof -
  have "program_owner (blank R) \<noteq> pid"
    using live_parts(1) [OF live] by (simp add: runtime_ok_def)
  with live have "untouched (sha256 E) pid (run_names ixs) L0"
    unfolding live_setting_def untouched_def by metis
  moreover have "collision_free (sha256 E) (address_queries (sha256 E) pid ixs)"
    using live by (simp add: live_setting_def)
  ultimately show ?thesis
    using live_parts(1,3) [OF live] by (simp add: sound_setting_def)
qed

text \<open>
  C17: It does not matter who submits. On a live chain, a list of calls signed by one submitter goes
  through exactly when it goes through signed by any other, and every account it names then
  shows the same body: no handler gives its signer a role, so any relayer can submit a
  member's approval.
\<close>

theorem submitter_irrelevant:
  assumes "live_setting E R pid L0 a ixs" and "live_setting E R pid L0 b ixs"
  shows "(submits E R pid a L0 ixs = None \<longleftrightarrow> submits E R pid b L0 ixs = None) \<and>
    (\<forall>L M x. submits E R pid a L0 ixs = Some L \<longrightarrow> submits E R pid b L0 ixs = Some M \<longrightarrow>
       x \<in> set (run_names ixs) \<longrightarrow>
       same_body E pid x (L (address (sha256 E) pid x)) (M (address (sha256 E) pid x)))"
proof (intro conjI allI impI)
  show "submits E R pid a L0 ixs = None \<longleftrightarrow> submits E R pid b L0 ixs = None"
    using signers_agree [OF assms] by blast
  fix L M x
  assume L: "submits E R pid a L0 ixs = Some L" and M: "submits E R pid b L0 ixs = Some M"
    and x: "x \<in> set (run_names ixs)"
  obtain es fs where es: "ledger_run E R pid L0 es L" "calls es = ixs"
    and fs: "ledger_run E R pid L0 fs M" "calls fs = ixs"
    using submits_run [OF L] submits_run [OF M] by blast
  show "same_body E pid x (L (address (sha256 E) pid x)) (M (address (sha256 E) pid x))"
    by (rule same_set_same_bodies [OF live_sound [OF assms(1), folded es(2)] es(1)
        live_sound [OF assms(2), folded fs(2)] fs(1)])
      (simp_all add: es(2) fs(2) x)
qed

theorem submitter_irrelevant_witness:
  "\<exists>L M. submits sample_env sample_chain 5 1 (\<lambda>_. sample_blank) sample_mixed = Some L \<and>
     submits sample_env sample_chain 5 2 (\<lambda>_. sample_blank) sample_mixed = Some M \<and>
     same_body sample_env 5 (ProposalOf 9 0) (L (address sample_hash 5 (ProposalOf 9 0)))
       (M (address sample_hash 5 (ProposalOf 9 0)))"
proof -
  have "address sample_hash 5 x \<noteq> 2" if "x \<in> set (run_names sample_mixed)" for x
    using that sample_address_nullifier
    by (auto simp: sample_mixed_names sample_names_def sample_addresses sample_address_8)
  then have b: "live_setting sample_env sample_chain 5 (\<lambda>_. sample_blank) 2 sample_mixed"
    using sample_mixed_live unfolding live_setting_def by simp
  note s = submitter_irrelevant [OF sample_mixed_live b, unfolded borsh_env_sel(1)]
  have "submits sample_env sample_chain 5 1 (\<lambda>_. sample_blank) sample_mixed \<noteq> None"
    using live_accepts [OF sample_mixed_live] sample_accepted(1) by simp
  with s obtain L M where lm: "submits sample_env sample_chain 5 1 (\<lambda>_. sample_blank) sample_mixed = Some L"
    "submits sample_env sample_chain 5 2 (\<lambda>_. sample_blank) sample_mixed = Some M" by blast
  moreover have "ProposalOf 9 0 \<in> set (run_names sample_mixed)"
    by (simp add: sample_mixed_names sample_names_def)
  ultimately show ?thesis using s by blast
qed

end
