(* ===== verification/Privacy.thy ===== *)
theory Privacy
  imports Security
begin

text \<open>
  What the chain discloses about who voted: nothing but that the voters are enrolled. With the
  hash function seen as a random one, any other attribution of the votes to keys, chosen
  for each proposal anew, is explained by an equally likely hash function under which
  everything public, from the tree to the accounts on the ledger, is the same.
\<close>

section \<open>Exchanging the keys in nullifiers\<close>

text \<open>
  \<open>g q\<close> says which key takes the place of a key for the proposal id \<open>q\<close>. A nullifier is the
  hash of the 64 bytes \<open>sk || q\<close>, so exchanging keys there is a permutation of strings, and a hash
  function after it is again a hash function.
\<close>

definition relabel_string :: "(bytes32 \<Rightarrow> bytes32 \<Rightarrow> bytes32) \<Rightarrow> byte list \<Rightarrow> byte list" where
  "relabel_string g s =
     (if length s = 64 then nullifier_preimage (g (array32 (drop 32 s)) (array32 (take 32 s))) (array32 (drop 32 s))
      else s)"

definition relabel :: "(bytes32 \<Rightarrow> bytes32 \<Rightarrow> bytes32) \<Rightarrow> hasher \<Rightarrow> hasher" where
  "relabel g H s = H (relabel_string g s)"

lemma relabel_string_pair [simp]:
  "relabel_string g (bytes_of a @ bytes_of q) = bytes_of (g q a) @ bytes_of q"
  by (simp add: relabel_string_def nullifier_preimage_def)

lemma relabel_string_other: "length s \<noteq> 64 \<Longrightarrow> relabel_string g s = s"
  by (simp add: relabel_string_def)

lemma relabel_other: "length s \<noteq> 64 \<Longrightarrow> relabel g H s = H s"
  by (simp add: relabel_def relabel_string_other)

lemma relabel_pair: "relabel g H (bytes_of a @ bytes_of q) = H (bytes_of (g q a) @ bytes_of q)"
  by (simp add: relabel_def)

lemma pair_of_64:
  assumes "length s = 64" shows "s = bytes_of (array32 (take 32 s)) @ bytes_of (array32 (drop 32 s))"
  using assms by simp

lemma relabel_string_bij:
  assumes "\<forall>q. bij (g q)" shows "bij (relabel_string g)"
proof (rule o_bij)
  let ?r = "\<lambda>q. inv (g q)"
  have i: "inv (g q) (g q a) = a" "g q (inv (g q) a) = a" for q a
    using assms by (simp_all add: bij_is_inj bij_is_surj inv_f_f surj_f_inv_f)
  have c: "relabel_string f (relabel_string h s) = s" if "\<And>q a. f q (h q a) = a" for f h s
  proof (cases "length s = 64")
    case True
    from pair_of_64 [OF this] show ?thesis using that relabel_string_pair by metis
  qed (simp add: relabel_string_other)
  show "relabel_string ?r \<circ> relabel_string g = id" "relabel_string g \<circ> relabel_string ?r = id"
    using c [of ?r g] c [of g ?r] i by (simp_all add: fun_eq_iff)
qed

lemma relabel_nullifier: "identity_nullifier (relabel g H) i q = nullifier H (g q (sk i)) q"
  by (simp add: identity_nullifier_def nullifier_def nullifier_preimage_def relabel_pair)

section \<open>The tree and the members\<close>

lemma relabel_leaf [simp]: "hash_leaf (relabel g H) a = hash_leaf H a"
  by (simp add: hash_leaf_def relabel_other length_leaf_preimage HASH_LEN_def)

lemma relabel_node [simp]: "hash_node (relabel g H) a b = hash_node H a b"
  by (simp add: hash_node_def relabel_other length_node_preimage HASH_LEN_def)

lemma relabel_node_at: "node_at (relabel g H) t l pos = node_at H t l pos"
  by (induction l arbitrary: pos) (simp_all add: Let_def)

lemma relabel_root [simp]: "merkle_root (relabel g H) t = merkle_root H t"
  by (simp add: merkle_root_def relabel_node_at)

lemma relabel_step: "verify_step (relabel g H) p = verify_step H p"
  by (simp add: fun_eq_iff verify_step_def Let_def)

lemma relabel_verify [simp]: "verify_proof (relabel g H) root leaf p = verify_proof H root leaf p"
  by (simp add: verify_proof_def relabel_step)

lemma relabel_wf: "zero_hashes (merkle_new (relabel g H)) = zero_hashes (merkle_new H)"
proof -
  have "zero_node (relabel g H) l = zero_node H l" for l by (induction l) simp_all
  then show ?thesis by (simp add: zero_hashes_new)
qed

lemma relabel_commitment: "g (salt i) (sk i) = sk i \<Longrightarrow> commitment (relabel g H) i = commitment H i"
  by (simp add: commitment_def commitment_preimage_def relabel_pair)

text \<open>The journals that a member's witnesses give, when its commitment is in the tree.\<close>

lemma enrolled_journal:
  assumes rd: "slice_reader rd" and t: "wf_tree H t"
    and i: "commitment_bytes (commitment H i) \<in> set (leaves t)" "commitment_bytes (commitment H i) \<noteq> 0"
  shows "(\<exists>p. wf_proof p \<and> approve_circuit H rd (pack_approve_witness i p (merkle_root H t) q) = Some j) \<longleftrightarrow>
    j = to_bytes \<lparr>in_members_root = merkle_root H t, in_proposal_id = q, in_nullifier = identity_nullifier H i q\<rparr>"
    (is "_ \<longleftrightarrow> j = to_bytes ?b")
proof
  assume "\<exists>p. wf_proof p \<and> approve_circuit H rd (pack_approve_witness i p (merkle_root H t) q) = Some j"
  then obtain p where p: "wf_proof p"
    "approve_circuit H rd (pack_approve_witness i p (merkle_root H t) q) = Some j" by blast
  then show "j = to_bytes ?b"
    using read_pack [OF rd p(1), of i "merkle_root H t" q "[]"]
    by (simp add: approve_circuit_def commit_approval_eq_Some witness_of_def identity_nullifier_def)
next
  assume j: "j = to_bytes ?b"
  from i obtain k where "k < length (leaves t)" "leaves t ! k = commitment_bytes (commitment H i)"
    by (auto simp: in_set_conv_nth)
  with prove_verifies [OF t, of k] i(2) obtain p where "wf_proof p"
    "verify_proof H (merkle_root H t) (commitment_bytes (commitment H i)) p" by metis
  with approves_circuit [OF rd, of H ?b i p] j
  show "\<exists>p. wf_proof p \<and> approve_circuit H rd (pack_approve_witness i p (merkle_root H t) q) = Some j"
    by (auto simp: approves_def identity_nullifier_def)
qed

section \<open>The chain\<close>

text \<open>
  The exchange leaves alone the other strings of 64 bytes that are hashed: the seeds of an
  instance's state and vault, a proposal's action if it has that length, and the keys and
  salts of the members.
\<close>

definition keeps_public :: "(bytes32 \<Rightarrow> bytes32 \<Rightarrow> bytes32) \<Rightarrow> instruction list \<Rightarrow> identity set \<Rightarrow> bool" where
  "keeps_public g h roster \<longleftrightarrow>
     (\<forall>ix \<in> set h. g (ix_create_key ix) (literal_seed SEED_MULTISIG_STATE) = literal_seed SEED_MULTISIG_STATE \<and>
        g (ix_create_key ix) (literal_seed SEED_VAULT) = literal_seed SEED_VAULT) \<and>
     (\<forall>ck i action target. Propose ck i action target \<in> set h \<longrightarrow> relabel_string g action = action) \<and>
     (\<forall>mem \<in> roster. g (salt mem) (sk mem) = sk mem)"

definition keeps_key :: "(bytes32 \<Rightarrow> bytes32 \<Rightarrow> bytes32) \<Rightarrow> bytes32 \<Rightarrow> bool" where
  "keeps_key g ck \<longleftrightarrow> g ck (literal_seed SEED_MULTISIG_STATE) = literal_seed SEED_MULTISIG_STATE \<and>
     g ck (literal_seed SEED_VAULT) = literal_seed SEED_VAULT"

lemma relabel_pda [simp]: "relabel g H (pda_preimage K pid seeds) = H (pda_preimage K pid seeds)"
  by (simp add: pda_preimage_def relabel_other length_prefix)

lemma relabel_seeds:
  "keeps_key g (name_key x) \<Longrightarrow>
   relabel g H (concat (map bytes_of (name_seeds K pid x))) = H (concat (map bytes_of (name_seeds K pid x)))"
  by (cases x) (simp_all add: keeps_key_def relabel_pair relabel_other proposal_seeds_def)

lemma relabel_pda_preimage:
  "relabel g H (concat (map bytes_of xs)) = H (concat (map bytes_of xs)) \<Longrightarrow>
   pda_preimage (relabel g H) pid xs = pda_preimage H pid xs"
  by (simp add: pda_preimage_def)

lemma relabel_proposal_seeds:
  "relabel g H (concat (map bytes_of (proposal_seeds ck i))) = H (concat (map bytes_of (proposal_seeds ck i)))"
  by (simp add: proposal_seeds_def relabel_other)

lemma relabel_name_seeds: "name_seeds (relabel g H) pid x = name_seeds H pid x"
  by (cases x) (simp_all add: relabel_pda_preimage relabel_proposal_seeds)

lemma relabel_name_queries:
  "keeps_key g (name_key x) \<Longrightarrow> name_queries (relabel g H) pid x = name_queries H pid x"
  using relabel_seeds [of g x H H pid]
  by (cases x) (simp_all add: relabel_pda_preimage relabel_proposal_seeds del: name_seeds.simps
      add: relabel_name_seeds)

lemma relabel_address: "keeps_key g (name_key x) \<Longrightarrow> address (relabel g H) pid x = address H pid x"
  by (simp add: address_def relabel_name_seeds relabel_pda_preimage relabel_seeds)

lemma relabel_query:
  assumes "keeps_key g (name_key x)" "s \<in> set (name_queries H pid x)" shows "relabel g H s = H s"
  using assms relabel_seeds [OF assms(1), of H H pid] relabel_proposal_seeds [of g H]
  by (cases x) (auto simp del: name_seeds.simps)

lemma relabel_vote_inputs:
  assumes "keeps_key g ck" "relabel_string g action = action"
  shows "vote_inputs (relabel g H) pid ck i root action target nul = vote_inputs H pid ck i root action target nul"
  using assms relabel_address [of g "StateOf ck" H pid]
  by (simp add: vote_inputs_def derive_proposal_id_def proposal_id_preimage_def Let_def relabel_other)
    (simp add: relabel_def)

text \<open>The abstract machine makes the same steps.\<close>

definition keeps_spec :: "(bytes32 \<Rightarrow> bytes32 \<Rightarrow> bytes32) \<Rightarrow> spec \<Rightarrow> bool" where
  "keeps_spec g S \<longleftrightarrow> (\<forall>ck i b. sp_ballot S (ck, i) = Some b \<longrightarrow> relabel_string g (bl_action b) = bl_action b)"

lemma relabel_spec_step:
  assumes "keeps_spec g S" "keeps_key g (ix_create_key ix)"
  shows "spec_step (relabel g H) pid S ix = spec_step H pid S ix"
  using assms relabel_vote_inputs [of g]
  by (cases ix) (auto simp: keeps_spec_def split: option.splits)

lemma keeps_spec_step:
  assumes "keeps_spec g S" "spec_step H pid S ix = Some S'"
    and "\<forall>ck i action target. ix = Propose ck i action target \<longrightarrow> relabel_string g action = action"
  shows "keeps_spec g S'"
  using assms by (cases ix) (auto simp: keeps_spec_def split: option.splits if_splits)

lemma relabel_run:
  assumes "discharged R' = discharged R"
  shows "keeps_spec g S \<Longrightarrow> keeps_public g h roster \<Longrightarrow>
    run_steps (limited_step (relabel g H) pid R') S h = run_steps (limited_step H pid R) S h"
proof (induction h arbitrary: S)
  case (Cons ix h)
  have k: "keeps_key g (ix_create_key ix)" "keeps_public g h roster"
    "\<forall>ck i action target. ix = Propose ck i action target \<longrightarrow> relabel_string g action = action"
    using Cons.prems(2) by (auto simp: keeps_public_def keeps_key_def)
  have "within_limits R' S ix = within_limits R S ix" by (cases ix) (simp_all add: assms)
  then have e: "limited_step (relabel g H) pid R' S ix = limited_step H pid R S ix"
    by (simp add: limited_step_def relabel_spec_step [OF Cons.prems(1) k(1)])
  show ?case
  proof (cases "limited_step H pid R S ix")
    case (Some S1)
    then have "spec_step H pid S ix = Some S1" by (simp add: limited_step_def split: if_splits)
    from Cons.IH [OF keeps_spec_step [OF Cons.prems(1) this k(3)] k(2)] show ?thesis by (simp add: e Some)
  qed (simp add: e)
qed simp

lemma run_name_keeps:
  assumes "keeps_public g h roster" "x \<in> set (run_names h)" shows "keeps_key g (name_key x)"
proof -
  from assms(2) obtain ix where "ix \<in> set h" "x \<in> set (ix_names ix)" by (auto simp: run_names_def)
  with assms(1) name_key_of show ?thesis by (auto simp: keeps_public_def keeps_key_def)
qed

lemma matches_sha [simp]: "matches (E\<lparr>sha256 := H'\<rparr>) pid S x a = matches E pid S x a"
  by (cases x) (simp_all split: option.split)

lemma sha_storage: "stores (E\<lparr>sha256 := H'\<rparr>) = stores E" "roomy (E\<lparr>sha256 := H'\<rparr>) = roomy E"
  by (simp_all add: stores_def roomy_def encode_state_def encode_proposal_def)

lemma relabel_live:
  assumes live: "live_setting E R pid L0 signer ixs" and k: "keeps_public g ixs roster"
    and R: "runtime_exact (relabel g (sha256 E)) R' pid" "blank R' = blank R"
  shows "live_setting (E\<lparr>sha256 := relabel g (sha256 E)\<rparr>) R' pid L0 signer ixs"
proof -
  let ?H = "sha256 E" and ?H' = "relabel g (sha256 E)"
  have q: "address_queries ?H' pid ixs = address_queries ?H pid ixs"
    using relabel_name_queries run_name_keeps [OF k] by (auto simp: address_queries_def intro!: arg_cong [of _ _ concat])
  have "?H' s = ?H s" if "s \<in> set (address_queries ?H pid ixs)" for s
    using that by (auto simp: address_queries_def intro: relabel_query [OF run_name_keeps [OF k]])
  moreover have "collision_free ?H (address_queries ?H pid ixs)" using live by (simp add: live_setting_def)
  ultimately have "collision_free ?H' (address_queries ?H' pid ixs)"
    unfolding q collision_free_def by metis
  moreover have "\<forall>x \<in> set (run_names ixs). address ?H' pid x = address ?H pid x"
    using relabel_address run_name_keeps [OF k] by blast
  ultimately show ?thesis using live R by (simp add: live_setting_def sha_storage)
qed

lemma relabel_accounts:
  assumes a: "live_setting E R pid L0 signer ixs" and k: "keeps_public g ixs roster"
    and R: "runtime_exact (relabel g (sha256 E)) R' pid" "blank R' = blank R" "discharged R' = discharged R"
  defines "E' \<equiv> E\<lparr>sha256 := relabel g (sha256 E)\<rparr>"
  shows "submits E R pid signer L0 ixs \<noteq> None \<longleftrightarrow> submits E' R' pid signer L0 ixs \<noteq> None"
    and "submits E R pid signer L0 ixs = Some L \<Longrightarrow> submits E' R' pid signer L0 ixs = Some M \<Longrightarrow>
      x \<in> set (run_names ixs) \<Longrightarrow> same_body E pid x (L (address (sha256 E) pid x)) (M (address (sha256 E) pid x))"
proof -
  have b: "live_setting E' R' pid L0 signer ixs" unfolding E'_def by (rule relabel_live [OF a k R(1,2)])
  have H: "sha256 E' = relabel g (sha256 E)" by (simp add: E'_def)
  have "keeps_spec g spec_init" by (simp add: keeps_spec_def spec_init_def)
  note run = relabel_run [OF R(3) this k, of "sha256 E" pid]
  show "submits E R pid signer L0 ixs \<noteq> None \<longleftrightarrow> submits E' R' pid signer L0 ixs \<noteq> None"
    using live_accepts [OF a] live_accepts [OF b] by (simp only: H run)
  assume L: "submits E R pid signer L0 ixs = Some L" and M: "submits E' R' pid signer L0 ixs = Some M"
    and x: "x \<in> set (run_names ixs)"
  from submits_limited [OF live_parts(1,3) [OF a] refl live_parts(5,6) [OF a] subset_refl L] obtain S where
    S: "run_steps (limited_step (sha256 E) pid R) spec_init ixs = Some S"
      "refines (sha256 E) E pid (set (run_names ixs)) L S" by blast
  from submits_limited [OF live_parts(1,3) [OF b] refl live_parts(5,6) [OF b] subset_refl M] obtain T where
    T: "run_steps (limited_step (sha256 E') pid R') spec_init ixs = Some T"
      "refines (sha256 E') E' pid (set (run_names ixs)) M T" by blast
  have "T = S" using S(1) T(1) by (simp add: H run)
  with refinesD [OF S(2) x] refinesD [OF T(2) x] relabel_address [OF run_name_keeps [OF k x], of "sha256 E" pid]
  have "matches E pid S x (L (address (sha256 E) pid x))" "matches E pid S x (M (address (sha256 E) pid x))"
    by (simp_all add: H) (simp add: E'_def)
  then show "same_body E pid x (L (address (sha256 E) pid x)) (M (address (sha256 E) pid x))"
    by (intro same_body_matches [of E pid S x _ S]) (simp_all add: ballot_same_refl)
qed

section \<open>Votes cannot be attributed\<close>

text \<open>
  C9: Votes cannot be attributed to members, nor votes on different proposals to the same member.
  Let \<open>g\<close> assign, for each proposal id anew, any permutation of keys that leaves alone the
  other 64-byte strings hashed. Then \<open>H \<circ> \<pi>\<close>, for a permutation \<open>\<pi>\<close> of strings, is a hash function
  under which the commitments of the members and the roots of all trees are the same, and on
  a live chain with it the same calls go through and leave every account with the same
  address and body. But a member's witnesses give, under it, exactly the journals that under
  \<open>H\<close> the witnesses of the member holding the key \<open>g\<close> assigns give: whoever has voted under \<open>H\<close>,
  others have voted under \<open>H \<circ> \<pi>\<close>.
\<close>

theorem votes_unattributable:
  assumes "\<forall>q. bij (g q)" and "keeps_public g ixs roster"
    and "live_setting E R pid L0 signer ixs"
    and "H = sha256 E" and "H' = relabel g H" and "E' = E\<lparr>sha256 := H'\<rparr>"
    and "runtime_exact H' R' pid" and "blank R' = blank R" and "discharged R' = discharged R"
    and "slice_reader rd" and "wf_tree H t"
    and "\<forall>mem \<in> roster. commitment_bytes (commitment H mem) \<in> set (leaves t) - {0}"
  shows "(\<exists>\<pi>. bij \<pi> \<and> H' = H \<circ> \<pi>) \<and>
    (\<forall>mem \<in> roster. commitment H' mem = commitment H mem) \<and> (\<forall>t. merkle_root H' t = merkle_root H t) \<and>
    (submits E R pid signer L0 ixs = None \<longleftrightarrow> submits E' R' pid signer L0 ixs = None) \<and>
    (\<forall>L M x. submits E R pid signer L0 ixs = Some L \<and> submits E' R' pid signer L0 ixs = Some M \<and>
       x \<in> set (run_names ixs) \<longrightarrow> address H' pid x = address H pid x \<and>
       same_body E pid x (L (address H pid x)) (M (address H pid x))) \<and>
    (\<forall>mem \<in> roster. \<forall>mem' \<in> roster. \<forall>q j. sk mem' = g q (sk mem) \<longrightarrow>
       ((\<exists>p. wf_proof p \<and> approve_circuit H' rd (pack_approve_witness mem p (merkle_root H' t) q) = Some j) \<longleftrightarrow>
        (\<exists>p. wf_proof p \<and> approve_circuit H rd (pack_approve_witness mem' p (merkle_root H t) q) = Some j)))"
proof (intro conjI allI ballI impI)
  show "\<exists>\<pi>. bij \<pi> \<and> H' = H \<circ> \<pi>"
    using relabel_string_bij [OF assms(1)] by (intro exI [of _ "relabel_string g"]) (simp add: assms(5) relabel_def fun_eq_iff)
  have c: "commitment H' mem = commitment H mem" if "mem \<in> roster" for mem
    using assms(2) that by (simp add: assms(5) keeps_public_def relabel_commitment)
  then show "commitment H' mem = commitment H mem" if "mem \<in> roster" for mem using that .
  show root: "merkle_root H' t = merkle_root H t" for t by (simp add: assms(5))
  note accounts = relabel_accounts [OF assms(3,2) _ assms(8,9), folded assms(4), folded assms(5),
      folded assms(6), OF assms(7)]
  show "submits E R pid signer L0 ixs = None \<longleftrightarrow> submits E' R' pid signer L0 ixs = None"
    using accounts(1) by blast
  show "address H' pid x = address H pid x"
    if "submits E R pid signer L0 ixs = Some L \<and> submits E' R' pid signer L0 ixs = Some M \<and> x \<in> set (run_names ixs)"
    for L M x
    unfolding assms(5) using that run_name_keeps [OF assms(2)] by (intro relabel_address) blast
  show "same_body E pid x (L (address H pid x)) (M (address H pid x))"
    if "submits E R pid signer L0 ixs = Some L \<and> submits E' R' pid signer L0 ixs = Some M \<and> x \<in> set (run_names ixs)"
    for L M x
    using accounts(2) that by blast
  fix mem mem' q j assume m: "mem \<in> roster" "mem' \<in> roster" and k: "sk mem' = g q (sk mem)"
  have t: "wf_tree H' t"
    using assms(11) by (simp add: wf_tree_def assms(5) relabel_wf)
  have "identity_nullifier H' mem q = identity_nullifier H mem' q"
    by (simp add: assms(5) relabel_nullifier k) (simp add: identity_nullifier_def k)
  with enrolled_journal [OF assms(10) t, of mem q j] enrolled_journal [OF assms(10,11), of mem' q j]
  show "(\<exists>p. wf_proof p \<and> approve_circuit H' rd (pack_approve_witness mem p (merkle_root H' t) q) = Some j) \<longleftrightarrow>
        (\<exists>p. wf_proof p \<and> approve_circuit H rd (pack_approve_witness mem' p (merkle_root H t) q) = Some j)"
    using m assms(12) c [OF m(1)] root by simp
qed

text \<open>The vote of the first member of the sample tree, seen as one of the second member.\<close>

definition sample_second :: identity where
  "sample_second = identity_new 4596 0"

definition sample_ballot_id :: bytes32 where
  "sample_ballot_id = in_proposal_id (vote_inputs sample_hash 5 9 0 (merkle_root sample_hash sample_tree) [1] 3 0)"

definition sample_swap :: "bytes32 \<Rightarrow> bytes32 \<Rightarrow> bytes32" where
  "sample_swap q a =
     (if q = sample_ballot_id \<and> a = sk sample_member then sk sample_second
      else if q = sample_ballot_id \<and> a = sk sample_second then sk sample_member else a)"

lemma sample_swap_bij: "bij (sample_swap q)"
proof (rule o_bij)
  show "sample_swap q \<circ> sample_swap q = id" by (auto simp: fun_eq_iff sample_swap_def)
  then show "sample_swap q \<circ> sample_swap q = id" .
qed

lemma sample_second: "commitment_bytes (commitment sample_hash sample_second) = 0x1234"
  by (simp add: commitment_def commitment_preimage_def sample_second_def identity_new_def sample_hash_2)

lemma sample_swap_keeps: "keeps_public sample_swap sample_mixed {sample_member, sample_second}"
proof -
  have "sample_ballot_id \<noteq> 0"
    by (simp add: sample_ballot_id_def vote_inputs_def sample_proposal_id sample_addresses sample_hash_byte
        DEPLOYMENT_CHAIN_ID_U64_def)
  then show ?thesis
    by (auto simp: keeps_public_def sample_mixed_def sample_swap_def sample_literals sample_member_def
        sample_second_def identity_new_def relabel_string_other)
qed

theorem votes_unattributable_witness:
  "\<exists>\<pi> H' R' p. bij \<pi> \<and> H' = sample_hash \<circ> \<pi> \<and> merkle_root H' sample_tree = merkle_root sample_hash sample_tree \<and>
     submits (borsh_env H') R' 5 1 (\<lambda>_. sample_blank) sample_mixed \<noteq> None \<and>
     Approve 9 0 sample_nullifier (sample_vote sample_nullifier) \<in> set sample_mixed \<and>
     approve_circuit H' sample_reader
       (pack_approve_witness sample_second p (merkle_root H' sample_tree) sample_ballot_id) =
       Some (sample_vote sample_nullifier)"
proof -
  let ?H' = "relabel sample_swap sample_hash" and ?roster = "{sample_member, sample_second}"
  let ?R' = "test_runtime ?H' [sample_vote sample_nullifier]"
  have R: "runtime_exact ?H' ?R' 5" "blank ?R' = blank sample_chain" "discharged ?R' = discharged sample_chain"
    by (rule test_runtime_exact) (simp_all add: test_runtime_def)
  have leaves: "\<forall>mem \<in> ?roster. commitment_bytes (commitment sample_hash mem) \<in> set (leaves sample_tree) - {0}"
    by (simp add: sample_member sample_second sample_tree(2))
  have E: "borsh_env ?H' = sample_env\<lparr>sha256 := ?H'\<rparr>" by (simp add: borsh_env_def)
  have b: "\<forall>q. bij (sample_swap q)" using sample_swap_bij by blast
  note all = votes_unattributable [OF b sample_swap_keeps sample_mixed_live borsh_env_sel(1) [symmetric] refl E
      R sample_reader sample_tree(1) leaves]
  have "submits sample_env sample_chain 5 1 (\<lambda>_. sample_blank) sample_mixed \<noteq> None"
    using live_accepts [OF sample_mixed_live] sample_accepted(1) by simp
  with all have s: "submits (borsh_env ?H') ?R' 5 1 (\<lambda>_. sample_blank) sample_mixed \<noteq> None" by blast
  have j: "\<exists>p. wf_proof p \<and> approve_circuit sample_hash sample_reader (pack_approve_witness sample_member p
      (merkle_root sample_hash sample_tree) sample_ballot_id) = Some (sample_vote sample_nullifier)"
    by (subst enrolled_journal [OF sample_reader sample_tree(1)])
      (simp_all add: sample_member sample_tree(2) sample_vote_def sample_nullifier_def sample_ballot_id_def
        identity_nullifier_def vote_inputs_def)
  have k: "sk sample_member = sample_swap sample_ballot_id (sk sample_second)"
    by (simp add: sample_swap_def)
  with all j have "\<exists>p. wf_proof p \<and> approve_circuit ?H' sample_reader (pack_approve_witness sample_second p
      (merkle_root ?H' sample_tree) sample_ballot_id) = Some (sample_vote sample_nullifier)" by blast
  moreover have "Approve 9 0 sample_nullifier (sample_vote sample_nullifier) \<in> set sample_mixed"
    by (simp add: sample_mixed_def)
  moreover note s
  ultimately show ?thesis using all by blast
qed

end
