(* ===== verification/Progress.thy ===== *)
theory Progress
  imports Members Independence
begin

text \<open>
  Progress for members: in whatever ledger a run has reached, members that have not voted can
  bring an open proposal to its execution, from the circuit's witness to the last call.
\<close>

text \<open>A member's path from its tree, and the journal that the circuit commits on it.\<close>

lemma member_receipt:
  assumes "slice_reader rd" and "wf_tree H t"
    and "commitment_bytes (commitment H mem) \<in> set (leaves t) - {0}"
  shows "\<exists>k p. merkle_prove H t k = Inr p \<and>
    approve_circuit H rd (pack_approve_witness mem p (merkle_root H t) q) =
      Some (to_bytes \<lparr>in_members_root = merkle_root H t, in_proposal_id = q,
                      in_nullifier = identity_nullifier H mem q\<rparr>)"
proof -
  from assms(3) obtain k where k: "k < length (leaves t)" "leaves t ! k = commitment_bytes (commitment H mem)"
    "leaves t ! k \<noteq> 0" by (auto simp: in_set_conv_nth)
  from prove_verifies [OF assms(2) k(1,3)] k(2) obtain p where "merkle_prove H t k = Inr p" "wf_proof p"
    "verify_proof H (merkle_root H t) (commitment_bytes (commitment H mem)) p" by auto
  with approves_circuit [OF assms(1), of H "\<lparr>in_members_root = merkle_root H t, in_proposal_id = q,
      in_nullifier = identity_nullifier H mem q\<rparr>" mem p]
  show ?thesis by (auto simp: approves_def identity_nullifier_def)
qed

text \<open>
  C15: Nothing gets stuck. In every ledger that a run reaches, with whatever other programs did
  in between, take a proposal that has not executed, of an instance created with the root of
  a tree, and enrolled members that have not voted on it, with different nullifiers and
  enough to reach the quorum with the votes there are. Each of them gets a path from the tree
  on which the circuit commits its vote; and creating the vault if it is missing, these votes
  and \<open>execute\<close> all go through, and the proposal is executed with the old and the new votes.
  Conditions: the chain is live (\<open>runtime_exact\<close>, \<open>roomy\<close>) and discharges votes that the circuit
  commits (\<open>provable_discharged\<close>), the accounts still to be created are blank, the submitter is
  none of the program's accounts, and the votes stay below \<open>2 ^ 32\<close>.
\<close>

theorem open_proposal_can_execute:
  assumes "ledger_run E R pid L0 es L"
    and "sound_setting E R pid L0 (calls es @ script)" and "runtime_exact (sha256 E) R pid" and "roomy E"
    and "q = in_proposal_id (vote_inputs (sha256 E) pid ck i (merkle_root (sha256 E) t) action target 0)"
    and "nuls = map (\<lambda>mem. identity_nullifier (sha256 E) mem q) mems"
    and "script = finish_script (sha256 E) pid (calls es) ck i (merkle_root (sha256 E) t) action target nuls"
    and "CreateMultisig ck (merkle_root (sha256 E) t) m' n' \<in> set (calls es)"
    and "Propose ck i action target \<in> set (calls es)" and "Execute ck i \<notin> set (calls es)"
    and "slice_reader rd" and "wf_tree (sha256 E) t"
    and "\<forall>mem \<in> set mems. commitment_bytes (commitment (sha256 E) mem) \<in> set (leaves t) - {0}"
    and "distinct nuls" and "\<forall>nul \<in> set nuls. \<forall>pi. Approve ck i nul pi \<notin> set (calls es)"
    and "old = card {nul. \<exists>pi. Approve ck i nul pi \<in> set (calls es)}"
    and "unat m' \<le> old + length mems" and "old + length mems < 2 ^ 32"
    and "\<forall>nul \<in> set nuls. provable_discharged E R rd
           (to_bytes (vote_inputs (sha256 E) pid ck i (merkle_root (sha256 E) t) action target nul))"
    and "vacant (sha256 E) R pid (set (run_names script)) L"
    and "signer \<notin> address (sha256 E) pid ` set (run_names script)"
  shows "(\<forall>mem \<in> set mems. \<exists>k p. merkle_prove (sha256 E) t k = Inr p \<and>
      approve_circuit (sha256 E) rd (pack_approve_witness mem p (merkle_root (sha256 E) t) q) =
        Some (to_bytes (vote_inputs (sha256 E) pid ck i (merkle_root (sha256 E) t) action target
          (identity_nullifier (sha256 E) mem q)))) \<and>
    (\<exists>L' p. submits E R pid signer L script = Some L' \<and>
      proposal_from_slice E (acc_data (L' (address (sha256 E) pid (ProposalOf ck i)))) = Some p \<and>
      executed p \<and> unat (approvals_count p) = old + length mems \<and> action_bytes p = action \<and>
      target_program p = target)"
proof (intro conjI)
  let ?H = "sha256 E" and ?root = "merkle_root (sha256 E) t"
  have b: "vote_inputs ?H pid ck i ?root action target nul =
      \<lparr>in_members_root = ?root, in_proposal_id = q, in_nullifier = nul\<rparr>" for nul
    by (simp add: assms(5) vote_inputs_def)
  show receipts: "\<forall>mem \<in> set mems. \<exists>k p. merkle_prove ?H t k = Inr p \<and>
      approve_circuit ?H rd (pack_approve_witness mem p ?root q) =
        Some (to_bytes (vote_inputs ?H pid ck i ?root action target (identity_nullifier ?H mem q)))"
    unfolding b using member_receipt [OF assms(11,12)] assms(13) by blast
  have d: "\<forall>nul \<in> set nuls. discharged R APPROVE_CIRCUIT_IMAGE_ID
      (to_bytes (vote_inputs ?H pid ck i ?root action target nul))"
    using receipts assms(6,19) unfolding provable_discharged_def by fastforce
  have l: "length nuls = length mems" by (simp add: assms(6))
  show "\<exists>L' p. submits E R pid signer L script = Some L' \<and>
      proposal_from_slice E (acc_data (L' (address ?H pid (ProposalOf ck i)))) = Some p \<and>
      executed p \<and> unat (approvals_count p) = old + length mems \<and> action_bytes p = action \<and>
      target_program p = target"
    using open_proposal_finishes [OF assms(1-4,7-10,14-16) _ _ d assms(20,21)] assms(17,18) by (simp add: l)
qed

theorem open_proposal_can_execute_witness:
  "\<exists>es L L' p. ledger_run sample_env sample_chain 5 (\<lambda>_. sample_blank) es L \<and>
     calls es = [CreateMultisig 9 (merkle_root sample_hash sample_tree) 1 2, Propose 9 0 [1] 3] \<and>
     submits sample_env sample_chain 5 1 L [CreateVault 9,
       Approve 9 0 sample_nullifier (sample_vote sample_nullifier), Execute 9 0] = Some L' \<and>
     proposal_from_slice sample_env (acc_data (L' (address sample_hash 5 (ProposalOf 9 0)))) = Some p \<and>
     executed p \<and> unat (approvals_count p) = 1"
proof -
  let ?root = "merkle_root sample_hash sample_tree"
  let ?h = "[CreateMultisig 9 ?root 1 2, Propose 9 0 [1] 3]"
  let ?s = "finish_script sample_hash 5 ?h 9 0 ?root [1] 3 [sample_nullifier]"
  have s: "?s = [CreateVault 9, Approve 9 0 sample_nullifier (sample_vote sample_nullifier), Execute 9 0]"
    by (simp add: finish_script_def sample_vote_def)
  have names: "set (run_names (?h @ ?s)) = set sample_names" "set (run_names ?s) = set sample_names"
    by (auto simp: s run_names_def sample_names_def)
  have live: "live_setting sample_env sample_chain 5 (\<lambda>_. sample_blank) 1 ?h"
    by (rule live_subset [OF sample_mixed_live], unfold sample_mixed_names)
      (auto simp: run_names_def sample_names_def)
  have "run_steps (limited_step sample_hash 5 sample_chain) spec_init ?h \<noteq> None"
    by (simp add: limited_step_def spec_init_def MAX_ACTION_BYTES_LEN_def)
  then obtain L where L: "submits sample_env sample_chain 5 1 (\<lambda>_. sample_blank) ?h = Some L"
    using live_accepts [OF live] by auto
  from submits_run [OF L] obtain es where es: "ledger_run sample_env sample_chain 5 (\<lambda>_. sample_blank) es L"
    "calls es = ?h" by blast
  have v0: "vacant sample_hash sample_chain 5 (set sample_names) (\<lambda>_. sample_blank)"
    by (simp add: vacant_def sample_runtime_def)
  have ex: "runtime_exact sample_hash sample_chain 5" by (rule sample_runtime_exact) simp
  have vac: "vacant sample_hash sample_chain 5 (set sample_names) L"
    by (rule submits_vacant [where E = sample_env, unfolded borsh_env_sel(1), OF _ L v0])
      (use ex in \<open>simp add: runtime_exact_def\<close>)
  have c: "0 = card {nul. \<exists>pi. Approve 9 0 nul pi \<in> set (calls es)}" by (simp add: es(2))
  let ?q = "in_proposal_id (vote_inputs sample_hash 5 9 0 ?root [1] 3 0)"
  have d: "\<forall>nul \<in> set [sample_nullifier]. provable_discharged sample_env sample_chain sample_reader
      (to_bytes (vote_inputs sample_hash 5 9 0 ?root [1] 3 nul))"
    by (simp add: provable_discharged_def sample_runtime_def sample_vote_def)
  have n: "[sample_nullifier] = map (\<lambda>mem. identity_nullifier sample_hash mem ?q) [sample_member]"
    by (simp add: sample_nullifier_def identity_nullifier_def)
  have e: "\<forall>mem \<in> set [sample_member]. commitment_bytes (commitment sample_hash mem) \<in> set (leaves sample_tree) - {0}"
    by (simp add: sample_member sample_tree(2))
  have set: "sound_setting sample_env sample_chain 5 (\<lambda>_. sample_blank) (calls es @ ?s)"
    unfolding es(2) by (rule sample_setting [OF names(1)])
  have f: "?s = finish_script sample_hash 5 (calls es) 9 0 ?root [1] 3 [sample_nullifier]" by (simp only: es(2))
  have m: "CreateMultisig 9 ?root 1 2 \<in> set (calls es)" "Propose 9 0 [1] 3 \<in> set (calls es)"
    "Execute 9 0 \<notin> set (calls es)" "distinct [sample_nullifier]"
    "\<forall>nul \<in> set [sample_nullifier]. \<forall>pi. Approve 9 0 nul pi \<notin> set (calls es)"
    "unat (1 :: u8) \<le> 0 + length [sample_member]" "0 + length [sample_member] < 2 ^ 32"
    by (simp_all add: es(2))
  have v: "vacant sample_hash sample_chain 5 (set (run_names ?s)) L" using vac by (simp only: names(2))
  have g: "1 \<notin> address sample_hash 5 ` set (run_names ?s)" unfolding names(2) by (rule sample_signer)
  from open_proposal_can_execute [where E = sample_env, unfolded borsh_env_sel(1), OF es(1) set ex roomy_borsh
      refl n f m(1-3) sample_reader sample_tree(1) e m(4,5) c m(6,7) d v g]
  obtain L' p where "submits sample_env sample_chain 5 1 L ?s = Some L'"
    "proposal_from_slice sample_env (acc_data (L' (address sample_hash 5 (ProposalOf 9 0)))) = Some p"
    "executed p" "unat (approvals_count p) = 0 + length [sample_member]" by (elim exE conjE) (rule that)
  with es s show ?thesis by (intro exI [of _ es] exI [of _ L] exI [of _ L'] exI [of _ p]) simp
qed

end
