(* ===== verification/Sdk_Error.thy ===== *)
theory Sdk_Error
  imports Core_Error
begin

text \<open>
  The SDK's error catalog (\<open>sdk/src/error.rs\<close>): variants, numeric codes and the \<open>Display\<close>
  texts. Two variants share their name with one of the verifier's, so those are written
  qualified (\<open>sdk_error.InvalidThreshold\<close>) where both catalogs are in scope.
\<close>

datatype sdk_error =
    InvalidSecretKeyLength
  | InvalidIdentityCommitment
  | MerkleProofInvalid
  | NullifierDerivationFailed
  | ActionBytesTooLarge
  | ActionBytesHashMismatch
  | TargetProgramHashMismatch
  | ProposalIndexMismatch
  | InvalidThreshold
  | InsufficientMembers u8 u32
  | ThresholdExceedsMembers
  | DuplicateMember
  | BuilderAlreadyFinalized
  | ProofGenerationFailed string
  | ReceiptVerificationFailed string
  | SessionStoreOpenFailed string
  | SessionNotFound
  | SessionCorrupted
  | SessionStatusMismatch
  | MissingSubmissionBlock
  | ArithmeticOverflow
  | KeystoreOpenFailed string
  | KeystoreDecryptionFailed
  | KeystoreSerializationFailed
  | NoKeystoreFound string
  | BorshSerializationFailed
  | BorshDeserializationFailed
  | HomeDirNotFound

fun sdk_code :: "sdk_error \<Rightarrow> u32" where
  "sdk_code InvalidSecretKeyLength = 5001"
| "sdk_code InvalidIdentityCommitment = 5002"
| "sdk_code MerkleProofInvalid = 5003"
| "sdk_code NullifierDerivationFailed = 5004"
| "sdk_code ActionBytesTooLarge = 5010"
| "sdk_code ActionBytesHashMismatch = 5011"
| "sdk_code TargetProgramHashMismatch = 5012"
| "sdk_code ProposalIndexMismatch = 5013"
| "sdk_code InvalidThreshold = 5019"
| "sdk_code (InsufficientMembers m' n') = 5020"
| "sdk_code ThresholdExceedsMembers = 5021"
| "sdk_code DuplicateMember = 5022"
| "sdk_code BuilderAlreadyFinalized = 5023"
| "sdk_code (ProofGenerationFailed s) = 5030"
| "sdk_code (ReceiptVerificationFailed s) = 5031"
| "sdk_code (SessionStoreOpenFailed s) = 5040"
| "sdk_code SessionNotFound = 5041"
| "sdk_code SessionCorrupted = 5042"
| "sdk_code SessionStatusMismatch = 5043"
| "sdk_code MissingSubmissionBlock = 5044"
| "sdk_code ArithmeticOverflow = 5045"
| "sdk_code (KeystoreOpenFailed s) = 5050"
| "sdk_code KeystoreDecryptionFailed = 5051"
| "sdk_code KeystoreSerializationFailed = 5052"
| "sdk_code (NoKeystoreFound s) = 5053"
| "sdk_code BorshSerializationFailed = 5060"
| "sdk_code BorshDeserializationFailed = 5061"
| "sdk_code HomeDirNotFound = 5070"

fun sdk_display :: "sdk_error \<Rightarrow> string" where
  "sdk_display InvalidSecretKeyLength = ''E5001: invalid secret key length (expected 32 bytes)''"
| "sdk_display InvalidIdentityCommitment = ''E5002: invalid identity commitment''"
| "sdk_display MerkleProofInvalid = ''E5003: Merkle proof verification failed''"
| "sdk_display NullifierDerivationFailed = ''E5004: nullifier derivation failed''"
| "sdk_display ActionBytesTooLarge = ''E5010: action_bytes exceeds maximum length''"
| "sdk_display ActionBytesHashMismatch = ''E5011: action_bytes hash mismatch (proposal_id recomputation)''"
| "sdk_display TargetProgramHashMismatch = ''E5012: target_program hash mismatch (proposal_id recomputation)''"
| "sdk_display ProposalIndexMismatch = ''E5013: invalid proposal index (does not match instance proposal_count)''"
| "sdk_display InvalidThreshold = ''E5019: invalid threshold (m == 0 or n == 0)''"
| "sdk_display (InsufficientMembers m' n') = ''E5020: member count below threshold (need m members)''"
| "sdk_display ThresholdExceedsMembers = ''E5021: member count exceeds maximum (m <= n violated)''"
| "sdk_display DuplicateMember = ''E5022: member already added (duplicate commitment)''"
| "sdk_display BuilderAlreadyFinalized = ''E5023: builder already finalized''"
| "sdk_display (ProofGenerationFailed s) = ''E5030: Risc0 proof generation failed: '' @ s"
| "sdk_display (ReceiptVerificationFailed s) = ''E5031: Risc0 receipt verification failed: '' @ s"
| "sdk_display (SessionStoreOpenFailed s) = ''E5040: session store open failed: '' @ s"
| "sdk_display SessionNotFound = ''E5041: session not found for (instance, proposal, commitment)''"
| "sdk_display SessionCorrupted = ''E5042: session corrupted (deserialization failed)''"
| "sdk_display SessionStatusMismatch = ''E5043: session in unexpected status for requested operation''"
| "sdk_display MissingSubmissionBlock = ''E5044: session reached Submitted without recording a submission block''"
| "sdk_display ArithmeticOverflow = ''E5045: arithmetic overflow computing finality boundary''"
| "sdk_display (KeystoreOpenFailed s) = ''E5050: keystore file open failed: '' @ s"
| "sdk_display KeystoreDecryptionFailed = ''E5051: keystore decryption failed (wrong password or corrupted file)''"
| "sdk_display KeystoreSerializationFailed = ''E5052: keystore serialization failed''"
| "sdk_display (NoKeystoreFound s) = ''E5053: no keystore found at '' @ s"
| "sdk_display BorshSerializationFailed = ''E5060: Borsh serialization failed''"
| "sdk_display BorshDeserializationFailed = ''E5061: Borsh deserialization failed''"
| "sdk_display HomeDirNotFound = ''E5070: home directory not found (cannot resolve ~/.private-multisig)''"

text \<open>The variant without its payload.\<close>

fun sdk_variant :: "sdk_error \<Rightarrow> sdk_error" where
  "sdk_variant (InsufficientMembers m' n') = InsufficientMembers 0 0"
| "sdk_variant (ProofGenerationFailed s) = ProofGenerationFailed []"
| "sdk_variant (ReceiptVerificationFailed s) = ReceiptVerificationFailed []"
| "sdk_variant (SessionStoreOpenFailed s) = SessionStoreOpenFailed []"
| "sdk_variant (KeystoreOpenFailed s) = KeystoreOpenFailed []"
| "sdk_variant (NoKeystoreFound s) = NoKeystoreFound []"
| "sdk_variant e = e"

lemma sdk_code_range: "5001 \<le> unat (sdk_code e) \<and> unat (sdk_code e) \<le> 5070"
  by (cases e) simp_all

lemma sdk_code_variant: "sdk_code e = sdk_code e' \<longleftrightarrow> sdk_variant e = sdk_variant e'"
  by (cases e; cases e'; simp)

lemma core_code_range: "unat (code c) \<le> 4001"
  by (cases c) simp_all

lemma sdk_display_code: "take 6 (sdk_display e) = ''E'' @ dec4 (unat (sdk_code e)) @ '':''"
  by (cases e) (simp_all add: dec4_def dec_digit_def)

text \<open>
  Error codes tell errors apart across the SDK and the verifier. Two SDK errors have the
  same code exactly when they are the same variant, whatever their payloads; every SDK code
  is in the 5000s, no verifier error has such a code; and the text of an SDK error starts
  with its code.
\<close>

theorem error_codes_disjoint:
  "(sdk_code e = sdk_code e' \<longleftrightarrow> sdk_variant e = sdk_variant e') \<and>
   sdk_code e \<noteq> code c \<and> from_code (sdk_code e) = None \<and>
   take 6 (sdk_display e) = ''E'' @ dec4 (unat (sdk_code e)) @ '':''"
proof -
  have ne: "sdk_code e \<noteq> code c" for c
    using sdk_code_range [of e] core_code_range [of c] by auto
  then have "from_code (sdk_code e) = None"
    using code_from_code by (cases "from_code (sdk_code e)") metis+
  with ne show ?thesis by (simp add: sdk_code_variant sdk_display_code)
qed

end
