(* ===== verification/Sdk_Session.thy ===== *)
theory Sdk_Session
  imports Sdk_Error Identity
begin

text \<open>
  The SDK's approval sessions (\<open>sdk/src/session.rs\<close>): the record of one member's approval of
  one proposal and the operations that move it through its states. The methods take
  \<open>&mut self\<close>: they return their result and the session afterwards. The wall clock
  (\<open>current_unix_seconds\<close>) is an argument. \<open>[u8; 96]\<close> is a list of bytes.
\<close>

definition DEFAULT_FINALITY_BLOCKS :: u64 where
  "DEFAULT_FINALITY_BLOCKS = 32"

datatype session_status = Drafted | Proving | Proved | Submitted | Confirmed | Failed

text \<open>\<open>derive(PartialOrd, Ord)\<close> orders the variants as they are declared.\<close>

fun status_rank :: "session_status \<Rightarrow> nat" where
  "status_rank Drafted = 0"
| "status_rank Proving = 1"
| "status_rank Proved = 2"
| "status_rank Submitted = 3"
| "status_rank Confirmed = 4"
| "status_rank Failed = 5"

instantiation session_status :: linorder
begin

definition less_eq_session_status :: "session_status \<Rightarrow> session_status \<Rightarrow> bool" where
  "a \<le> b \<longleftrightarrow> status_rank a \<le> status_rank b"

definition less_session_status :: "session_status \<Rightarrow> session_status \<Rightarrow> bool" where
  "a < b \<longleftrightarrow> status_rank a < status_rank b"

instance
proof
  fix a b :: session_status
  show "a = b" if "a \<le> b" "b \<le> a"
    using that by (cases a; cases b) (simp_all add: less_eq_session_status_def)
qed (auto simp: less_eq_session_status_def less_session_status_def)

end

definition has_receipt :: "session_status \<Rightarrow> bool" where
  "has_receipt s = (s = Proved \<or> s = Submitted \<or> s = Confirmed)"

definition can_reprove :: "session_status \<Rightarrow> bool" where
  "can_reprove s = (s = Drafted \<or> s = Proving)"

definition can_resubmit :: "session_status \<Rightarrow> bool" where
  "can_resubmit s = (s = Proved \<or> s = Submitted)"

record approval_session =
  instance_pda :: bytes32
  proposal_id :: bytes32
  member_commitment :: identity_commitment
  status :: session_status
  receipt :: "byte list option"
  public_inputs :: "byte list option"
  ses_nullifier :: "bytes32 option"
  submission_block :: "u64 option"
  error_message :: "string option"
  retry_count :: u32
  last_updated :: u64

type_synonym 'a session_result = "(sdk_error + 'a) \<times> approval_session"

section \<open>The operations\<close>

definition session_new ::
  "u64 \<Rightarrow> bytes32 \<Rightarrow> bytes32 \<Rightarrow> identity_commitment \<Rightarrow> byte list \<Rightarrow> bytes32 \<Rightarrow> approval_session" where
  "session_new now pda pid c pi nul =
     \<lparr>instance_pda = pda, proposal_id = pid, member_commitment = c, status = Drafted,
      receipt = None, public_inputs = Some pi, ses_nullifier = Some nul, submission_block = None,
      error_message = None, retry_count = 0, last_updated = now\<rparr>"

definition transition_to ::
  "u64 \<Rightarrow> session_status \<Rightarrow> approval_session \<Rightarrow> unit session_result" where
  "transition_to now nxt s =
     (let valid = (case (status s, nxt) of
           (Drafted, Proving) \<Rightarrow> True
         | (Proving, Proved) \<Rightarrow> True
         | (Proved, Submitted) \<Rightarrow> True
         | (Submitted, Confirmed) \<Rightarrow> True
         | (Proved, Proving) \<Rightarrow> True
         | _ \<Rightarrow> False)
      in if \<not> valid then (Inl SessionStatusMismatch, s)
         else (Inr (), s\<lparr>status := nxt, last_updated := now\<rparr>))"

definition mark_proving :: "u64 \<Rightarrow> approval_session \<Rightarrow> unit session_result" where
  "mark_proving now s = transition_to now Proving s"

definition mark_proved :: "u64 \<Rightarrow> byte list \<Rightarrow> approval_session \<Rightarrow> unit session_result" where
  "mark_proved now rcpt s =
     (case transition_to now Proved s of
        (Inl e, s) \<Rightarrow> (Inl e, s)
      | (Inr _, s) \<Rightarrow> (Inr (), s\<lparr>receipt := Some rcpt\<rparr>))"

definition mark_submitted :: "u64 \<Rightarrow> u64 \<Rightarrow> approval_session \<Rightarrow> unit session_result" where
  "mark_submitted now block s =
     (case transition_to now Submitted s of
        (Inl e, s) \<Rightarrow> (Inl e, s)
      | (Inr _, s) \<Rightarrow> (Inr (), s\<lparr>submission_block := Some block\<rparr>))"

text \<open>\<open>retry_count += 1\<close> wraps, as in a release build.\<close>

definition demote_on_reorg :: "u64 \<Rightarrow> u64 \<Rightarrow> approval_session \<Rightarrow> approval_session" where
  "demote_on_reorg now current_block s =
     (case submission_block s of
        None \<Rightarrow> s
      | Some submitted_at \<Rightarrow>
          if current_block < submitted_at
          then s\<lparr>status := Proved, submission_block := None, retry_count := retry_count s + 1,
                 last_updated := now\<rparr>
          else s)"

definition force_confirm_unchecked :: "u64 \<Rightarrow> approval_session \<Rightarrow> unit session_result" where
  "force_confirm_unchecked now s = transition_to now Confirmed s"

definition try_confirm :: "u64 \<Rightarrow> u64 \<Rightarrow> u64 \<Rightarrow> approval_session \<Rightarrow> bool session_result" where
  "try_confirm now current_block n_blocks s =
     (if status s \<noteq> Submitted then (Inl SessionStatusMismatch, s)
      else case submission_block s of
        None \<Rightarrow> (Inl MissingSubmissionBlock, s)
      | Some submitted_at \<Rightarrow>
          (case checked_add submitted_at n_blocks of
             None \<Rightarrow> (Inl sdk_error.ArithmeticOverflow, s)
           | Some confirmed_at \<Rightarrow>
               if current_block < confirmed_at then (Inr False, s)
               else case transition_to now Confirmed s of
                 (Inl e, s) \<Rightarrow> (Inl e, s)
               | (Inr _, s) \<Rightarrow> (Inr True, s)))"

definition mark_failed :: "u64 \<Rightarrow> string \<Rightarrow> approval_session \<Rightarrow> approval_session" where
  "mark_failed now message s =
     s\<lparr>status := Failed, error_message := Some message, last_updated := now\<rparr>"

section \<open>Reachable sessions\<close>

inductive session_step :: "approval_session \<Rightarrow> approval_session \<Rightarrow> bool" where
  proving: "mark_proving now s = (r, s') \<Longrightarrow> session_step s s'"
| proved: "mark_proved now rcpt s = (r, s') \<Longrightarrow> session_step s s'"
| submitted: "mark_submitted now block s = (r, s') \<Longrightarrow> session_step s s'"
| demoted: "session_step s (demote_on_reorg now current_block s)"
| forced: "force_confirm_unchecked now s = (r, s') \<Longrightarrow> session_step s s'"
| confirmed: "try_confirm now current_block n_blocks s = (b, s') \<Longrightarrow> session_step s s'"
| failed: "session_step s (mark_failed now message s)"

inductive_cases session_stepE: "session_step s s'"

definition fresh_session :: "approval_session \<Rightarrow> bool" where
  "fresh_session s \<longleftrightarrow> (\<exists>now pda pid c pi nul. s = session_new now pda pid c pi nul)"

definition session_reachable :: "approval_session \<Rightarrow> bool" where
  "session_reachable s \<longleftrightarrow> (\<exists>s0. fresh_session s0 \<and> session_step\<^sup>*\<^sup>* s0 s)"

text \<open>The edges that \<open>transition_to\<close> takes.\<close>

definition session_edge :: "session_status \<Rightarrow> session_status \<Rightarrow> bool" where
  "session_edge a b \<longleftrightarrow>
     (a, b) \<in> {(Drafted, Proving), (Proving, Proved), (Proved, Submitted), (Submitted, Confirmed),
               (Proved, Proving)}"

lemma session_edge_simps [simp]:
  "session_edge a Proving \<longleftrightarrow> a = Drafted \<or> a = Proved"
  "session_edge a Proved \<longleftrightarrow> a = Proving"
  "session_edge a Submitted \<longleftrightarrow> a = Proved"
  "session_edge a Confirmed \<longleftrightarrow> a = Submitted"
  "\<not> session_edge a Failed" "\<not> session_edge a Drafted"
  by (auto simp: session_edge_def)

lemma transition_to_eq:
  "transition_to now nxt s =
     (if session_edge (status s) nxt then (Inr (), s\<lparr>status := nxt, last_updated := now\<rparr>)
      else (Inl SessionStatusMismatch, s))"
  by (cases "status s"; cases nxt) (simp_all add: transition_to_def session_edge_def)

lemma mark_proving_eq:
  "mark_proving now s =
     (if status s = Drafted \<or> status s = Proved
      then (Inr (), s\<lparr>status := Proving, last_updated := now\<rparr>) else (Inl SessionStatusMismatch, s))"
  by (simp add: mark_proving_def transition_to_eq)

lemma mark_proved_eq:
  "mark_proved now rcpt s =
     (if status s = Proving
      then (Inr (), s\<lparr>status := Proved, last_updated := now, receipt := Some rcpt\<rparr>)
      else (Inl SessionStatusMismatch, s))"
  by (simp add: mark_proved_def transition_to_eq)

lemma mark_submitted_eq:
  "mark_submitted now block s =
     (if status s = Proved
      then (Inr (), s\<lparr>status := Submitted, last_updated := now, submission_block := Some block\<rparr>)
      else (Inl SessionStatusMismatch, s))"
  by (simp add: mark_submitted_def transition_to_eq)

lemma force_confirm_eq:
  "force_confirm_unchecked now s =
     (if status s = Submitted then (Inr (), s\<lparr>status := Confirmed, last_updated := now\<rparr>)
      else (Inl SessionStatusMismatch, s))"
  by (simp add: force_confirm_unchecked_def transition_to_eq)

lemma try_confirm_eq:
  "status s = Submitted \<Longrightarrow> submission_block s = Some b \<Longrightarrow>
   try_confirm now cur n s =
     (if 2 ^ 64 \<le> unat b + unat n then (Inl sdk_error.ArithmeticOverflow, s)
      else if unat cur < unat b + unat n then (Inr False, s)
      else (Inr True, s\<lparr>status := Confirmed, last_updated := now\<rparr>))"
proof (cases "checked_add b n")
  case None
  assume "status s = Submitted" "submission_block s = Some b"
  moreover have "2 ^ 64 \<le> unat b + unat n" using None by (simp add: checked_add_eq_None)
  ultimately show ?thesis using None by (simp add: try_confirm_def)
next
  case (Some c)
  assume "status s = Submitted" "submission_block s = Some b"
  moreover have "\<not> 2 ^ 64 \<le> unat b + unat n" using Some by (simp add: checked_add_eq_Some not_le)
  moreover have "cur < c \<longleftrightarrow> unat cur < unat b + unat n"
    using checked_add_unat [OF Some] by (simp add: word_less_nat_alt)
  ultimately show ?thesis using Some by (simp add: try_confirm_def transition_to_eq)
qed

lemma try_confirm_state:
  "try_confirm now cur n s = (r, s') \<Longrightarrow>
   s' = s \<or> status s = Submitted \<and> s' = s\<lparr>status := Confirmed, last_updated := now\<rparr>"
  by (auto simp: try_confirm_def transition_to_eq split: option.splits if_splits)

lemmas session_ops = mark_proving_eq mark_proved_eq mark_submitted_eq force_confirm_eq

text \<open>
  What every step is, as a change of the session. A rejected call and a call that has nothing
  to do leave it as it is.
\<close>

lemma session_step_cases:
  assumes "session_step s s'"
  obtains (same) "s' = s"
  | (prove) now where "status s = Drafted \<or> status s = Proved"
      "s' = s\<lparr>status := Proving, last_updated := now\<rparr>"
  | (cache) now rcpt where "status s = Proving"
      "s' = s\<lparr>status := Proved, last_updated := now, receipt := Some rcpt\<rparr>"
  | (submit) now block where "status s = Proved"
      "s' = s\<lparr>status := Submitted, last_updated := now, submission_block := Some block\<rparr>"
  | (confirm) now where "status s = Submitted" "s' = s\<lparr>status := Confirmed, last_updated := now\<rparr>"
  | (demote) now b where "submission_block s = Some b" "b \<noteq> 0"
      "s' = s\<lparr>status := Proved, submission_block := None, retry_count := retry_count s + 1,
              last_updated := now\<rparr>"
  | (fail) now msg where "s' = s\<lparr>status := Failed, error_message := Some msg, last_updated := now\<rparr>"
  using assms
proof (cases rule: session_step.cases)
  case (proving now r)
  then have "s' = s \<or> (status s = Drafted \<or> status s = Proved) \<and>
      s' = s\<lparr>status := Proving, last_updated := now\<rparr>"
    by (auto simp: session_ops split: if_splits)
  then show ?thesis by (metis prove same)
next
  case (proved now rcpt r)
  then have "s' = s \<or> status s = Proving \<and>
      s' = s\<lparr>status := Proved, last_updated := now, receipt := Some rcpt\<rparr>"
    by (auto simp: session_ops split: if_splits)
  then show ?thesis by (metis cache same)
next
  case (submitted now block r)
  then have "s' = s \<or> status s = Proved \<and>
      s' = s\<lparr>status := Submitted, last_updated := now, submission_block := Some block\<rparr>"
    by (auto simp: session_ops split: if_splits)
  then show ?thesis by (metis submit same)
next
  case (demoted now current_block)
  show ?thesis
  proof (cases "\<exists>b. submission_block s = Some b \<and> current_block < b")
    case True
    then obtain b where b: "submission_block s = Some b" "current_block < b" by blast
    then have "b \<noteq> 0" by auto
    moreover have "s' = s\<lparr>status := Proved, submission_block := None,
        retry_count := retry_count s + 1, last_updated := now\<rparr>"
      unfolding demoted using b by (simp add: demote_on_reorg_def)
    ultimately show ?thesis using b(1) by (metis demote)
  next
    case False
    then have "s' = s" unfolding demoted by (auto simp: demote_on_reorg_def split: option.splits)
    then show ?thesis by (rule same)
  qed
next
  case (forced now r)
  then have "s' = s \<or> status s = Submitted \<and> s' = s\<lparr>status := Confirmed, last_updated := now\<rparr>"
    by (auto simp: session_ops split: if_splits)
  then show ?thesis by (metis confirm same)
next
  case (confirmed now current_block n_blocks b)
  then show ?thesis by (metis confirm same try_confirm_state)
next
  case (failed now message)
  then show ?thesis using fail by (simp only: mark_failed_def)
qed

definition session_inv :: "approval_session \<Rightarrow> bool" where
  "session_inv s \<longleftrightarrow>
     (has_receipt (status s) \<longrightarrow> receipt s \<noteq> None) \<and>
     (submission_block s \<noteq> None \<longrightarrow> receipt s \<noteq> None) \<and>
     (status s \<in> {Submitted, Confirmed} \<longrightarrow> submission_block s \<noteq> None) \<and>
     (status s < Submitted \<longrightarrow> submission_block s = None) \<and>
     (status s = Failed \<longrightarrow> error_message s \<noteq> None) \<and>
     public_inputs s \<noteq> None \<and> ses_nullifier s \<noteq> None"

lemma session_inv_new: "fresh_session s \<Longrightarrow> session_inv s"
  by (auto simp: fresh_session_def session_new_def session_inv_def has_receipt_def)

lemma session_inv_step:
  assumes "session_step s s'" "session_inv s"
  shows "session_inv s'"
  using assms
  by (cases rule: session_step_cases)
    (auto simp: session_inv_def has_receipt_def less_session_status_def)

interpretation session_sys: invariant_system fresh_session session_step session_inv
  by unfold_locales (auto intro: session_inv_new session_inv_step)

definition same_subject :: "approval_session \<Rightarrow> approval_session \<Rightarrow> bool" where
  "same_subject s t \<longleftrightarrow> instance_pda t = instance_pda s \<and> proposal_id t = proposal_id s \<and>
     member_commitment t = member_commitment s \<and> public_inputs t = public_inputs s \<and>
     ses_nullifier t = ses_nullifier s \<and>
     (receipt s \<noteq> None \<longrightarrow> receipt t \<noteq> None) \<and> (error_message s \<noteq> None \<longrightarrow> error_message t \<noteq> None)"

interpretation session_mono: monotone_system session_step same_subject
proof unfold_locales
  show "same_subject s t" if "session_step s t" for s t
    using that by (cases rule: session_step_cases) (auto simp: same_subject_def)
qed (auto simp: same_subject_def)

lemma reachable_inv: "session_reachable s \<Longrightarrow> session_inv s"
  using session_sys.inv_reachable by (auto simp: session_reachable_def)

lemma reachable_step: "session_reachable s \<Longrightarrow> session_step s t \<Longrightarrow> session_reachable t"
  by (auto simp: session_reachable_def intro: rtranclp.rtrancl_into_rtrancl)

section \<open>Properties of sessions\<close>

lemma session_new_reachable: "session_reachable (session_new now pda pid c pi nul)"
  unfolding session_reachable_def fresh_session_def by blast

text \<open>One session in each status, driven from a new one.\<close>

definition sample_session :: "session_status \<Rightarrow> approval_session" where
  "sample_session a =
     (let s0 = session_new 0 1 2 (IdentityCommitment 3) (replicate 96 0) 4;
          s1 = s0\<lparr>status := Proving, last_updated := 0\<rparr>;
          s2 = s1\<lparr>status := Proved, last_updated := 0, receipt := Some [7]\<rparr>;
          s3 = s2\<lparr>status := Submitted, last_updated := 0, submission_block := Some 100\<rparr>
      in case a of Drafted \<Rightarrow> s0 | Proving \<Rightarrow> s1 | Proved \<Rightarrow> s2 | Submitted \<Rightarrow> s3
         | Confirmed \<Rightarrow> s3\<lparr>status := Confirmed, last_updated := 0\<rparr>
         | Failed \<Rightarrow> s3\<lparr>status := Failed, error_message := Some ''rejected'', last_updated := 0\<rparr>)"

lemma sample_status [simp]: "status (sample_session a) = a"
  by (cases a) (simp_all add: sample_session_def session_new_def Let_def)

lemma sample_block: "Submitted \<le> a \<Longrightarrow> submission_block (sample_session a) = Some 100"
  by (cases a) (simp_all add: sample_session_def Let_def less_eq_session_status_def)

lemma sample_reachable: "session_reachable (sample_session a)"
proof -
  have r0: "session_reachable (sample_session Drafted)"
    by (simp add: sample_session_def session_new_reachable Let_def)
  have "session_step (sample_session Drafted) (sample_session Proving)"
    by (rule session_step.proving [where now = 0 and r = "Inr ()"])
      (simp add: mark_proving_eq sample_session_def session_new_def Let_def)
  with r0 have r1: "session_reachable (sample_session Proving)" by (rule reachable_step)
  have "session_step (sample_session Proving) (sample_session Proved)"
    by (rule session_step.proved [where now = 0 and r = "Inr ()" and rcpt = "[7]"])
      (simp add: mark_proved_eq sample_session_def Let_def)
  with r1 have r2: "session_reachable (sample_session Proved)" by (rule reachable_step)
  have "session_step (sample_session Proved) (sample_session Submitted)"
    by (rule session_step.submitted [where now = 0 and r = "Inr ()" and block = 100])
      (simp add: mark_submitted_eq sample_session_def Let_def)
  with r2 have r3: "session_reachable (sample_session Submitted)" by (rule reachable_step)
  have "session_step (sample_session Submitted) (sample_session Confirmed)"
    by (rule session_step.forced [where now = 0 and r = "Inr ()"])
      (simp add: force_confirm_eq sample_session_def Let_def)
  with r3 have r4: "session_reachable (sample_session Confirmed)" by (rule reachable_step)
  have "sample_session Failed = mark_failed 0 ''rejected'' (sample_session Submitted)"
    by (simp add: mark_failed_def sample_session_def Let_def)
  then have "session_step (sample_session Submitted) (sample_session Failed)"
    by (simp add: session_step.failed)
  with r3 have r5: "session_reachable (sample_session Failed)" by (rule reachable_step)
  from r0 r1 r2 r3 r4 r5 show ?thesis by (cases a) simp_all
qed

text \<open>The status changes that some call makes in some reachable session.\<close>

definition status_moves :: "(session_status \<times> session_status) set" where
  "status_moves = {(a, b). a \<noteq> b \<and>
     (\<exists>s t. session_reachable s \<and> session_step s t \<and> status s = a \<and> status t = b)}"

lemma status_moves_subset:
  "status_moves \<subseteq>
     {(Drafted, Proving), (Proving, Proved), (Proved, Submitted), (Submitted, Confirmed), (Proved, Proving)}
     \<union> {(a, Failed) |a. a \<noteq> Failed} \<union> {(Submitted, Proved), (Confirmed, Proved), (Failed, Proved)}"
proof (rule subsetI)
  fix m assume "m \<in> status_moves"
  then obtain s t where m: "m = (status s, status t)" "status s \<noteq> status t"
    and r: "session_reachable s" and st: "session_step s t" by (auto simp: status_moves_def)
  from st show "m \<in> {(Drafted, Proving), (Proving, Proved), (Proved, Submitted),
      (Submitted, Confirmed), (Proved, Proving)} \<union> {(a, Failed) |a. a \<noteq> Failed} \<union>
      {(Submitted, Proved), (Confirmed, Proved), (Failed, Proved)}"
  proof (cases rule: session_step_cases)
    case (demote now b)
    with reachable_inv [OF r] have "\<not> status s < Submitted" by (simp add: session_inv_def)
    then show ?thesis using m demote by (cases "status s") (simp_all add: less_session_status_def)
  qed (use m in auto)
qed

lemma status_moveI:
  "session_step (sample_session a) t \<Longrightarrow> status t = b \<Longrightarrow> a \<noteq> b \<Longrightarrow> (a, b) \<in> status_moves"
  using sample_reachable [of a] sample_status [of a] unfolding status_moves_def by blast

lemma session_step_snd:
  "session_step s (snd (mark_proving now s))" "session_step s (snd (mark_proved now rcpt s))"
  "session_step s (snd (mark_submitted now block s))"
  "session_step s (snd (force_confirm_unchecked now s))"
  "session_step s (snd (try_confirm now cur n s))"
  by (rule session_step.intros, rule prod.collapse [symmetric])+

lemma status_moves_eq:
  "status_moves =
     {(Drafted, Proving), (Proving, Proved), (Proved, Submitted), (Submitted, Confirmed), (Proved, Proving)}
     \<union> {(a, Failed) |a. a \<noteq> Failed} \<union> {(Submitted, Proved), (Confirmed, Proved), (Failed, Proved)}"
proof (rule equalityI [OF status_moves_subset])
  have demote: "(a, Proved) \<in> status_moves" if "Submitted \<le> a" for a
  proof (rule status_moveI [OF session_step.demoted [of _ 0 0]])
    show "status (demote_on_reorg 0 0 (sample_session a)) = Proved"
      using sample_block [OF that] by (simp add: demote_on_reorg_def)
    show "a \<noteq> Proved" using that by (auto simp: less_eq_session_status_def)
  qed
  have fail: "(a, Failed) \<in> status_moves" if "a \<noteq> Failed" for a
    using that by (intro status_moveI [OF session_step.failed [of _ 0 "[]"]]) (simp_all add: mark_failed_def)
  have "(Drafted, Proving) \<in> status_moves"
    by (rule status_moveI [OF session_step_snd(1)]) (simp_all add: mark_proving_eq)
  moreover have "(Proved, Proving) \<in> status_moves"
    by (rule status_moveI [OF session_step_snd(1)]) (simp_all add: mark_proving_eq)
  moreover have "(Proving, Proved) \<in> status_moves"
    by (rule status_moveI [OF session_step_snd(2)]) (simp_all add: mark_proved_eq)
  moreover have "(Proved, Submitted) \<in> status_moves"
    by (rule status_moveI [OF session_step_snd(3)]) (simp_all add: mark_submitted_eq)
  moreover have "(Submitted, Confirmed) \<in> status_moves"
    by (rule status_moveI [OF session_step_snd(4)]) (simp_all add: force_confirm_eq)
  ultimately show "{(Drafted, Proving), (Proving, Proved), (Proved, Submitted), (Submitted, Confirmed),
      (Proved, Proving)} \<union> {(a, Failed) |a. a \<noteq> Failed} \<union>
      {(Submitted, Proved), (Confirmed, Proved), (Failed, Proved)} \<subseteq> status_moves"
    using demote fail by (auto simp: less_eq_session_status_def)
qed

text \<open>
  C31: The session's state machine, exactly. The status changes that the public calls make in
  sessions that come from \<open>new\<close> are the five documented ones, any status to \<open>Failed\<close>, and a
  demotion to \<open>Proved\<close>. The demotion starts not only from \<open>Submitted\<close>: \<open>Confirmed\<close>, documented
  as irreversible, and \<open>Failed\<close>, documented as terminal, are left by it too.
\<close>

theorem session_machine:
  "status_moves =
     {(Drafted, Proving), (Proving, Proved), (Proved, Submitted), (Submitted, Confirmed), (Proved, Proving)}
     \<union> {(a, Failed) |a. a \<noteq> Failed} \<union> {(Submitted, Proved), (Confirmed, Proved), (Failed, Proved)}"
  by (rule status_moves_eq)

text \<open>
  C32: What every session that the calls produce keeps. A status that promises a receipt has
  one; so has a session with a submission block, which is why a demoted one can be sent
  again. \<open>Submitted\<close> and \<open>Confirmed\<close> have a submission block and the earlier statuses have none;
  the public inputs and the nullifier are always there; a failed session has its message. No
  later call changes which instance, proposal and member the session is for.
\<close>

theorem session_invariants:
  assumes "session_reachable s" and "session_step\<^sup>*\<^sup>* s t"
  shows "(has_receipt (status t) \<or> submission_block t \<noteq> None \<longrightarrow> receipt t \<noteq> None) \<and>
         (status t \<in> {Submitted, Confirmed} \<longrightarrow> submission_block t \<noteq> None) \<and>
         (status t < Submitted \<longrightarrow> submission_block t = None) \<and>
         (status t = Failed \<longrightarrow> error_message t \<noteq> None) \<and>
         public_inputs t \<noteq> None \<and> public_inputs t = public_inputs s \<and>
         ses_nullifier t \<noteq> None \<and> ses_nullifier t = ses_nullifier s \<and>
         instance_pda t = instance_pda s \<and> proposal_id t = proposal_id s \<and>
         member_commitment t = member_commitment s"
  using session_sys.inv_steps [OF assms(2) reachable_inv [OF assms(1)]]
    session_mono.steps_le [OF assms(2)]
  by (auto simp: session_inv_def same_subject_def)

theorem session_invariants_witness:
  "receipt (demote_on_reorg 9 50 (sample_session Submitted)) \<noteq> None \<and>
   status (demote_on_reorg 9 50 (sample_session Submitted)) = Proved"
proof -
  have "session_step\<^sup>*\<^sup>* (sample_session Submitted) (demote_on_reorg 9 50 (sample_session Submitted))"
    by (rule r_into_rtranclp) (rule session_step.demoted)
  moreover have "status (demote_on_reorg 9 50 (sample_session Submitted)) = Proved"
    using sample_block [of Submitted] by (simp add: demote_on_reorg_def)
  ultimately show ?thesis
    using session_invariants [OF sample_reachable] by (simp add: has_receipt_def)
qed

text \<open>
  \<open>try_confirm\<close> confirms exactly at finality. On a session that the calls produce it
  answers \<open>true\<close> if and only if the session is \<open>Submitted\<close> and the current block is at least the
  submission block plus \<open>n_blocks\<close>, added without wrap-around; it then changes the status and
  the time only. It never fails with \<open>MissingSubmissionBlock\<close>, and any other answer leaves the
  session as it was.
\<close>

theorem confirm_at_finality:
  assumes "session_reachable s"
  shows "(try_confirm now cur n s = (Inr True, t) \<longleftrightarrow>
           status s = Submitted \<and> (\<exists>b. submission_block s = Some b \<and> unat b + unat n \<le> unat cur) \<and>
           t = s\<lparr>status := Confirmed, last_updated := now\<rparr>) \<and>
         fst (try_confirm now cur n s) \<noteq> Inl MissingSubmissionBlock \<and>
         (fst (try_confirm now cur n s) \<noteq> Inr True \<longrightarrow> snd (try_confirm now cur n s) = s)"
proof (cases "status s = Submitted")
  case True
  with reachable_inv [OF assms] obtain b where b: "submission_block s = Some b"
    by (auto simp: session_inv_def)
  have "unat cur < 2 ^ 64" using unsigned_less [of cur] by simp
  then show ?thesis using try_confirm_eq [OF True b, of now cur n] True b by (auto simp: not_le)
qed (simp add: try_confirm_def)

theorem confirm_at_finality_witness:
  "try_confirm 5 132 DEFAULT_FINALITY_BLOCKS (sample_session Submitted) =
     (Inr True, (sample_session Submitted)\<lparr>status := Confirmed, last_updated := 5\<rparr>) \<and>
   fst (try_confirm 5 131 DEFAULT_FINALITY_BLOCKS (sample_session Submitted)) \<noteq> Inr True"
proof
  note c = confirm_at_finality [OF sample_reachable [of Submitted]]
  show "try_confirm 5 132 DEFAULT_FINALITY_BLOCKS (sample_session Submitted) =
     (Inr True, (sample_session Submitted)\<lparr>status := Confirmed, last_updated := 5\<rparr>)"
    using c [of 5 132 DEFAULT_FINALITY_BLOCKS] sample_block [of Submitted]
    by (simp add: DEFAULT_FINALITY_BLOCKS_def)
  have "\<not> (unat (100 :: u64) + unat DEFAULT_FINALITY_BLOCKS \<le> unat (131 :: u64))"
    by (simp add: DEFAULT_FINALITY_BLOCKS_def)
  then show "fst (try_confirm 5 131 DEFAULT_FINALITY_BLOCKS (sample_session Submitted)) \<noteq> Inr True"
    using c [of 5 131 DEFAULT_FINALITY_BLOCKS] sample_block [of Submitted] by (metis fst_eqD option.inject
      order_refl prod.collapse)
qed

lemma stuck_failed:
  assumes "session_step\<^sup>*\<^sup>* s t" "status s = Failed" "submission_block s \<in> {None, Some 0}"
  shows "status t = Failed \<and> submission_block t \<in> {None, Some 0}"
  using assms
proof (induction rule: rtranclp_induct)
  case (step t u)
  then have t: "status t = Failed" "submission_block t \<in> {None, Some 0}" by simp_all
  from step.hyps(2) show ?case using t by (cases rule: session_step_cases) auto
qed simp

lemma step_to_confirmed:
  "status s = Submitted \<Longrightarrow> \<exists>t. session_step\<^sup>*\<^sup>* s t \<and> status t = Confirmed"
  "status s = Proved \<Longrightarrow> \<exists>t. session_step\<^sup>*\<^sup>* s t \<and> status t = Confirmed"
  "status s = Proving \<Longrightarrow> \<exists>t. session_step\<^sup>*\<^sup>* s t \<and> status t = Confirmed"
  "status s = Drafted \<Longrightarrow> \<exists>t. session_step\<^sup>*\<^sup>* s t \<and> status t = Confirmed"
proof -
  have a: "\<exists>t. session_step\<^sup>*\<^sup>* s t \<and> status t = Confirmed" if "status s = Submitted" for s
    using session_step_snd(4) [of s 0] that
    by (intro exI [of _ "snd (force_confirm_unchecked 0 s)"]) (auto simp: force_confirm_eq)
  have b: "\<exists>t. session_step\<^sup>*\<^sup>* s t \<and> status t = Confirmed" if "status s = Proved" for s
    using a [of "snd (mark_submitted 0 0 s)"] session_step_snd(3) [of s 0 0] that
    by (auto simp: mark_submitted_eq intro: converse_rtranclp_into_rtranclp)
  have c: "\<exists>t. session_step\<^sup>*\<^sup>* s t \<and> status t = Confirmed" if "status s = Proving" for s
    using b [of "snd (mark_proved 0 [] s)"] session_step_snd(2) [of s 0 "[]"] that
    by (auto simp: mark_proved_eq intro: converse_rtranclp_into_rtranclp)
  have d: "\<exists>t. session_step\<^sup>*\<^sup>* s t \<and> status t = Confirmed" if "status s = Drafted" for s
    using c [of "snd (mark_proving 0 s)"] session_step_snd(1) [of s 0] that
    by (auto simp: mark_proving_eq intro: converse_rtranclp_into_rtranclp)
  show "status s = Submitted \<Longrightarrow> \<exists>t. session_step\<^sup>*\<^sup>* s t \<and> status t = Confirmed"
    "status s = Proved \<Longrightarrow> \<exists>t. session_step\<^sup>*\<^sup>* s t \<and> status t = Confirmed"
    "status s = Proving \<Longrightarrow> \<exists>t. session_step\<^sup>*\<^sup>* s t \<and> status t = Confirmed"
    "status s = Drafted \<Longrightarrow> \<exists>t. session_step\<^sup>*\<^sup>* s t \<and> status t = Confirmed"
    by (fact a b c d)+
qed

text \<open>
  Which sessions can still be confirmed. Every session that the calls produce can reach
  \<open>Confirmed\<close>, except a failed one that was not submitted (or was submitted in block 0):
  that one is \<open>Failed\<close> for ever. A session that failed after its submission is not terminal.
\<close>

theorem session_can_confirm:
  assumes "session_reachable s"
  shows "(\<exists>t. session_step\<^sup>*\<^sup>* s t \<and> status t = Confirmed) \<longleftrightarrow>
     \<not> (status s = Failed \<and> submission_block s \<in> {None, Some 0})"
proof (cases "status s")
  case Failed
  show ?thesis
  proof (cases "submission_block s \<in> {None, Some 0}")
    case True
    with Failed stuck_failed show ?thesis by (metis session_status.distinct(29))
  next
    case False
    then obtain b where b: "submission_block s = Some b" "b \<noteq> 0" by (cases "submission_block s") auto
    have "0 < b" using b(2) by (simp add: word_gt_0)
    then have "status (demote_on_reorg 0 0 s) = Proved" using b by (simp add: demote_on_reorg_def)
    from step_to_confirmed(2) [OF this] False show ?thesis
      by (metis converse_rtranclp_into_rtranclp session_step.demoted)
  qed
next
  case Confirmed
  then show ?thesis by auto
qed (use step_to_confirmed in auto)

theorem session_can_confirm_witness:
  "\<exists>t. session_step\<^sup>*\<^sup>* (sample_session Failed) t \<and> status t = Confirmed"
  using session_can_confirm [OF sample_reachable [of Failed]] sample_block [of Failed]
  by (simp add: less_eq_session_status_def)

text \<open>
  Two predicates promise more than the calls accept: a session that crashed in \<open>Proving\<close> is
  \<open>can_reprove\<close> but \<open>mark_proving\<close> rejects it, and a \<open>Submitted\<close> one is \<open>can_resubmit\<close> but
  \<open>mark_submitted\<close> rejects it.
\<close>

lemma resume_predicates_mismatch:
  "{a. can_reprove a \<and> fst (mark_proving 0 (sample_session a)) \<noteq> Inr ()} = {Proving}"
  "{a. can_resubmit a \<and> fst (mark_submitted 0 0 (sample_session a)) \<noteq> Inr ()} = {Submitted}"
proof -
  show "{a. can_reprove a \<and> fst (mark_proving 0 (sample_session a)) \<noteq> Inr ()} = {Proving}"
    using sample_status by (auto simp: can_reprove_def mark_proving_eq split: if_splits)
  show "{a. can_resubmit a \<and> fst (mark_submitted 0 0 (sample_session a)) \<noteq> Inr ()} = {Submitted}"
    using sample_status by (auto simp: can_resubmit_def mark_submitted_eq split: if_splits)
qed

end
