(* ===== verification/Borsh_Codec.thy ===== *)
theory Borsh_Codec
  imports Borsh Pda
begin

text \<open>
  The layout of the SDK's persisted values, by combinators: an encoder, and a decoder that
  takes what it needs off the front of a slice. Integers are little-endian, a vector or a
  string has a four-byte length, an option a tag byte, an enum a discriminant byte
  (\<open>private_multisig_core/tests/abi_wire_format.rs\<close> pins these). The Borsh crate is a
  parameter of the SDK's model; these are the concrete functions its examples run on.
  Strings are ASCII here.
\<close>

type_synonym 'a decoder = "byte list \<Rightarrow> ('a \<times> byte list) option"

text \<open>An encoding whose decoder stops exactly where it ends.\<close>

locale stream_codec =
  fixes enc :: "'a \<Rightarrow> byte list"
    and dec :: "'a decoder"
    and valid :: "'a \<Rightarrow> bool"
  assumes dec_stream: "valid x \<Longrightarrow> dec (enc x @ rest) = Some (x, rest)"
begin

lemma dec_whole: "valid x \<Longrightarrow> dec (enc x) = Some (x, [])"
  using dec_stream [of x "[]"] by simp

lemma prefix_free:
  assumes "valid x" "valid y"
  shows "enc x @ r = enc y @ s \<longleftrightarrow> x = y \<and> r = s"
  using dec_stream [OF assms(1), of r] dec_stream [OF assms(2), of s]
  by (metis option.inject prod.inject)

end

text \<open>\<open>from_slice\<close>: nothing may be left over.\<close>

definition from_slice :: "'a decoder \<Rightarrow> byte list \<Rightarrow> 'a option" where
  "from_slice d bs = (case d bs of Some (x, []) \<Rightarrow> Some x | _ \<Rightarrow> None)"

sublocale stream_codec \<subseteq> codec enc "from_slice dec" valid
  by unfold_locales (simp add: from_slice_def dec_whole)

section \<open>Primitives\<close>

definition dec_take :: "nat \<Rightarrow> byte list decoder" where
  "dec_take n bs = (if length bs < n then None else Some (take n bs, drop n bs))"

definition dec_map :: "('a \<Rightarrow> 'b) \<Rightarrow> 'a decoder \<Rightarrow> 'b decoder" where
  "dec_map f d bs = map_option (map_prod f id) (d bs)"

definition dec_bind :: "'a decoder \<Rightarrow> ('a \<Rightarrow> 'b decoder) \<Rightarrow> 'b decoder" where
  "dec_bind d k bs = Option.bind (d bs) (\<lambda>(x, rest). k x rest)"

definition dec_pure :: "'a \<Rightarrow> 'a decoder" where
  "dec_pure x bs = Some (x, bs)"

fun dec_byte :: "byte decoder" where
  "dec_byte [] = None"
| "dec_byte (b # bs) = Some (b, bs)"

definition dec_hash :: "bytes32 decoder" where
  "dec_hash = dec_map array32 (dec_take 32)"

definition dec_u32 :: "u32 decoder" where
  "dec_u32 = dec_map of_le (dec_take 4)"

definition dec_u64 :: "u64 decoder" where
  "dec_u64 = dec_map of_le (dec_take 8)"

definition enc_vec :: "byte list \<Rightarrow> byte list" where
  "enc_vec bs = to_le (of_nat (length bs) :: u32) @ bs"

definition dec_vec :: "byte list decoder" where
  "dec_vec = dec_bind dec_u32 (\<lambda>k. dec_take (unat k))"

fun enc_opt :: "('a \<Rightarrow> byte list) \<Rightarrow> 'a option \<Rightarrow> byte list" where
  "enc_opt e None = [0]"
| "enc_opt e (Some x) = 1 # e x"

definition dec_opt :: "'a decoder \<Rightarrow> 'a option decoder" where
  "dec_opt d = dec_bind dec_byte (\<lambda>t.
     if t = 0 then dec_pure None else if t = 1 then dec_map Some d else (\<lambda>_. None))"

definition enc_text :: "string \<Rightarrow> byte list" where
  "enc_text s = enc_vec (ascii s)"

definition dec_text :: "string decoder" where
  "dec_text = dec_map (map (\<lambda>b. char_of (unat b))) dec_vec"

named_theorems dec_simps \<open>decoding what was encoded\<close>

lemma dec_take_append [dec_simps]: "length xs = n \<Longrightarrow> dec_take n (xs @ rest) = Some (xs, rest)"
  by (simp add: dec_take_def)

lemma dec_map_Some: "d bs = Some (x, r) \<Longrightarrow> dec_map f d bs = Some (f x, r)"
  by (simp add: dec_map_def)

lemma dec_bind_Some: "d bs = Some (x, r) \<Longrightarrow> dec_bind d k bs = k x r"
  by (simp add: dec_bind_def)

lemma dec_pure_eq [dec_simps]: "dec_pure x bs = Some (x, bs)"
  by (simp add: dec_pure_def)

lemma dec_byte_Cons [dec_simps]: "dec_bind dec_byte k (b # rest) = k b rest"
  by (simp add: dec_bind_def)

lemma dec_hash_append: "dec_hash (bytes_of h @ rest) = Some (h, rest)"
  by (simp add: dec_hash_def dec_map_def dec_simps)

lemma dec_u32_append: "dec_u32 (to_le w @ rest) = Some (w, rest)" for w :: u32
  by (simp add: dec_u32_def dec_map_def dec_simps of_le_to_le)

lemma dec_u64_append: "dec_u64 (to_le w @ rest) = Some (w, rest)" for w :: u64
  by (simp add: dec_u64_def dec_map_def dec_simps of_le_to_le)

lemma dec_vec_append: "length bs < 2 ^ 32 \<Longrightarrow> dec_vec (enc_vec bs @ rest) = Some (bs, rest)"
  by (simp add: dec_vec_def enc_vec_def dec_bind_def dec_u32_append dec_simps unsigned_of_nat
      take_bit_nat_eq_self)

lemma char_of_byte: "char_of (unat (of_char c :: byte)) = c"
proof -
  have "(of_char c :: byte) = of_nat (of_char c)" by (simp only: of_nat_of_char)
  moreover have "of_char c < (256 :: nat)" by (rule nat_of_char_less_256)
  ultimately show ?thesis by (simp only: unat_of_nat_byte mod_less char_of_char)
qed

lemma dec_text_append: "length s < 2 ^ 32 \<Longrightarrow> dec_text (enc_text s @ rest) = Some (s, rest)"
  by (simp add: dec_text_def enc_text_def dec_map_def dec_vec_append ascii_def char_of_byte comp_def)

lemma dec_opt_append:
  "(\<And>x. v = Some x \<Longrightarrow> d (e x @ rest) = Some (x, rest)) \<Longrightarrow>
   dec_opt d (enc_opt e v @ rest) = Some (v, rest)"
  by (cases v) (simp_all add: dec_opt_def dec_simps dec_map_def)

lemma length_enc [layout_len]: "length (enc_vec bs) = 4 + length bs"
  by (simp add: enc_vec_def)

text \<open>
  A record's decoder is a chain of binds: each lemma of this bundle peels one field.
\<close>

lemma dec_fields:
  "dec_bind dec_hash k (bytes_of h @ rest) = k h rest"
  "dec_bind dec_u32 k32 (to_le w @ rest) = k32 w rest"
  "dec_bind dec_u64 k64 (to_le i @ rest) = k64 i rest"
  "length xs = n \<Longrightarrow> dec_bind (dec_take n) kx (xs @ rest) = kx xs rest"
  "length xs < 2 ^ 32 \<Longrightarrow> dec_bind dec_vec kx (enc_vec xs @ rest) = kx xs rest"
  "dec_bind dec_byte kb (b # rest) = kb b rest"
  by (simp_all add: dec_bind_Some [where r = rest] dec_hash_append dec_u32_append dec_u64_append
      dec_take_append dec_vec_append dec_byte_Cons)

section \<open>Instructions\<close>

text \<open>
  \<open>borsh::to_vec(&Instruction)\<close>: the discriminants follow the order of the variants.
\<close>

fun enc_instruction :: "instruction \<Rightarrow> byte list" where
  "enc_instruction (CreateMultisig ck root m' n') = 0 # bytes_of ck @ bytes_of root @ m' # to_le n'"
| "enc_instruction (Propose ck i action target) =
     1 # bytes_of ck @ to_le i @ enc_vec action @ bytes_of target"
| "enc_instruction (Approve ck i nul pi) = 2 # bytes_of ck @ to_le i @ bytes_of nul @ enc_vec pi"
| "enc_instruction (Execute ck i) = 3 # bytes_of ck @ to_le i"
| "enc_instruction (CreateVault ck) = 4 # bytes_of ck"
| "enc_instruction (Reject ck) = 5 # bytes_of ck"

definition dec_instruction :: "instruction decoder" where
  "dec_instruction = dec_bind dec_byte (\<lambda>t.
     if 5 < t then (\<lambda>_. None) else dec_bind dec_hash (\<lambda>ck.
     if t = 0 then dec_bind dec_hash (\<lambda>root. dec_bind dec_byte (\<lambda>m'. dec_bind dec_u32 (\<lambda>n'.
       dec_pure (CreateMultisig ck root m' n'))))
     else if t = 4 then dec_pure (CreateVault ck)
     else if t = 5 then dec_pure (Reject ck)
     else dec_bind dec_u64 (\<lambda>i.
       if t = 1 then dec_bind dec_vec (\<lambda>action. dec_bind dec_hash (\<lambda>target.
         dec_pure (Propose ck i action target)))
       else if t = 2 then dec_bind dec_hash (\<lambda>nul. dec_bind dec_vec (\<lambda>pi.
         dec_pure (Approve ck i nul pi)))
       else dec_pure (Execute ck i))))"

fun small_instruction :: "instruction \<Rightarrow> bool" where
  "small_instruction (Propose ck i action target) \<longleftrightarrow> length action < 2 ^ 32"
| "small_instruction (Approve ck i nul pi) \<longleftrightarrow> length pi < 2 ^ 32"
| "small_instruction _ \<longleftrightarrow> True"

interpretation instruction_layout: stream_codec enc_instruction dec_instruction small_instruction
proof unfold_locales
  show "dec_instruction (enc_instruction x @ rest) = Some (x, rest)" if "small_instruction x" for x rest
    using that by (cases x) (simp_all add: dec_instruction_def dec_fields dec_pure_eq)
qed

end
