(* ===== verification/Session_Store.thy ===== *)
theory Session_Store
  imports Sdk_Session Borsh_Codec "HOL-Library.List_Lexorder"
begin

text \<open>
  The session store (\<open>SessionStore\<close> of \<open>sdk/src/session.rs\<close>): a mutex around a sled tree from
  96-byte keys to Borsh-encoded sessions. sled and the operating system are the records
  \<open>sled_tree\<close> and \<open>session_host\<close>: each operation answers a value or an error's text, and the
  ones that write also give the tree afterwards. \<open>sled_ok\<close> states sled's documented contract:
  the tree is a map ordered by the bytes of the keys, \<open>range\<close> yields the entries from a key
  on in ascending order until the end or an error.
\<close>

type_synonym entry = "byte list \<times> byte list"

record 't sled_tree =
  tree_insert :: "'t \<Rightarrow> byte list \<Rightarrow> byte list \<Rightarrow> (string + unit) \<times> 't"
  tree_get :: "'t \<Rightarrow> byte list \<Rightarrow> string + byte list option"
  tree_range_from :: "'t \<Rightarrow> byte list \<Rightarrow> (string + entry) list"
  tree_remove :: "'t \<Rightarrow> byte list \<Rightarrow> (string + unit) \<times> 't"
  session_to_vec :: "approval_session \<Rightarrow> byte list option"
  session_from_slice :: "byte list \<Rightarrow> approval_session option"

text \<open>What \<open>open\<close> asks of the operating system and of sled; a path is its components.\<close>

record 't session_host =
  home_dir :: "string list option"
  create_dir_all :: "string list \<Rightarrow> string + unit"
  sled_open_tree :: "string list \<Rightarrow> string \<Rightarrow> string + 't"

record 't session_store =
  poisoned :: bool
  sled :: 't

section \<open>Keys\<close>

record session_key =
  key_instance :: bytes32
  key_proposal :: bytes32
  key_commitment :: bytes32

definition session_key_new :: "bytes32 \<Rightarrow> bytes32 \<Rightarrow> identity_commitment \<Rightarrow> session_key" where
  "session_key_new pda pid c =
     \<lparr>key_instance = pda, key_proposal = pid, key_commitment = commitment_bytes c\<rparr>"

text \<open>The Borsh layout of three arrays: their concatenation.\<close>

definition key_to_vec :: "session_key \<Rightarrow> byte list" where
  "key_to_vec k = bytes_of (key_instance k) @ bytes_of (key_proposal k) @ bytes_of (key_commitment k)"

section \<open>The store\<close>

definition db_path :: "'t session_host \<Rightarrow> sdk_error + string list" where
  "db_path os =
     try_bind (ok_or HomeDirNotFound (home_dir os)) (\<lambda>home.
       Inr (home @ [''.private-multisig'', ''state'']))"

definition store_open :: "'t session_host \<Rightarrow> sdk_error + 't session_store" where
  "store_open os =
     try_bind (db_path os) (\<lambda>path.
     try_bind (if path = [] then Inr ()
               else map_err SessionStoreOpenFailed (create_dir_all os (butlast path))) (\<lambda>_.
     try_bind (map_err SessionStoreOpenFailed (sled_open_tree os path ''approval_sessions'')) (\<lambda>tree.
       Inr \<lparr>poisoned = False, sled = tree\<rparr>)))"

text \<open>\<open>self.inner.lock()\<close>: a mutex whose holder panicked answers an error ever after.\<close>

definition store_lock :: "'t session_store \<Rightarrow> sdk_error + 't" where
  "store_lock st =
     (if poisoned st
      then Inl (SessionStoreOpenFailed ''mutex poisoned: poisoned lock: another task failed inside'')
      else Inr (sled st))"

definition store_save ::
  "'t sled_tree \<Rightarrow> 't session_store \<Rightarrow> approval_session \<Rightarrow> (sdk_error + unit) \<times> 't session_store" where
  "store_save T st s =
     (let key = session_key_new (instance_pda s) (proposal_id s) (member_commitment s);
          key_bytes = key_to_vec key
      in case ok_or BorshSerializationFailed (session_to_vec T s) of
           Inl e \<Rightarrow> (Inl e, st)
         | Inr value_bytes \<Rightarrow>
             (case store_lock st of
                Inl e \<Rightarrow> (Inl e, st)
              | Inr tree \<Rightarrow>
                  (let (r, tree) = tree_insert T tree key_bytes value_bytes
                   in (map_err SessionStoreOpenFailed r, st\<lparr>sled := tree\<rparr>))))"

definition store_load ::
  "'t sled_tree \<Rightarrow> 't session_store \<Rightarrow> bytes32 \<Rightarrow> bytes32 \<Rightarrow> identity_commitment \<Rightarrow>
   sdk_error + approval_session" where
  "store_load T st pda pid c =
     (let key_bytes = key_to_vec (session_key_new pda pid c)
      in try_bind (store_lock st) (\<lambda>tree.
         try_bind (map_err SessionStoreOpenFailed (tree_get T tree key_bytes)) (\<lambda>found.
         try_bind (ok_or SessionNotFound found) (\<lambda>value_bytes.
           ok_or SessionCorrupted (session_from_slice T value_bytes)))))"

text \<open>The loop over the range, with the results so far.\<close>

fun collect_sessions ::
  "'t sled_tree \<Rightarrow> byte list \<Rightarrow> (string + entry) list \<Rightarrow> approval_session list \<Rightarrow>
   sdk_error + approval_session list" where
  "collect_sessions T prefix [] results = Inr results"
| "collect_sessions T prefix (Inl e # items) results = Inl (SessionStoreOpenFailed e)"
| "collect_sessions T prefix (Inr (key_bytes, value_bytes) # items) results =
     (if length key_bytes < length prefix \<or> take (length prefix) key_bytes \<noteq> prefix then Inr results
      else try_bind (ok_or SessionCorrupted (session_from_slice T value_bytes)) (\<lambda>s.
        collect_sessions T prefix items (results @ [s])))"

definition load_for_proposal ::
  "'t sled_tree \<Rightarrow> 't session_store \<Rightarrow> bytes32 \<Rightarrow> bytes32 \<Rightarrow> sdk_error + approval_session list" where
  "load_for_proposal T st pda pid =
     (let prefix = bytes_of pda @ bytes_of pid
      in try_bind (store_lock st) (\<lambda>tree. collect_sessions T prefix (tree_range_from T tree prefix) []))"

definition store_delete ::
  "'t sled_tree \<Rightarrow> 't session_store \<Rightarrow> bytes32 \<Rightarrow> bytes32 \<Rightarrow> identity_commitment \<Rightarrow>
   (sdk_error + unit) \<times> 't session_store" where
  "store_delete T st pda pid c =
     (let key_bytes = key_to_vec (session_key_new pda pid c)
      in case store_lock st of
           Inl e \<Rightarrow> (Inl e, st)
         | Inr tree \<Rightarrow>
             (let (r, tree) = tree_remove T tree key_bytes
              in (map_err SessionStoreOpenFailed r, st\<lparr>sled := tree\<rparr>)))"

section \<open>sled's contract\<close>

text \<open>An iterator over entries yields them in turn, or the first few and then an error.\<close>

definition yields :: "(string + 'a) list \<Rightarrow> 'a list \<Rightarrow> bool" where
  "yields items xs \<longleftrightarrow>
     items = map Inr xs \<or> (\<exists>j e more. items = map Inr (take j xs) @ Inl e # more)"

definition sled_ok :: "'t sled_tree \<Rightarrow> ('t \<Rightarrow> entry list) \<Rightarrow> bool" where
  "sled_ok T contents \<longleftrightarrow>
     (\<forall>t. sorted_wrt (<) (map fst (contents t))) \<and>
     (\<forall>t k v t'. tree_insert T t k v = (Inr (), t') \<longrightarrow>
        map_of (contents t') = (map_of (contents t))(k \<mapsto> v)) \<and>
     (\<forall>t k found. tree_get T t k = Inr found \<longrightarrow> found = map_of (contents t) k) \<and>
     (\<forall>t k t'. tree_remove T t k = (Inr (), t') \<longrightarrow>
        map_of (contents t') = (map_of (contents t))(k := None)) \<and>
     (\<forall>t p. yields (tree_range_from T t p) (filter (\<lambda>(k, v). p \<le> k) (contents t)))"

text \<open>The codec reads back what it wrote.\<close>

definition sessions_decode :: "'t sled_tree \<Rightarrow> bool" where
  "sessions_decode T \<longleftrightarrow> (\<forall>s bs. session_to_vec T s = Some bs \<longrightarrow> session_from_slice T bs = Some s)"

definition key_of :: "approval_session \<Rightarrow> byte list" where
  "key_of s = key_to_vec (session_key_new (instance_pda s) (proposal_id s) (member_commitment s))"

text \<open>Every entry of the tree is a session that \<open>save\<close> wrote, under its own key.\<close>

definition only_saved :: "'t sled_tree \<Rightarrow> entry list \<Rightarrow> bool" where
  "only_saved T es \<longleftrightarrow> (\<forall>e \<in> set es. \<exists>s. session_to_vec T s = Some (snd e) \<and> fst e = key_of s)"

lemma length_key [layout_len]: "length (key_to_vec k) = 96"
  by (simp add: key_to_vec_def)

lemma key_to_vec_inj: "key_to_vec k = key_to_vec k' \<longleftrightarrow> k = k'"
  by (cases k; cases k') (auto simp: key_to_vec_def)

lemma session_keys_eq:
  "key_to_vec (session_key_new pda pid c) = key_to_vec (session_key_new pda' pid' c') \<longleftrightarrow>
   pda = pda' \<and> pid = pid' \<and> c = c'"
  by (simp add: key_to_vec_inj session_key_new_def commitment_bytes_inj)

section \<open>Scanning a prefix\<close>

text \<open>
  In the order of the bytes, the keys with a given prefix are the first ones from the prefix
  on: nothing comes between them, so the scan may stop at the first other key.
\<close>

definition has_prefix :: "byte list \<Rightarrow> byte list \<Rightarrow> bool" where
  "has_prefix p k \<longleftrightarrow> \<not> (length k < length p \<or> take (length p) k \<noteq> p)"

lemma has_prefix_iff: "has_prefix p k \<longleftrightarrow> (\<exists>r. k = p @ r)"
  unfolding has_prefix_def by (metis append_eq_conv_conj length_append not_add_less1)

lemma prefix_le: "p \<le> p @ (r :: byte list)"
  by (induction p) simp_all

lemma append_less_append: "p @ a < p @ b \<longleftrightarrow> a < (b :: byte list)"
  by (induction p) simp_all

lemma between_prefix: "p \<le> k \<Longrightarrow> k \<le> p @ r \<Longrightarrow> has_prefix p (k :: byte list)"
proof (induction p arbitrary: k)
  case (Cons x p)
  then obtain y k' where k: "k = y # k'" by (cases k) simp_all
  with Cons.prems have "x = y" "p \<le> k'" "k' \<le> p @ r" by (auto simp: less_le_not_le)
  with Cons.IH [of k'] show ?case by (auto simp: k has_prefix_def)
qed (simp add: has_prefix_def)

lemma scan_prefix:
  assumes "sorted_wrt (<) (map fst es)"
  shows "takeWhile (\<lambda>e. has_prefix p (fst e)) (filter (\<lambda>(k, v). p \<le> k) es) =
     filter (\<lambda>e. has_prefix p (fst e)) es"
  using assms
proof (induction es)
  case (Cons e es)
  obtain k v where e: "e = (k, v)" by (cases e)
  show ?case
  proof (cases "has_prefix p k \<or> \<not> p \<le> k")
    case True
    moreover have "has_prefix p k \<Longrightarrow> p \<le> k" using prefix_le by (auto simp: has_prefix_iff)
    ultimately show ?thesis using Cons by (auto simp: e)
  next
    case False
    have "\<not> has_prefix p k'" if "(k', v') \<in> set es" for k' v'
    proof
      assume "has_prefix p k'"
      then obtain r where "k' = p @ r" by (auto simp: has_prefix_iff)
      moreover have "k < k'" using that Cons.prems by (force simp: e)
      ultimately have "has_prefix p k" using False between_prefix [of p k r] order_less_imp_le by blast
      with False show False by blast
    qed
    then have "filter (\<lambda>e. has_prefix p (fst e)) es = []" by (auto simp: filter_empty_conv)
    with False show ?thesis by (simp add: e)
  qed
qed simp

lemma yields_Nil: "yields items [] \<Longrightarrow> items = [] \<or> (\<exists>e more. items = Inl e # more)"
  by (auto simp: yields_def)

lemma yields_Cons:
  assumes "yields items (x # xs)"
  shows "(\<exists>rest. items = Inr x # rest \<and> yields rest xs) \<or> (\<exists>e more. items = Inl e # more)"
proof (cases "items = map Inr (x # xs)")
  case False
  with assms obtain j e more where i: "items = map Inr (take j (x # xs)) @ Inl e # more"
    by (auto simp: yields_def)
  show ?thesis
  proof (cases j)
    case (Suc j')
    with i have "items = Inr x # (map Inr (take j' xs) @ Inl e # more)" by simp
    then show ?thesis unfolding yields_def by blast
  qed (use i in simp)
qed (simp add: yields_def)

text \<open>What the loop answers when it answers, and how it can fail.\<close>

lemma collect_sessions_value:
  assumes "yields items xs"
  shows "collect_sessions T p items acc = Inr rs \<Longrightarrow>
     \<exists>ss. rs = acc @ ss \<and> map (\<lambda>e. session_from_slice T (snd e)) (takeWhile (\<lambda>e. has_prefix p (fst e)) xs)
       = map Some ss"
  using assms
proof (induction xs arbitrary: items acc)
  case Nil
  then show ?case using yields_Nil [OF Nil.prems(2)] by auto
next
  case (Cons x xs)
  obtain k v where x: "x = (k, v)" by (cases x)
  from yields_Cons [OF Cons.prems(2)] Cons.prems(1) obtain rest
    where items: "items = Inr x # rest" and rest: "yields rest xs" by auto
  show ?case
  proof (cases "has_prefix p k")
    case True
    then have "\<not> (length k < length p \<or> take (length p) k \<noteq> p)" by (simp add: has_prefix_def)
    with Cons.prems(1) obtain s where s: "session_from_slice T v = Some s"
      and r: "collect_sessions T p rest (acc @ [s]) = Inr rs"
      by (auto simp: items x result_simps)
    from Cons.IH [OF r rest] s True show ?thesis by (auto simp: x)
  next
    case False
    then have "length k < length p \<or> take (length p) k \<noteq> p" by (simp add: has_prefix_def)
    with Cons.prems(1) False show ?thesis by (simp add: items x)
  qed
qed

lemma collect_sessions_error:
  assumes "yields items xs" and "\<forall>e \<in> set xs. session_from_slice T (snd e) \<noteq> None"
  shows "collect_sessions T p items acc = Inl err \<Longrightarrow> \<exists>m. err = SessionStoreOpenFailed m"
  using assms
proof (induction xs arbitrary: items acc)
  case Nil
  then show ?case using yields_Nil [OF Nil.prems(2)] by auto
next
  case (Cons x xs)
  obtain k v where x: "x = (k, v)" by (cases x)
  from yields_Cons [OF Cons.prems(2)] show ?case
  proof (elim disjE exE conjE)
    fix rest assume items: "items = Inr x # rest" and rest: "yields rest xs"
    have "session_from_slice T v \<noteq> None" using Cons.prems(3) by (simp add: x)
    then obtain s where "session_from_slice T v = Some s" by blast
    with Cons.prems(1) have "collect_sessions T p rest (acc @ [s]) = Inl err"
      by (auto simp: items x split: if_splits)
    then show ?thesis using Cons.IH [OF _ rest] Cons.prems(3) by auto
  qed (use Cons.prems(1) in auto)
qed

section \<open>A concrete store for the examples\<close>

text \<open>The Borsh layout of a session, and a tree that keeps its entries in a list.\<close>

fun status_of_rank :: "byte \<Rightarrow> session_status option" where
  "status_of_rank b =
     (if b = 0 then Some Drafted else if b = 1 then Some Proving else if b = 2 then Some Proved
      else if b = 3 then Some Submitted else if b = 4 then Some Confirmed
      else if b = 5 then Some Failed else None)"

definition enc_session :: "approval_session \<Rightarrow> byte list" where
  "enc_session s = bytes_of (instance_pda s) @ bytes_of (proposal_id s) @
     bytes_of (commitment_bytes (member_commitment s)) @ of_nat (status_rank (status s)) #
     enc_opt enc_vec (receipt s) @ enc_opt id (public_inputs s) @ enc_opt bytes_of (ses_nullifier s) @
     enc_opt to_le (submission_block s) @ enc_opt enc_text (error_message s) @
     to_le (retry_count s) @ to_le (last_updated s)"

definition dec_session :: "approval_session decoder" where
  "dec_session = dec_bind dec_hash (\<lambda>pda. dec_bind dec_hash (\<lambda>pid. dec_bind dec_hash (\<lambda>c.
     dec_bind dec_byte (\<lambda>b. case status_of_rank b of None \<Rightarrow> (\<lambda>_. None) | Some st \<Rightarrow>
     dec_bind (dec_opt dec_vec) (\<lambda>rcpt. dec_bind (dec_opt (dec_take 96)) (\<lambda>pi.
     dec_bind (dec_opt dec_hash) (\<lambda>nul. dec_bind (dec_opt dec_u64) (\<lambda>block.
     dec_bind (dec_opt dec_text) (\<lambda>err. dec_bind dec_u32 (\<lambda>retry. dec_bind dec_u64 (\<lambda>upd.
     dec_pure \<lparr>instance_pda = pda, proposal_id = pid, member_commitment = IdentityCommitment c,
       status = st, receipt = rcpt, public_inputs = pi, ses_nullifier = nul, submission_block = block,
       error_message = err, retry_count = retry, last_updated = upd\<rparr>)))))))))))"

definition session_ok :: "approval_session \<Rightarrow> bool" where
  "session_ok s \<longleftrightarrow> pred_option (\<lambda>bs. length bs < 2 ^ 32) (receipt s) \<and>
     pred_option (\<lambda>bs. length bs = 96) (public_inputs s) \<and>
     pred_option (\<lambda>t. length t < 2 ^ 32) (error_message s)"

lemma dec_opt_bind:
  "(\<And>x r. v = Some x \<Longrightarrow> d (e x @ r) = Some (x, r)) \<Longrightarrow>
   dec_bind (dec_opt d) k (enc_opt e v @ rest) = k v rest"
  by (rule dec_bind_Some) (rule dec_opt_append)

lemma status_of_rank: "status_of_rank (of_nat (status_rank a)) = Some a"
  by (cases a) simp_all

interpretation session_layout: stream_codec enc_session dec_session session_ok
proof unfold_locales
  fix s rest assume ok: "session_ok s"
  have o: "dec_bind (dec_opt dec_vec) k (enc_opt enc_vec (receipt s) @ r) = k (receipt s) r"
    "dec_bind (dec_opt (dec_take 96)) k (enc_opt id (public_inputs s) @ r) = k (public_inputs s) r"
    "dec_bind (dec_opt dec_text) k' (enc_opt enc_text (error_message s) @ r) = k' (error_message s) r"
    "dec_bind (dec_opt dec_hash) k2 (enc_opt bytes_of n @ r) = k2 n r"
    "dec_bind (dec_opt dec_u64) k3 (enc_opt to_le b @ r) = k3 b r" for k k' k2 k3 n b r
    using ok by (intro dec_opt_bind;
        simp add: session_ok_def dec_vec_append dec_text_append dec_take_append dec_hash_append
          dec_u64_append)+
  have c: "IdentityCommitment (commitment_bytes x) = x" for x by (cases x) simp
  show "dec_session (enc_session s @ rest) = Some (s, rest)"
    by (simp add: dec_session_def enc_session_def dec_fields status_of_rank o c dec_pure_eq
        del: status_of_rank.simps)
qed

definition list_contents :: "entry list \<Rightarrow> entry list" where
  "list_contents t = map (\<lambda>k. (k, the (map_of t k))) (sort (remdups (map fst t)))"

definition sample_sled :: "entry list sled_tree" where
  "sample_sled =
     \<lparr>tree_insert = (\<lambda>t k v. (Inr (), (k, v) # t)), tree_get = (\<lambda>t k. Inr (map_of t k)),
      tree_range_from = (\<lambda>t p. map Inr (filter (\<lambda>(k, v). p \<le> k) (list_contents t))),
      tree_remove = (\<lambda>t k. (Inr (), filter (\<lambda>e. fst e \<noteq> k) t)),
      session_to_vec = (\<lambda>s. if session_ok s then Some (enc_session s) else None),
      session_from_slice = from_slice dec_session\<rparr>"

lemma map_of_contents: "map_of (list_contents t) = map_of t"
proof
  show "map_of (list_contents t) k = map_of t k" for k
    using map_of_eq_None_iff [of t k]
    by (cases "map_of t k") (auto simp: list_contents_def map_of_map_restrict restrict_map_def
        dest!: map_of_SomeD intro!: image_eqI)
qed

lemma sample_sled_ok: "sled_ok sample_sled list_contents"
proof -
  have "sorted_wrt (<) (map fst (list_contents t))" for t
    by (simp add: list_contents_def comp_def strict_sorted_iff)
  moreover have "map_of (filter (\<lambda>e. fst e \<noteq> k) t) = (map_of t)(k := None)" for k and t :: "entry list"
    by (rule ext) (induction t, auto)
  ultimately show ?thesis
    unfolding sled_ok_def by (auto simp: sample_sled_def map_of_contents yields_def)
qed

lemma sample_sled_decodes: "sessions_decode sample_sled"
  using session_layout.dec_enc by (auto simp: sessions_decode_def sample_sled_def split: if_splits)

section \<open>Properties of the store\<close>

definition reads_succeed :: "'t sled_tree \<Rightarrow> bool" where
  "reads_succeed T \<longleftrightarrow> (\<forall>t k. \<exists>found. tree_get T t k = Inr found)"

lemma sled_okD:
  assumes "sled_ok T contents"
  shows "sorted_wrt (<) (map fst (contents t))"
    and "tree_insert T t k v = (Inr (), t') \<Longrightarrow> map_of (contents t') = (map_of (contents t))(k \<mapsto> v)"
    and "tree_get T t k = Inr found \<Longrightarrow> found = map_of (contents t) k"
    and "tree_remove T t k = (Inr (), t') \<Longrightarrow> map_of (contents t') = (map_of (contents t))(k := None)"
    and "yields (tree_range_from T t p) (filter (\<lambda>(k, v). p \<le> k) (contents t))"
  using assms unfolding sled_ok_def by blast+

lemma get_value:
  "sled_ok T contents \<Longrightarrow> reads_succeed T \<Longrightarrow> tree_get T t k = Inr (map_of (contents t) k)"
  unfolding reads_succeed_def using sled_okD(3) by metis

lemma load_value:
  "sled_ok T contents \<Longrightarrow> reads_succeed T \<Longrightarrow> \<not> poisoned st \<Longrightarrow>
   store_load T st pda pid c =
     (case map_of (contents (sled st)) (key_to_vec (session_key_new pda pid c)) of
        None \<Rightarrow> Inl SessionNotFound
      | Some v \<Rightarrow> ok_or SessionCorrupted (session_from_slice T v))"
  by (simp add: store_load_def store_lock_def Let_def get_value split: option.splits)

lemma save_value:
  assumes "store_save T st s = (Inr (), st')"
  shows "\<not> poisoned st \<and> \<not> poisoned st' \<and>
    (\<exists>v. session_to_vec T s = Some v \<and> tree_insert T (sled st) (key_of s) v = (Inr (), sled st'))"
  using assms
  by (cases "session_to_vec T s"; cases "store_lock st")
    (auto simp: store_save_def store_lock_def Let_def key_of_def map_err_eq_Inr
      split: prod.splits if_splits)

lemma delete_value:
  assumes "store_delete T st pda pid c = (Inr (), st')"
  shows "\<not> poisoned st \<and> \<not> poisoned st' \<and>
    tree_remove T (sled st) (key_to_vec (session_key_new pda pid c)) = (Inr (), sled st')"
  using assms
  by (cases "store_lock st")
    (auto simp: store_delete_def store_lock_def Let_def map_err_eq_Inr split: prod.splits if_splits)

lemma load_after_save:
  assumes T: "sled_ok T contents" "reads_succeed T" "sessions_decode T"
    and save: "store_save T st s = (Inr (), st')"
  shows "store_load T st' pda pid c =
    (if (pda, pid, c) = (instance_pda s, proposal_id s, member_commitment s) then Inr s
     else store_load T st pda pid c)"
proof -
  from save_value [OF save] obtain v where p: "\<not> poisoned st" "\<not> poisoned st'"
    and v: "session_to_vec T s = Some v" and i: "tree_insert T (sled st) (key_of s) v = (Inr (), sled st')"
    by blast
  have "session_from_slice T v = Some s" using T(3) v by (simp add: sessions_decode_def)
  then show ?thesis
    using sled_okD(2) [OF T(1) i]
    by (simp add: load_value [OF T(1,2)] p key_of_def session_keys_eq)
qed

lemma load_after_delete:
  assumes T: "sled_ok T contents" "reads_succeed T"
    and del: "store_delete T st pda pid c = (Inr (), st')"
  shows "store_load T st' pda' pid' c' =
    (if (pda', pid', c') = (pda, pid, c) then Inl SessionNotFound else store_load T st pda' pid' c')"
proof -
  from delete_value [OF del] have p: "\<not> poisoned st" "\<not> poisoned st'"
    and r: "tree_remove T (sled st) (key_to_vec (session_key_new pda pid c)) = (Inr (), sled st')"
    by blast+
  show ?thesis
    using sled_okD(4) [OF T(1) r] by (simp add: load_value [OF T] p session_keys_eq)
qed

text \<open>
  C33: The store is a map from \<open>(instance, proposal, member)\<close> to sessions. After a successful
  \<open>save\<close>, \<open>load\<close> answers the saved session under its key and what it answered before under every
  other; after a successful \<open>delete\<close> it answers \<open>SessionNotFound\<close> under the deleted key and
  what it answered before under every other.
\<close>

theorem store_is_map:
  assumes "sled_ok T contents" and "reads_succeed T" and "sessions_decode T"
    and "store_save T st s = (Inr (), st1)" and "store_delete T st1 pda pid c = (Inr (), st2)"
  shows "store_load T st1 pda' pid' c' =
       (if (pda', pid', c') = (instance_pda s, proposal_id s, member_commitment s) then Inr s
        else store_load T st pda' pid' c') \<and>
     store_load T st2 pda' pid' c' =
       (if (pda', pid', c') = (pda, pid, c) then Inl SessionNotFound
        else store_load T st1 pda' pid' c')"
  using load_after_save [OF assms(1-4)] load_after_delete [OF assms(1,2,5)] by blast

lemma sample_sled_reads: "reads_succeed sample_sled"
  by (simp add: reads_succeed_def sample_sled_def)

lemma sample_session_ok: "session_ok (sample_session a)"
  by (cases a) (simp_all add: session_ok_def sample_session_def session_new_def Let_def)

lemma sample_save:
  "session_ok s \<Longrightarrow> store_save sample_sled \<lparr>poisoned = False, sled = t\<rparr> s =
     (Inr (), \<lparr>poisoned = False, sled = (key_of s, enc_session s) # t\<rparr>)"
  by (simp add: store_save_def sample_sled_def store_lock_def Let_def key_of_def)

theorem store_is_map_witness:
  "\<exists>st1 st2. store_save sample_sled \<lparr>poisoned = False, sled = []\<rparr> (sample_session Submitted) = (Inr (), st1) \<and>
     store_load sample_sled st1 1 2 (IdentityCommitment 3) = Inr (sample_session Submitted) \<and>
     store_delete sample_sled st1 1 2 (IdentityCommitment 3) = (Inr (), st2) \<and>
     store_load sample_sled st2 1 2 (IdentityCommitment 3) = Inl SessionNotFound"
proof -
  let ?s = "sample_session Submitted"
  have k: "instance_pda ?s = 1" "proposal_id ?s = 2" "member_commitment ?s = IdentityCommitment 3"
    by (simp_all add: sample_session_def session_new_def Let_def)
  note sv = sample_save [OF sample_session_ok, of "[]" Submitted]
  let ?st1 = "\<lparr>poisoned = False, sled = [(key_of ?s, enc_session ?s)]\<rparr>"
  obtain st2 where d: "store_delete sample_sled ?st1 1 2 (IdentityCommitment 3) = (Inr (), st2)"
    by (simp add: store_delete_def store_lock_def sample_sled_def Let_def)
  from store_is_map [OF sample_sled_ok sample_sled_reads sample_sled_decodes sv d,
      of 1 2 "IdentityCommitment 3"] k sv d show ?thesis by auto
qed

lemma stored_value:
  "sled_ok T contents \<Longrightarrow> (k, v) \<in> set (contents t) \<longleftrightarrow> map_of (contents t) k = Some v"
  using sled_okD(1) [of T contents t]
  by (metis map_of_SomeD map_of_is_SomeI strict_sorted_iff)

lemma stored_entry:
  "sled_ok T contents \<Longrightarrow> e \<in> set (contents t) \<longleftrightarrow> map_of (contents t) (fst e) = Some (snd e)"
  using stored_value [of T contents "fst e" "snd e" t] by simp

lemma has_prefix_le: "has_prefix p k \<Longrightarrow> p \<le> k"
  using prefix_le has_prefix_iff by metis

lemma key_has_prefix:
  "has_prefix (bytes_of pda @ bytes_of pid) (key_of s) \<longleftrightarrow> instance_pda s = pda \<and> proposal_id s = pid"
  by (auto simp: has_prefix_iff key_of_def key_to_vec_def session_key_new_def)

lemma key_of_split:
  "key_of s = (bytes_of (instance_pda s) @ bytes_of (proposal_id s)) @
     bytes_of (commitment_bytes (member_commitment s))"
  by (simp add: key_of_def key_to_vec_def session_key_new_def)

text \<open>The loop's answer, as the stored entries under the prefix.\<close>

lemma load_for_proposal_entries:
  assumes T: "sled_ok T contents" "sessions_decode T" and st: "only_saved T (contents (sled st))"
    and load: "load_for_proposal T st pda pid = Inr ss"
  defines "G \<equiv> filter (\<lambda>e. has_prefix (bytes_of pda @ bytes_of pid) (fst e)) (contents (sled st))"
  shows "map (\<lambda>e. session_from_slice T (snd e)) G = map Some ss" and "map key_of ss = map fst G"
proof -
  let ?p = "bytes_of pda @ bytes_of pid"
  from load have c: "collect_sessions T ?p (tree_range_from T (sled st) ?p) [] = Inr ss"
    by (auto simp: load_for_proposal_def store_lock_def Let_def split: if_splits)
  show dec: "map (\<lambda>e. session_from_slice T (snd e)) G = map Some ss"
    using collect_sessions_value [OF sled_okD(5) [OF T(1)] c] scan_prefix [OF sled_okD(1) [OF T(1)]]
    by (auto simp: G_def)
  have one: "map_option key_of (session_from_slice T (snd e)) = Some (fst e)" if "e \<in> set G" for e
  proof -
    from that st obtain s where "session_to_vec T s = Some (snd e)" "fst e = key_of s"
      unfolding only_saved_def G_def by auto
    with T(2) show ?thesis by (auto simp: sessions_decode_def)
  qed
  have "map Some (map key_of ss) = map (map_option key_of) (map Some ss)" by simp
  also have "\<dots> = map (\<lambda>e. map_option key_of (session_from_slice T (snd e))) G"
    by (simp add: dec [symmetric])
  also have "\<dots> = map Some (map fst G)" using one by simp
  finally show "map key_of ss = map fst G" by (metis list.inj_map_strong option.inject)
qed

lemma load_for_proposal_set:
  assumes T: "sled_ok T contents" "sessions_decode T" and st: "only_saved T (contents (sled st))"
    and load: "load_for_proposal T st pda pid = Inr ss"
  shows "s \<in> set ss \<longleftrightarrow> instance_pda s = pda \<and> proposal_id s = pid \<and>
    (\<exists>v. map_of (contents (sled st)) (key_of s) = Some v \<and> session_from_slice T v = Some s)"
proof -
  let ?G = "filter (\<lambda>e. has_prefix (bytes_of pda @ bytes_of pid) (fst e)) (contents (sled st))"
  note e = load_for_proposal_entries [OF T st load]
  have "s \<in> set ss \<longleftrightarrow> Some s \<in> set (map Some ss)" by auto
  also have "\<dots> \<longleftrightarrow> (\<exists>e \<in> set ?G. session_from_slice T (snd e) = Some s)"
    unfolding e(1) [symmetric] set_map by (metis (no_types, lifting) image_iff)
  finally have "s \<in> set ss \<longleftrightarrow> (\<exists>k v. (k, v) \<in> set ?G \<and> session_from_slice T v = Some s)"
    by (metis (no_types, lifting) prod.collapse snd_conv)
  moreover have "k = key_of s" if "(k, v) \<in> set ?G" "session_from_slice T v = Some s" for k v
  proof -
    from that(1) have "(k, v) \<in> set (contents (sled st))" by simp
    with st obtain s' where "session_to_vec T s' = Some v" "k = key_of s'"
      unfolding only_saved_def by fastforce
    with T(2) that(2) show ?thesis by (auto simp: sessions_decode_def)
  qed
  ultimately have "s \<in> set ss \<longleftrightarrow> (\<exists>v. (key_of s, v) \<in> set ?G \<and> session_from_slice T v = Some s)"
    by blast
  also have "\<dots> \<longleftrightarrow> (\<exists>v. map_of (contents (sled st)) (key_of s) = Some v \<and>
      has_prefix (bytes_of pda @ bytes_of pid) (key_of s) \<and> session_from_slice T v = Some s)"
    by (simp add: stored_value [OF T(1)])
  finally show ?thesis by (auto simp: key_has_prefix)
qed

lemma load_for_proposal_sorted:
  assumes T: "sled_ok T contents" "sessions_decode T" and st: "only_saved T (contents (sled st))"
    and load: "load_for_proposal T st pda pid = Inr ss"
  shows "sorted_wrt (\<lambda>s t. bytes_of (commitment_bytes (member_commitment s))
    < bytes_of (commitment_bytes (member_commitment t))) ss"
proof -
  let ?G = "filter (\<lambda>e. has_prefix (bytes_of pda @ bytes_of pid) (fst e)) (contents (sled st))"
  have "sorted_wrt (<) (map fst ?G)"
    using sled_okD(1) [OF T(1), of "sled st"] by (auto simp: sorted_wrt_map intro: sorted_wrt_filter)
  then have "sorted_wrt (\<lambda>s t. key_of s < key_of t) ss"
    by (simp add: load_for_proposal_entries(2) [OF T st load, symmetric] sorted_wrt_map)
  moreover have "instance_pda s = pda \<and> proposal_id s = pid" if "s \<in> set ss" for s
    using that load_for_proposal_set [OF T st load] by blast
  ultimately show ?thesis
    using sorted_wrt_mono_rel [of ss "\<lambda>s t. key_of s < key_of t"]
    by (simp add: key_of_split append_less_append del: append_assoc)
qed

lemma load_for_proposal_error:
  assumes T: "sled_ok T contents" "sessions_decode T" and st: "only_saved T (contents (sled st))"
    and load: "load_for_proposal T st pda pid = Inl err"
  shows "\<exists>m. err = SessionStoreOpenFailed m"
proof (cases "poisoned st")
  case False
  let ?p = "bytes_of pda @ bytes_of pid"
  from load False have c: "collect_sessions T ?p (tree_range_from T (sled st) ?p) [] = Inl err"
    by (simp add: load_for_proposal_def store_lock_def Let_def)
  have "\<forall>e \<in> set (contents (sled st)). session_from_slice T (snd e) \<noteq> None"
    using st T(2) unfolding only_saved_def sessions_decode_def by fastforce
  then show ?thesis
    using collect_sessions_error [OF sled_okD(5) [OF T(1)] _ c] by fastforce
qed (use load in \<open>auto simp: load_for_proposal_def store_lock_def Let_def\<close>)

lemma only_saved_save:
  assumes T: "sled_ok T contents" and st: "only_saved T (contents (sled st))"
    and save: "store_save T st s = (Inr (), st')"
  shows "only_saved T (contents (sled st'))"
  unfolding only_saved_def
proof
  fix e assume "e \<in> set (contents (sled st'))"
  then have m: "map_of (contents (sled st')) (fst e) = Some (snd e)"
    by (simp add: stored_entry [OF T])
  from save_value [OF save] obtain v where v: "session_to_vec T s = Some v"
    and i: "tree_insert T (sled st) (key_of s) v = (Inr (), sled st')" by blast
  show "\<exists>s. session_to_vec T s = Some (snd e) \<and> fst e = key_of s"
  proof (cases "fst e = key_of s")
    case True
    with m v sled_okD(2) [OF T i] show ?thesis by auto
  next
    case False
    with m sled_okD(2) [OF T i] have "e \<in> set (contents (sled st))"
      by (simp add: stored_entry [OF T])
    with st show ?thesis unfolding only_saved_def by auto
  qed
qed

lemma only_saved_delete:
  assumes T: "sled_ok T contents" and st: "only_saved T (contents (sled st))"
    and del: "store_delete T st pda pid c = (Inr (), st')"
  shows "only_saved T (contents (sled st'))"
  unfolding only_saved_def
proof
  fix e assume "e \<in> set (contents (sled st'))"
  then have "map_of (contents (sled st')) (fst e) = Some (snd e)"
    by (simp add: stored_entry [OF T])
  with delete_value [OF del] sled_okD(4) [OF T, of "sled st" _ "sled st'"]
  have "e \<in> set (contents (sled st))"
    by (auto simp: stored_entry [OF T] split: if_splits)
  with st show "\<exists>s. session_to_vec T s = Some (snd e) \<and> fst e = key_of s"
    unfolding only_saved_def by auto
qed

text \<open>
  C34: The range scan finds every session of a proposal and no other. In a store that holds what
  \<open>save\<close> wrote, \<open>load_for_proposal\<close> answers the sessions that \<open>load\<close> finds for this instance
  and proposal, each once, in the order of the members' commitment bytes; if it fails, it is
  with \<open>SessionStoreOpenFailed\<close>, never with \<open>SessionCorrupted\<close>.
\<close>

theorem load_for_proposal_exact:
  assumes "sled_ok T contents" and "reads_succeed T" and "sessions_decode T"
    and "only_saved T (contents (sled st))" and "\<not> poisoned st"
  shows "(load_for_proposal T st pda pid = Inr ss \<longrightarrow>
       set ss = {s. instance_pda s = pda \<and> proposal_id s = pid \<and>
                    store_load T st pda pid (member_commitment s) = Inr s} \<and>
       sorted_wrt (\<lambda>s t. bytes_of (commitment_bytes (member_commitment s))
         < bytes_of (commitment_bytes (member_commitment t))) ss) \<and>
     (load_for_proposal T st pda pid = Inl err \<longrightarrow> (\<exists>m. err = SessionStoreOpenFailed m))"
proof (intro conjI impI)
  assume l: "load_for_proposal T st pda pid = Inr ss"
  show "set ss = {s. instance_pda s = pda \<and> proposal_id s = pid \<and>
      store_load T st pda pid (member_commitment s) = Inr s}"
    using load_for_proposal_set [OF assms(1,3,4) l]
    by (auto simp: load_value [OF assms(1,2,5)] key_of_def ok_or_eq_Inr split: option.splits)
  show "sorted_wrt (\<lambda>s t. bytes_of (commitment_bytes (member_commitment s))
      < bytes_of (commitment_bytes (member_commitment t))) ss"
    by (rule load_for_proposal_sorted [OF assms(1,3,4) l])
qed (rule load_for_proposal_error [OF assms(1,3,4)])

theorem load_for_proposal_exact_witness:
  "\<exists>st. store_save sample_sled \<lparr>poisoned = False, sled = []\<rparr> (sample_session Proved) = (Inr (), st) \<and>
     load_for_proposal sample_sled st 1 2 = Inr [sample_session Proved] \<and>
     store_load sample_sled st 1 2 (member_commitment (sample_session Proved)) = Inr (sample_session Proved)"
proof -
  let ?s = "sample_session Proved" and ?st0 = "\<lparr>poisoned = False, sled = [] :: entry list\<rparr>"
  let ?st = "\<lparr>poisoned = False, sled = [(key_of ?s, enc_session ?s)]\<rparr>"
  have k: "instance_pda ?s = 1" "proposal_id ?s = 2"
    by (simp_all add: sample_session_def session_new_def Let_def)
  note sv = sample_save [OF sample_session_ok, of "[]" Proved]
  have "only_saved sample_sled (list_contents [])" by (simp add: only_saved_def list_contents_def)
  then have o: "only_saved sample_sled (list_contents (sled ?st))"
    using only_saved_save [OF sample_sled_ok _ sv] by simp
  have p: "has_prefix (bytes_of 1 @ bytes_of 2) (key_of ?s)" by (simp add: key_has_prefix k)
  then have "bytes_of 1 @ bytes_of 2 \<le> key_of ?s" by (rule has_prefix_le)
  moreover have "from_slice dec_session (enc_session ?s) = Some ?s"
    by (rule session_layout.dec_enc) (rule sample_session_ok)
  ultimately have l: "load_for_proposal sample_sled ?st 1 2 = Inr [?s]"
    using p by (simp add: load_for_proposal_def store_lock_def Let_def sample_sled_def
        list_contents_def has_prefix_def)
  from load_for_proposal_exact [OF sample_sled_ok sample_sled_reads sample_sled_decodes o, of 1 2 "[?s]"] l
  have "store_load sample_sled ?st 1 2 (member_commitment ?s) = Inr ?s" by auto
  with sv l show ?thesis by blast
qed

end
