(* ===== verification/Sdk_Member.thy ===== *)
theory Sdk_Member
  imports Sdk_Error Identity Borsh_Codec
begin

text \<open>
  The SDK's member and its encrypted keystore (\<open>sdk/src/member.rs\<close>). Argon2id, ChaCha20-Poly1305
  and Borsh are the record \<open>keystore_crypto\<close>; the operating system's random bytes are
  arguments, \<open>None\<close> when the call fails. A panic (\<open>expect\<close>, a slice out of range) is \<open>None\<close>.
  Zeroised buffers and \<open>SecretBox\<close> wrappers have no value the code reads again and are left out.
\<close>

record member =
  mem_identity :: identity

record keystore =
  argon_salt :: "byte list"
  ks_nonce :: "byte list"
  ciphertext :: "byte list"

record 'p keystore_crypto =
  argon2_params :: "u32 \<Rightarrow> u32 \<Rightarrow> u32 \<Rightarrow> 'p option"
  hash_password_into :: "'p \<Rightarrow> byte list \<Rightarrow> byte list \<Rightarrow> bytes32 option"
  encrypt_in_place :: "bytes32 \<Rightarrow> byte list \<Rightarrow> byte list \<Rightarrow> byte list \<Rightarrow> byte list option"
  decrypt_in_place :: "bytes32 \<Rightarrow> byte list \<Rightarrow> byte list \<Rightarrow> byte list \<Rightarrow> byte list option"
  keystore_serialize :: "keystore \<Rightarrow> byte list option"
  keystore_deserialize :: "byte list \<Rightarrow> (keystore \<times> byte list) option"

section \<open>Members\<close>

definition member_new :: "bytes32 option \<Rightarrow> bytes32 option \<Rightarrow> (sdk_error + member) option" where
  "member_new fill_sk fill_salt =
     Option.bind fill_sk (\<lambda>sk. Option.bind fill_salt (\<lambda>salt.
       Some (Inr \<lparr>mem_identity = identity_new sk salt\<rparr>)))"

definition member_id :: "hasher \<Rightarrow> member \<Rightarrow> identity_commitment" where
  "member_id H m = IdentityCommitment (commitment_bytes (commitment H (mem_identity m)))"

definition member_nullifier :: "hasher \<Rightarrow> member \<Rightarrow> bytes32 \<Rightarrow> bytes32" where
  "member_nullifier H m pid = identity_nullifier H (mem_identity m) pid"

definition member_secret_key :: "member \<Rightarrow> bytes32" where
  "member_secret_key m = sk (mem_identity m)"

definition member_salt :: "member \<Rightarrow> bytes32" where
  "member_salt m = salt (mem_identity m)"

definition member_witness :: "member \<Rightarrow> bytes32 \<times> bytes32" where
  "member_witness m = (sk (mem_identity m), salt (mem_identity m))"

definition debug_member :: "member \<Rightarrow> string" where
  "debug_member m = ''Member { sk: \"[REDACTED]\", salt: \"[REDACTED]\" }''"

section \<open>The keystore\<close>

definition KEYSTORE_AAD :: "byte list" where
  "KEYSTORE_AAD = ascii ''private-multisig-keystore-v1''"

definition encrypt ::
  "'p keystore_crypto \<Rightarrow> byte list option \<Rightarrow> byte list option \<Rightarrow> member \<Rightarrow> byte list \<Rightarrow>
   (sdk_error + byte list) option" where
  "encrypt C fill_argon_salt fill_nonce m password =
     (let (sk, salt) = member_witness m
      in Option.bind fill_argon_salt (\<lambda>argon_salt. Option.bind fill_nonce (\<lambda>nonce_bytes.
         Some (try_bind (ok_or KeystoreSerializationFailed (argon2_params C 65536 3 4)) (\<lambda>argon_params.
           try_bind (ok_or KeystoreSerializationFailed
             (hash_password_into C argon_params password argon_salt)) (\<lambda>kek.
           let in_out = bytes_of sk @ bytes_of salt
           in try_bind (ok_or KeystoreSerializationFailed
                (encrypt_in_place C kek nonce_bytes KEYSTORE_AAD in_out)) (\<lambda>in_out.
              let ks = \<lparr>argon_salt = argon_salt, ks_nonce = nonce_bytes, ciphertext = in_out\<rparr>
              in ok_or KeystoreSerializationFailed (keystore_serialize C ks))))))))"

definition from_keystore ::
  "'p keystore_crypto \<Rightarrow> byte list \<Rightarrow> byte list \<Rightarrow> (sdk_error + member) option" where
  "from_keystore C blob password =
     (case try_bind (ok_or KeystoreDecryptionFailed (keystore_deserialize C blob)) (\<lambda>(ks, cursor).
        try_bind (ok_or KeystoreDecryptionFailed (argon2_params C 65536 3 4)) (\<lambda>argon_params.
        try_bind (ok_or KeystoreDecryptionFailed
          (hash_password_into C argon_params password (argon_salt ks))) (\<lambda>kek.
        ok_or KeystoreDecryptionFailed
          (decrypt_in_place C kek (ks_nonce ks) KEYSTORE_AAD (ciphertext ks))))) of
        Inl e \<Rightarrow> Some (Inl e)
      | Inr in_out \<Rightarrow>
          if length in_out < 64 then None
          else let sk = array32 (slice in_out 0 32);
                   salt = array32 (slice in_out 32 32)
               in Some (Inr \<lparr>mem_identity = identity_new sk salt\<rparr>))"

section \<open>What the keystore's cryptography promises\<close>

text \<open>
  Decryption gives back what was encrypted with the same key, nonce and associated data, and
  the codec reads back what it wrote, leaving what follows it.
\<close>

definition keystore_crypto_ok :: "'p keystore_crypto \<Rightarrow> bool" where
  "keystore_crypto_ok C \<longleftrightarrow>
     (\<forall>k n a p c. encrypt_in_place C k n a p = Some c \<longrightarrow> decrypt_in_place C k n a c = Some p) \<and>
     (\<forall>ks bs rest. keystore_serialize C ks = Some bs \<longrightarrow>
        keystore_deserialize C (bs @ rest) = Some (ks, rest))"

lemma encrypt_eq_Inr:
  "encrypt C fa fn m pw = Some (Inr blob) \<longleftrightarrow>
     (\<exists>a n ps kek c. fa = Some a \<and> fn = Some n \<and> argon2_params C 65536 3 4 = Some ps \<and>
        hash_password_into C ps pw a = Some kek \<and>
        encrypt_in_place C kek n KEYSTORE_AAD
          (bytes_of (sk (mem_identity m)) @ bytes_of (salt (mem_identity m))) = Some c \<and>
        keystore_serialize C \<lparr>argon_salt = a, ks_nonce = n, ciphertext = c\<rparr> = Some blob)"
  by (auto simp: encrypt_def member_witness_def Let_def bind_eq_Some_conv try_bind_eq_Inr ok_or_eq_Inr)

text \<open>The plaintext that a blob and a password open, if they do.\<close>

definition opens :: "'p keystore_crypto \<Rightarrow> byte list \<Rightarrow> byte list \<Rightarrow> byte list \<Rightarrow> bool" where
  "opens C blob pw plain \<longleftrightarrow>
     (\<exists>ks rest ps kek. keystore_deserialize C blob = Some (ks, rest) \<and>
        argon2_params C 65536 3 4 = Some ps \<and> hash_password_into C ps pw (argon_salt ks) = Some kek \<and>
        decrypt_in_place C kek (ks_nonce ks) KEYSTORE_AAD (ciphertext ks) = Some plain)"

lemma from_keystore_opens:
  assumes "opens C blob pw plain"
  shows "from_keystore C blob pw =
    (if length plain < 64 then None
     else Some (Inr \<lparr>mem_identity = identity_new (array32 (take 32 plain)) (array32 (take 32 (drop 32 plain)))\<rparr>))"
  using assms by (auto simp: opens_def from_keystore_def slice_def)

lemma from_keystore_closed:
  assumes "\<not> (\<exists>plain. opens C blob pw plain)"
  shows "from_keystore C blob pw = Some (Inl KeystoreDecryptionFailed)"
proof (cases "keystore_deserialize C blob")
  case (Some d)
  obtain ks rest where d: "d = (ks, rest)" by (cases d)
  show ?thesis
  proof (cases "argon2_params C 65536 3 4")
    case params: (Some ps)
    show ?thesis
    proof (cases "hash_password_into C ps pw (argon_salt ks)")
      case kek: (Some kek)
      with assms params Some d have "decrypt_in_place C kek (ks_nonce ks) KEYSTORE_AAD (ciphertext ks) = None"
        by (auto simp: opens_def)
      with Some d params kek show ?thesis by (simp add: from_keystore_def)
    qed (simp add: from_keystore_def Some d params)
  qed (simp add: from_keystore_def Some d)
qed (simp add: from_keystore_def)

lemma encrypted_opens:
  assumes "keystore_crypto_ok C" and "encrypt C fa fn m pw = Some (Inr blob)"
  shows "opens C (blob @ rest) pw (bytes_of (sk (mem_identity m)) @ bytes_of (salt (mem_identity m)))"
  using assms unfolding encrypt_eq_Inr opens_def keystore_crypto_ok_def
  by (metis keystore.select_convs)

lemma member_eq: "\<lparr>mem_identity = identity_new (sk (mem_identity m)) (salt (mem_identity m))\<rparr> = m"
  by (cases m) (simp add: identity_new_def)

section \<open>Surroundings for the examples\<close>

text \<open>
  The Borsh layout of a keystore, and a toy cipher: the plaintext with the first 16 bytes of
  a keyed hash as its tag.
\<close>

definition enc_keystore :: "keystore \<Rightarrow> byte list" where
  "enc_keystore ks = argon_salt ks @ ks_nonce ks @ enc_vec (ciphertext ks)"

definition dec_keystore :: "keystore decoder" where
  "dec_keystore = dec_bind (dec_take 16) (\<lambda>a. dec_bind (dec_take 12) (\<lambda>n. dec_bind dec_vec (\<lambda>c.
     dec_pure \<lparr>argon_salt = a, ks_nonce = n, ciphertext = c\<rparr>)))"

definition keystore_sized :: "keystore \<Rightarrow> bool" where
  "keystore_sized ks \<longleftrightarrow> length (argon_salt ks) = 16 \<and> length (ks_nonce ks) = 12 \<and>
     length (ciphertext ks) < 2 ^ 32"

interpretation keystore_layout: stream_codec enc_keystore dec_keystore keystore_sized
  by unfold_locales (simp add: dec_keystore_def enc_keystore_def keystore_sized_def dec_fields dec_pure_eq)

definition sample_tag :: "bytes32 \<Rightarrow> byte list \<Rightarrow> byte list \<Rightarrow> byte list \<Rightarrow> byte list" where
  "sample_tag k n a p = take 16 (bytes_of (sample_hash (bytes_of k @ n @ a @ p)))"

definition sample_crypto :: "unit keystore_crypto" where
  "sample_crypto =
     \<lparr>argon2_params = (\<lambda>_ _ _. Some ()), hash_password_into = (\<lambda>_ pw a. Some (sample_hash (pw @ a))),
      encrypt_in_place = (\<lambda>k n a p. Some (p @ sample_tag k n a p)),
      decrypt_in_place = (\<lambda>k n a c.
        if 16 \<le> length c \<and> drop (length c - 16) c = sample_tag k n a (take (length c - 16) c)
        then Some (take (length c - 16) c) else None),
      keystore_serialize = (\<lambda>ks. if keystore_sized ks then Some (enc_keystore ks) else None),
      keystore_deserialize = dec_keystore\<rparr>"

lemma length_sample_tag [simp]: "length (sample_tag k n a p) = 16"
  by (simp add: sample_tag_def)

lemma sample_crypto_ok: "keystore_crypto_ok sample_crypto"
  by (auto simp: keystore_crypto_ok_def sample_crypto_def keystore_layout.dec_stream split: if_splits)

lemma sample_encrypt:
  "length a = 16 \<Longrightarrow> length n = 12 \<Longrightarrow> \<exists>blob. encrypt sample_crypto (Some a) (Some n) m pw = Some (Inr blob)"
  by (simp add: encrypt_eq_Inr) (simp add: sample_crypto_def keystore_sized_def)

section \<open>Properties of the keystore\<close>

lemma bytes_of_eq: "length bs = 32 \<Longrightarrow> bytes_of x = bs \<longleftrightarrow> x = array32 bs"
  by (metis array32_bytes_of bytes_of_array32)

text \<open>
  C36: A keystore opens with its password. Whatever the random salt and nonce were, what
  \<open>encrypt\<close> returned gives the same member back with the same password; bytes that follow the
  blob are ignored.
\<close>

theorem keystore_roundtrip:
  assumes "keystore_crypto_ok C" and "encrypt C fill_argon_salt fill_nonce m pw = Some (Inr blob)"
  shows "from_keystore C (blob @ rest) pw = Some (Inr m)"
  using from_keystore_opens [OF encrypted_opens [OF assms]] by (simp add: member_eq)

theorem keystore_roundtrip_witness:
  "\<exists>blob. encrypt sample_crypto (Some (replicate 16 1)) (Some (replicate 12 2))
       \<lparr>mem_identity = identity_new 3 4\<rparr> (ascii ''hunter2'') = Some (Inr blob) \<and>
     from_keystore sample_crypto (blob @ [9]) (ascii ''hunter2'') =
       Some (Inr \<lparr>mem_identity = identity_new 3 4\<rparr>)"
proof -
  obtain blob where b: "encrypt sample_crypto (Some (replicate 16 1)) (Some (replicate 12 2))
      \<lparr>mem_identity = identity_new 3 4\<rparr> (ascii ''hunter2'') = Some (Inr blob)"
    using sample_encrypt [of "replicate 16 1" "replicate 12 2"] by auto
  from keystore_roundtrip [OF sample_crypto_ok b, of "[9]"] b show ?thesis by blast
qed

text \<open>
  How a keystore can fail to open. \<open>from_keystore\<close> has one error, \<open>KeystoreDecryptionFailed\<close>,
  for a malformed blob and a wrong password alike; it returns a member exactly when the cipher
  accepts and the plaintext has at least 64 bytes, of which only the first 64 are used; and an
  accepted plaintext of fewer bytes makes it panic.
\<close>

theorem keystore_outcomes:
  "{e. from_keystore C blob pw = Some (Inl e)} \<subseteq> {KeystoreDecryptionFailed} \<and>
   {m. from_keystore C blob pw = Some (Inr m)} =
     {m. \<exists>plain. opens C blob pw plain \<and> 64 \<le> length plain \<and>
        bytes_of (member_secret_key m) @ bytes_of (member_salt m) = take 64 plain} \<and>
   (from_keystore C blob pw = None \<longleftrightarrow> (\<exists>plain. opens C blob pw plain \<and> length plain < 64))"
proof (cases "\<exists>plain. opens C blob pw plain")
  case True
  then obtain plain where o: "opens C blob pw plain" by blast
  have u: "p = plain" if "opens C blob pw p" for p using that o by (auto simp: opens_def)
  have t: "take 64 plain = take 32 plain @ take 32 (drop 32 plain)"
    using take_add [of 32 32 plain] by simp
  have split: "bytes_of (member_secret_key m) @ bytes_of (member_salt m) = take 64 plain \<longleftrightarrow>
      m = \<lparr>mem_identity = identity_new (array32 (take 32 plain)) (array32 (take 32 (drop 32 plain)))\<rparr>"
    if "64 \<le> length plain" for m
  proof -
    have l: "length (take 32 plain) = 32" "length (take 32 (drop 32 plain)) = 32" using that by simp_all
    have "bytes_of (member_secret_key m) @ bytes_of (member_salt m) = take 64 plain \<longleftrightarrow>
        member_secret_key m = array32 (take 32 plain) \<and> member_salt m = array32 (take 32 (drop 32 plain))"
      unfolding t by (simp only: append_eq_append_conv length_bytes_of l bytes_of_eq simp_thms)
    then show ?thesis
      by (cases m; cases "mem_identity m") (simp add: member_secret_key_def member_salt_def identity_new_def)
  qed
  have all: "(\<exists>p. opens C blob pw p \<and> P p) \<longleftrightarrow> P plain" for P using o u by blast
  show ?thesis
    unfolding all using from_keystore_opens [OF o] split by (cases "length plain < 64") auto
next
  case False
  with from_keystore_closed [OF False] show ?thesis by auto
qed

end
