(* ===== verification/Sdk_Multisig.thy ===== *)
theory Sdk_Multisig
  imports Sdk_Error Merkle Refinement
begin

text \<open>
  The SDK's builder of an instance and its snapshot of one (\<open>sdk/src/multisig.rs\<close>). The
  builder's methods take \<open>&mut self\<close>: they return their result and the builder afterwards,
  also when they fail. \<open>IdentityCommitment\<close> of \<open>sdk/src/member.rs\<close> is the same newtype over 32
  bytes as the one of \<open>crypto\<close>.
\<close>

record multisig_builder =
  b_m :: u8
  b_tree :: merkle_tree
  b_added :: "identity_commitment list"

record multisig_finalized =
  f_members_root :: bytes32
  f_m :: u8
  f_n :: u32
  f_commitments :: "identity_commitment list"
  f_tree :: merkle_tree

record multisig_state_snapshot =
  s_program_id :: bytes32
  s_create_key :: bytes32
  s_members_root :: bytes32
  s_m :: u8
  s_n :: u32
  s_proposal_count :: u64
  s_state_pda :: bytes32

section \<open>The builder\<close>

definition builder_new :: "hasher \<Rightarrow> u8 \<Rightarrow> multisig_builder" where
  "builder_new H m' = \<lparr>b_m = m', b_tree = merkle_new H, b_added = []\<rparr>"

definition add_member ::
  "multisig_builder \<Rightarrow> identity_commitment \<Rightarrow> (sdk_error + unit) \<times> multisig_builder" where
  "add_member b c =
     (if c \<in> set (b_added b) then (Inl DuplicateMember, b)
      else let b = b\<lparr>b_added := b_added b @ [c]\<rparr>;
               (r, tree) = merkle_insert (b_tree b) (commitment_bytes c)
           in (try_bind (map_err (\<lambda>_. ThresholdExceedsMembers) r) (\<lambda>_. Inr ()), b\<lparr>b_tree := tree\<rparr>))"

text \<open>\<open>u32::try_from(usize)\<close>\<close>

definition u32_try_from :: "nat \<Rightarrow> u32 option" where
  "u32_try_from k = (if k < 2 ^ 32 then Some (of_nat k) else None)"

definition builder_finalize :: "hasher \<Rightarrow> multisig_builder \<Rightarrow> sdk_error + multisig_finalized" where
  "builder_finalize H b =
     try_bind (ok_or ThresholdExceedsMembers (u32_try_from (length (b_added b)))) (\<lambda>n'.
     try_bind (ensure (\<not> (b_m b = 0 \<or> n' = 0)) sdk_error.InvalidThreshold) (\<lambda>_.
     try_bind (ensure (\<not> length (b_added b) < unat (b_m b)) (InsufficientMembers (b_m b) n')) (\<lambda>_.
     try_bind (ensure (\<not> ucast (b_m b) > n') ThresholdExceedsMembers) (\<lambda>_.
     let root = merkle_root H (b_tree b)
     in Inr \<lparr>f_members_root = root, f_m = b_m b, f_n = n', f_commitments = b_added b,
             f_tree = b_tree b\<rparr>))))"

text \<open>\<open>iter().position(|c| c == commitment)\<close>\<close>

primrec first_index :: "'a \<Rightarrow> 'a list \<Rightarrow> nat option" where
  "first_index c [] = None"
| "first_index c (x # xs) = (if x = c then Some 0 else map_option Suc (first_index c xs))"

definition member_index :: "multisig_finalized \<Rightarrow> identity_commitment \<Rightarrow> nat option" where
  "member_index f c = first_index c (f_commitments f)"

definition finalized_merkle_proof ::
  "hasher \<Rightarrow> multisig_finalized \<Rightarrow> identity_commitment \<Rightarrow> sdk_error + merkle_proof" where
  "finalized_merkle_proof H f c =
     try_bind (ok_or SessionStatusMismatch (member_index f c)) (\<lambda>idx.
       map_err (\<lambda>_. MerkleProofInvalid) (merkle_prove H (f_tree f) idx))"

section \<open>The snapshot\<close>

definition snapshot_new ::
  "hasher \<Rightarrow> bytes32 \<Rightarrow> bytes32 \<Rightarrow> bytes32 \<Rightarrow> u8 \<Rightarrow> u32 \<Rightarrow> u64 \<Rightarrow>
   (sdk_error + multisig_state_snapshot) option" where
  "snapshot_new H program_id ck root m' n' count =
     map_option (\<lambda>state_pda.
       Inr \<lparr>s_program_id = program_id, s_create_key = ck, s_members_root = root, s_m = m', s_n = n',
            s_proposal_count = count, s_state_pda = state_pda\<rparr>)
       (derive_multisig_state_pda H program_id ck)"

definition snapshot_proposal_id ::
  "hasher \<Rightarrow> multisig_state_snapshot \<Rightarrow> u64 \<Rightarrow> byte list \<Rightarrow> bytes32 \<Rightarrow> bytes32" where
  "snapshot_proposal_id H s index action target =
     (let chain = chain_id_from_u64 DEPLOYMENT_CHAIN_ID_U64
      in derive_proposal_id H chain (s_state_pda s) index action target)"

section \<open>What the builder keeps\<close>

text \<open>
  As long as the tree has room, the list and the tree agree; once it is full, a further
  member is pushed to the list alone.
\<close>

definition builder_inv :: "hasher \<Rightarrow> multisig_builder \<Rightarrow> bool" where
  "builder_inv H b \<longleftrightarrow> wf_tree H (b_tree b) \<and> distinct (b_added b) \<and>
     leaves (b_tree b) = take MAX_LEAVES (map commitment_bytes (b_added b))"

inductive builder_step :: "multisig_builder \<Rightarrow> multisig_builder \<Rightarrow> bool" where
  builder_stepI: "add_member b c = (r, b') \<Longrightarrow> builder_step b b'"

inductive_cases builder_stepE: "builder_step b b'"

lemma add_member_cases:
  assumes "add_member b c = (r, b')"
  obtains (duplicate) "c \<in> set (b_added b)" "r = Inl DuplicateMember" "b' = b"
  | (full) "c \<notin> set (b_added b)" "MAX_LEAVES \<le> length (leaves (b_tree b))"
      "r = Inl ThresholdExceedsMembers" "b' = b\<lparr>b_added := b_added b @ [c]\<rparr>"
  | (added) "c \<notin> set (b_added b)" "length (leaves (b_tree b)) < MAX_LEAVES" "r = Inr ()"
      "b' = b\<lparr>b_added := b_added b @ [c],
             b_tree := (b_tree b)\<lparr>leaves := leaves (b_tree b) @ [commitment_bytes c]\<rparr>\<rparr>"
  using assms
  by (cases "merkle_insert (b_tree b) (commitment_bytes c)")
    (auto simp: add_member_def Let_def split: if_splits elim!: merkle_insert_cases)

lemma builder_inv_new: "builder_inv H (builder_new H m')"
  by (simp add: builder_inv_def builder_new_def wf_tree_new)

lemma builder_inv_add:
  assumes "add_member b c = (r, b')" "builder_inv H b"
  shows "builder_inv H b'"
  using assms(1)
proof (cases rule: add_member_cases)
  case added
  then have "length (b_added b) < MAX_LEAVES" using assms(2) by (auto simp: builder_inv_def)
  with added assms(2) show ?thesis by (simp add: builder_inv_def wf_tree_def)
qed (use assms(2) in \<open>auto simp: builder_inv_def\<close>)

interpretation builder_sys: invariant_system "\<lambda>b. \<exists>m'. b = builder_new H m'" builder_step "builder_inv H"
  for H :: hasher
  by unfold_locales (auto simp: builder_inv_new elim!: builder_stepE intro: builder_inv_add)

lemma first_index_Some: "first_index c xs = Some k \<Longrightarrow> k < length xs \<and> xs ! k = c"
  by (induction xs arbitrary: k) (auto split: if_splits)

lemma first_index_None: "first_index c xs = None \<longleftrightarrow> c \<notin> set xs"
  by (induction xs) auto

lemma u32_try_from_eq_Some: "u32_try_from k = Some w \<longleftrightarrow> k < 2 ^ 32 \<and> w = of_nat k"
  by (auto simp: u32_try_from_def)

lemma unat_u32_of_nat: "k < 2 ^ 32 \<Longrightarrow> unat (of_nat k :: u32) = k"
  by (simp add: unsigned_of_nat take_bit_nat_eq_self)

section \<open>Properties of the builder\<close>

lemma builder_finalize_eq:
  "builder_finalize H b =
     (let k = length (b_added b) in
      if 2 ^ 32 \<le> k then Inl ThresholdExceedsMembers
      else if b_m b = 0 \<or> k = 0 then Inl sdk_error.InvalidThreshold
      else if k < unat (b_m b) then Inl (InsufficientMembers (b_m b) (of_nat k))
      else Inr \<lparr>f_members_root = merkle_root H (b_tree b), f_m = b_m b, f_n = of_nat k,
                f_commitments = b_added b, f_tree = b_tree b\<rparr>)"
proof (cases "length (b_added b) < 2 ^ 32")
  case True
  let ?k = "length (b_added b)"
  have z: "(of_nat ?k :: u32) = 0 \<longleftrightarrow> ?k = 0"
    using unat_u32_of_nat [OF True] by (simp only: word_unat_eq_iff unat_0)
  have le: "ucast (b_m b) > (of_nat ?k :: u32) \<longleftrightarrow> ?k < unat (b_m b)"
    by (simp add: word_less_nat_alt unat_ucast_u8 unat_u32_of_nat [OF True])
  have u: "u32_try_from ?k = Some (of_nat ?k)" using True by (simp add: u32_try_from_def)
  have nl: "\<not> 2 ^ 32 \<le> ?k" using True by (simp only: not_le)
  show ?thesis
    unfolding builder_finalize_def Let_def u ok_or_simps try_bind_simps z le
    by (cases "b_m b = 0"; cases "?k = 0"; cases "?k < unat (b_m b)") (use nl in simp_all)
next
  case False
  then have u: "u32_try_from (length (b_added b)) = None" and le: "2 ^ 32 \<le> length (b_added b)"
    by (simp_all add: u32_try_from_def)
  show ?thesis
    unfolding builder_finalize_def Let_def u ok_or_simps try_bind_simps using le by (simp only: if_True)
qed

text \<open>
  What \<open>finalize\<close> answers. With \<open>k\<close> members added it fails with \<open>ThresholdExceedsMembers\<close>
  when \<open>k\<close> does not fit 32 bits, with \<open>InvalidThreshold\<close> when \<open>m\<close> or \<open>k\<close> is 0, with
  \<open>InsufficientMembers\<close> when \<open>k < m\<close>, and otherwise returns the tree's root with \<open>m\<close> and
  \<open>n = k\<close>. So its last check, \<open>m > n\<close>, never fails, and what it returns passes the
  verifier's \<open>validate_threshold\<close>.
\<close>

theorem finalize_spec:
  "builder_finalize H b =
     (let k = length (b_added b) in
      if 2 ^ 32 \<le> k then Inl ThresholdExceedsMembers
      else if b_m b = 0 \<or> k = 0 then Inl sdk_error.InvalidThreshold
      else if k < unat (b_m b) then Inl (InsufficientMembers (b_m b) (of_nat k))
      else Inr \<lparr>f_members_root = merkle_root H (b_tree b), f_m = b_m b, f_n = of_nat k,
                f_commitments = b_added b, f_tree = b_tree b\<rparr>) \<and>
   {f. builder_finalize H b = Inr f \<and> validate_threshold (f_m f) (f_n f) \<noteq> Inr ()} = {}"
proof -
  have "validate_threshold (f_m f) (f_n f) = Inr ()" if "builder_finalize H b = Inr f" for f
  proof -
    let ?k = "length (b_added b)"
    from that have k: "?k < 2 ^ 32" "b_m b \<noteq> 0" "unat (b_m b) \<le> ?k" "f_m f = b_m b" "f_n f = of_nat ?k"
      by (auto simp: builder_finalize_eq Let_def split: if_splits)
    have "1 \<le> unat (b_m b)" using k(2) by (metis One_nat_def Suc_leI neq0_conv unat_eq_0)
    with k show ?thesis by (simp add: validate_threshold_ok unat_u32_of_nat)
  qed
  then show ?thesis using builder_finalize_eq by blast
qed

lemma finalize_eq_Inr:
  "builder_finalize H b = Inr f \<longleftrightarrow>
     length (b_added b) < 2 ^ 32 \<and> b_m b \<noteq> 0 \<and> b_added b \<noteq> [] \<and>
     unat (b_m b) \<le> length (b_added b) \<and>
     f = \<lparr>f_members_root = merkle_root H (b_tree b), f_m = b_m b, f_n = of_nat (length (b_added b)),
          f_commitments = b_added b, f_tree = b_tree b\<rparr>"
  by (auto simp: builder_finalize_eq Let_def)

lemma builder_member_proof:
  assumes inv: "builder_inv H b" and f: "builder_finalize H b = Inr f"
    and c: "c \<in> set (b_added b)" "commitment_bytes c \<noteq> 0" and room: "length (b_added b) \<le> MAX_LEAVES"
  shows "\<exists>p. finalized_merkle_proof H f c = Inr p \<and> wf_proof p \<and>
    verify_proof H (f_members_root f) (commitment_bytes c) p"
proof -
  have fc: "f_commitments f = b_added b" "f_tree f = b_tree b"
    "f_members_root f = merkle_root H (b_tree b)" using f by (auto simp: finalize_eq_Inr)
  obtain k where k: "first_index c (b_added b) = Some k"
    using c(1) first_index_None [of c "b_added b"] by (cases "first_index c (b_added b)") auto
  from first_index_Some [OF k] have kl: "k < length (b_added b)" "b_added b ! k = c" by simp_all
  have "leaves (b_tree b) = map commitment_bytes (b_added b)" and wt: "wf_tree H (b_tree b)"
    using inv room by (simp_all add: builder_inv_def)
  then have l: "k < length (leaves (b_tree b))" "leaves (b_tree b) ! k = commitment_bytes c"
    using kl by simp_all
  with prove_verifies [OF wt l(1)] c(2) obtain p where
    "merkle_prove H (b_tree b) k = Inr p" "wf_proof p"
    "verify_proof H (merkle_root H (b_tree b)) (commitment_bytes c) p" by auto
  with k show ?thesis
    by (simp add: finalized_merkle_proof_def member_index_def fc)
qed

text \<open>
  C29: every enrolled member can prove membership. For a builder driven from \<open>new\<close> by any
  sequence of \<open>add_member\<close> calls (failed ones included) with at most \<open>2^20\<close> members, what
  \<open>finalize\<close> returns hands out, for each member added whose commitment is not all zeros, a
  Merkle proof that verifies against the root it returns; and no member is counted twice.
\<close>

theorem builder_members_verify:
  assumes "builder_step\<^sup>*\<^sup>* (builder_new H m') b" and "builder_finalize H b = Inr f"
    and "length (b_added b) \<le> MAX_LEAVES"
    and "c \<in> set (b_added b)" and "commitment_bytes c \<noteq> 0"
  shows "(\<exists>p. finalized_merkle_proof H f c = Inr p \<and> wf_proof p \<and>
            verify_proof H (f_members_root f) (commitment_bytes c) p) \<and>
         distinct (f_commitments f) \<and> unat (f_n f) = length (f_commitments f)"
proof -
  have inv: "builder_inv H b" using builder_sys.inv_reachable [OF _ assms(1)] by blast
  then show ?thesis
    using builder_member_proof [OF inv assms(2,4,5,3)] assms(2)
    by (auto simp: finalize_eq_Inr unat_u32_of_nat builder_inv_def)
qed

lemma sample_builder:
  obtains b where "builder_step\<^sup>*\<^sup>* (builder_new H 1) b" "b_added b = [IdentityCommitment 7]"
    "b_m b = 1"
proof -
  have "builder_step (builder_new H 1) (snd (add_member (builder_new H 1) (IdentityCommitment 7)))"
    by (rule builder_stepI) (rule prod.collapse [symmetric])
  moreover have "b_added (snd (add_member (builder_new H 1) (IdentityCommitment 7))) = [IdentityCommitment 7]"
    "b_m (snd (add_member (builder_new H 1) (IdentityCommitment 7))) = 1"
    by (simp_all add: add_member_def builder_new_def merkle_insert_def MAX_LEAVES_def MERKLE_DEPTH_def
        Let_def)
  ultimately show thesis using that by blast
qed

theorem builder_members_verify_witness:
  "\<exists>b f p. builder_step\<^sup>*\<^sup>* (builder_new sample_hash 1) b \<and> builder_finalize sample_hash b = Inr f \<and>
     finalized_merkle_proof sample_hash f (IdentityCommitment 7) = Inr p \<and>
     verify_proof sample_hash (f_members_root f) 7 p"
proof -
  obtain b where b: "builder_step\<^sup>*\<^sup>* (builder_new sample_hash 1) b" "b_added b = [IdentityCommitment 7]"
    "b_m b = 1" by (rule sample_builder)
  then obtain f where f: "builder_finalize sample_hash b = Inr f" by (auto simp: finalize_eq_Inr)
  from builder_members_verify [OF b(1) f, of "IdentityCommitment 7"] b f show ?thesis
    by (auto simp: MAX_LEAVES_def MERKLE_DEPTH_def)
qed

text \<open>
  C30: a failed \<open>add_member\<close> is not harmless on a full tree. With \<open>2^20\<close> members enrolled, a
  further new commitment is rejected with \<open>ThresholdExceedsMembers\<close>, but stays in the list of
  members: \<open>finalize\<close> then succeeds with \<open>n = 2^20 + 1\<close>, one more than the tree has leaves,
  and the rejected member has an index but no Merkle proof.
\<close>

theorem full_builder_diverges:
  assumes "builder_inv H b" and "length (b_added b) = MAX_LEAVES" and "c \<notin> set (b_added b)"
    and "b_m b \<noteq> 0"
  shows "\<exists>b' f. add_member b c = (Inl ThresholdExceedsMembers, b') \<and>
    builder_finalize H b' = Inr f \<and> unat (f_n f) = MAX_LEAVES + 1 \<and>
    length (leaves (f_tree f)) = MAX_LEAVES \<and> member_index f c \<noteq> None \<and>
    finalized_merkle_proof H f c = Inl MerkleProofInvalid"
proof -
  let ?b = "b\<lparr>b_added := b_added b @ [c]\<rparr>"
  have l: "length (leaves (b_tree b)) = MAX_LEAVES" using assms(1,2) by (simp add: builder_inv_def)
  have M: "MAX_LEAVES = 1048576" by (simp add: MAX_LEAVES_def MERKLE_DEPTH_def)
  have add: "add_member b c = (Inl ThresholdExceedsMembers, ?b)"
    using assms(3) l by (simp add: add_member_def merkle_insert_def Let_def)
  have "unat (b_m b) < 256" by (rule unat_byte_less)
  then obtain f where f: "builder_finalize H ?b = Inr f" and ff: "f_n f = of_nat (MAX_LEAVES + 1)"
    "f_commitments f = b_added b @ [c]" "f_tree f = b_tree b"
    using assms(2,4) M by (simp add: finalize_eq_Inr)
  obtain k where k: "first_index c (b_added b @ [c]) = Some k"
    using first_index_None [of c "b_added b @ [c]"] by (cases "first_index c (b_added b @ [c])") auto
  have "\<not> k < MAX_LEAVES"
  proof
    assume "k < MAX_LEAVES"
    then have "(b_added b @ [c]) ! k = b_added b ! k" using assms(2) by (simp add: nth_append)
    then have "c \<in> set (b_added b)"
      using first_index_Some [OF k] \<open>k < MAX_LEAVES\<close> assms(2) by (metis nth_mem)
    with assms(3) show False ..
  qed
  then have "finalized_merkle_proof H f c = Inl MerkleProofInvalid"
    using k l by (simp add: finalized_merkle_proof_def member_index_def ff merkle_prove_def)
  moreover have "unat (f_n f) = MAX_LEAVES + 1"
    unfolding ff by (rule unat_u32_of_nat) (simp add: M)
  ultimately show ?thesis
    using add f l k by (auto simp: ff member_index_def)
qed

theorem full_builder_diverges_witness:
  "\<exists>b b' f. length (leaves (b_tree b)) = MAX_LEAVES \<and>
     add_member b (IdentityCommitment (- 1)) = (Inl ThresholdExceedsMembers, b') \<and>
     builder_finalize sample_hash b' = Inr f \<and> unat (f_n f) = MAX_LEAVES + 1"
proof -
  have M: "MAX_LEAVES = 1048576" by (simp add: MAX_LEAVES_def MERKLE_DEPTH_def)
  have u: "i < MAX_LEAVES \<Longrightarrow> unat (of_nat i :: bytes32) = i" for i
    by (simp add: unsigned_of_nat take_bit_nat_eq_self M)
  let ?cs = "map (\<lambda>i. IdentityCommitment (of_nat i)) [0..<MAX_LEAVES]"
  define b where "b = \<lparr>b_m = 1, b_tree = (merkle_new sample_hash)\<lparr>leaves := map commitment_bytes ?cs\<rparr>,
    b_added = ?cs\<rparr>"
  have d: "distinct ?cs"
    by (auto simp: distinct_map inj_on_def) (metis u atLeastLessThan_iff)
  have "builder_inv sample_hash b"
    using d wf_tree_new [of sample_hash] by (simp add: builder_inv_def b_def wf_tree_def)
  moreover have l: "length (leaves (b_tree b)) = MAX_LEAVES" by (simp add: b_def)
  moreover have "IdentityCommitment (- 1) \<notin> set ?cs"
  proof
    assume "IdentityCommitment (- 1) \<in> set ?cs"
    then obtain i where "i < MAX_LEAVES" "(of_nat i :: bytes32) = - 1" by auto
    then have "i = unat (- 1 :: bytes32)" using u by metis
    moreover have "unat (- 1 :: bytes32) = 2 ^ 256 - 1" by (simp add: unsigned_minus_1_eq_mask mask_eq_exp_minus_1)
    ultimately show False using \<open>i < MAX_LEAVES\<close> by (simp add: M)
  qed
  ultimately show ?thesis
    using full_builder_diverges [of sample_hash b "IdentityCommitment (- 1)"] l
    by (metis b_def multisig_builder.select_convs length_map length_upt minus_nat.diff_0 zero_neq_one)
qed

text \<open>
  The SDK and the verifier agree on proposal ids. A snapshot of an instance derives, for
  every index, action and target, the very id that the verifier recomputes for the account
  it finds at the instance's address.
\<close>

theorem snapshot_agrees_with_verifier:
  "\<exists>s. snapshot_new H pid ck root m' n' count = Some (Inr s) \<and>
     s_state_pda s = address H pid (StateOf ck) \<and>
     snapshot_proposal_id H s i action target =
       in_proposal_id (vote_inputs H pid ck i root action target nul) \<and>
     snapshot_proposal_id H s i action target =
       expected_proposal_id H (address H pid (StateOf ck)) i
         \<lparr>action_bytes = action, target_program = target, approvals_count = c, executed = x\<rparr>"
  by (simp add: snapshot_new_def derive_address snapshot_proposal_id_def vote_inputs_def
      expected_proposal_id_def)

end
