(* ===== verification/Sdk_Prover.thy ===== *)
theory Sdk_Prover
  imports Sdk_Member Sdk_Multisig
begin

text \<open>
  The SDK's prover (\<open>sdk/src/prover.rs\<close>). The Risc0 host API and bincode are the record \<open>zkvm\<close>:
  an environment built from the slices written to it, proving, verifying a receipt against an
  image id, and serialising one. Their errors are the texts that the code puts into its own.
  The process environment variable \<open>RISC0_DEV_MODE\<close> is an argument, \<open>None\<close> when unset or not
  UTF-8. \<open>prove\<close> takes \<open>&mut self\<close>: it answers its result and the prover afterwards.
\<close>

definition APPROVE_CIRCUIT_IMAGE_ID_PINNED :: "u32 list" where
  "APPROVE_CIRCUIT_IMAGE_ID_PINNED =
     [1683419497, 2665931562, 2484565372, 1634782365, 3092099954, 3316541401, 2039021021, 3470376700]"

record ('env, 'r) zkvm =
  build_env :: "byte list list \<Rightarrow> string + 'env"
  zk_prove :: "'env \<Rightarrow> byte list \<Rightarrow> string + 'r"
  receipt_verify :: "'r \<Rightarrow> u32 list \<Rightarrow> string + unit"
  bincode_serialize :: "'r \<Rightarrow> string + byte list"

record approval_prover =
  pr_sk :: bytes32
  pr_salt :: bytes32
  pr_snapshot :: multisig_state_snapshot
  siblings_flat :: "bytes32 list"
  directions_flat :: "bool list"
  pr_index :: u64
  pr_action_bytes :: "byte list"
  pr_target_program :: bytes32
  pr_elf :: "byte list"
  pr_receipt :: "byte list option"

section \<open>Construction\<close>

definition flatten_proof :: "merkle_proof \<Rightarrow> bytes32 list \<times> bool list" where
  "flatten_proof p =
     fold (\<lambda>level (sibs, dirs). (sibs[level := siblings p ! level], dirs[level := indices p ! level]))
       [0..<MERKLE_DEPTH] (replicate MERKLE_DEPTH 0, replicate MERKLE_DEPTH False)"

definition prover_new ::
  "hasher \<Rightarrow> member \<Rightarrow> multisig_state_snapshot \<Rightarrow> u64 \<Rightarrow> byte list \<Rightarrow> bytes32 \<Rightarrow> merkle_proof \<Rightarrow>
   byte list \<Rightarrow> sdk_error + approval_prover" where
  "prover_new H m s index action target p elf =
     try_bind (ensure (\<not> length action > MAX_ACTION_BYTES_LEN) ActionBytesTooLarge) (\<lambda>_.
     try_bind (ensure (\<not> index \<ge> s_proposal_count s) ProposalIndexMismatch) (\<lambda>_.
     try_bind (ensure (verify_proof H (s_members_root s) (commitment_bytes (member_id H m)) p)
       MerkleProofInvalid) (\<lambda>_.
     let (sk, salt) = member_witness m;
         (sibs, dirs) = flatten_proof p
     in Inr \<lparr>pr_sk = sk, pr_salt = salt, pr_snapshot = s, siblings_flat = sibs, directions_flat = dirs,
             pr_index = index, pr_action_bytes = action, pr_target_program = target, pr_elf = elf,
             pr_receipt = None\<rparr>)))"

section \<open>Public inputs\<close>

definition compute_nullifier :: "hasher \<Rightarrow> approval_prover \<Rightarrow> bytes32 \<Rightarrow> bytes32" where
  "compute_nullifier H a pid = nullifier H (pr_sk a) pid"

definition prover_nullifier :: "hasher \<Rightarrow> approval_prover \<Rightarrow> bytes32" where
  "prover_nullifier H a =
     (let pid = snapshot_proposal_id H (pr_snapshot a) (pr_index a) (pr_action_bytes a) (pr_target_program a)
      in compute_nullifier H a pid)"

definition prover_public_inputs :: "hasher \<Rightarrow> approval_prover \<Rightarrow> approve_public_inputs" where
  "prover_public_inputs H a =
     (let pid = snapshot_proposal_id H (pr_snapshot a) (pr_index a) (pr_action_bytes a) (pr_target_program a);
          nul = compute_nullifier H a pid
      in \<lparr>in_members_root = s_members_root (pr_snapshot a), in_proposal_id = pid, in_nullifier = nul\<rparr>)"

definition public_inputs_bytes :: "hasher \<Rightarrow> approval_prover \<Rightarrow> byte list" where
  "public_inputs_bytes H a = to_bytes (prover_public_inputs H a)"

section \<open>Proving\<close>

text \<open>The five buffers written to the executor, in the order they are written.\<close>

definition prover_slices :: "approval_prover \<Rightarrow> bytes32 \<Rightarrow> byte list list" where
  "prover_slices a pid =
     (let sibs = fold (\<lambda>level buf. let start = level * HASH_LEN
                                   in copy_into buf start (bytes_of (siblings_flat a ! level)))
                   [0..<length (siblings_flat a)] (replicate (MERKLE_DEPTH * HASH_LEN) 0);
          direction_bytes = fold (\<lambda>level buf. buf[level := of_bool (directions_flat a ! level)])
                   [0..<length (directions_flat a)] (replicate MERKLE_DEPTH 0);
          public_prefix = replicate 64 0;
          public_prefix = copy_into public_prefix 0 (bytes_of (s_members_root (pr_snapshot a)));
          public_prefix = copy_into public_prefix 32 (bytes_of pid)
      in [public_prefix, bytes_of (pr_sk a), bytes_of (pr_salt a), sibs, direction_bytes])"

definition image_id :: "u32 list" where
  "image_id = APPROVE_CIRCUIT_IMAGE_ID_PINNED"

definition is_dev_mode :: "string option \<Rightarrow> bool" where
  "is_dev_mode v \<longleftrightarrow> v = Some ''1'' \<or> v = Some ''true''"

definition run_risc0_prover ::
  "('env, 'r, 'z) zkvm_scheme \<Rightarrow> string option \<Rightarrow> approval_prover \<Rightarrow> bytes32 \<Rightarrow> sdk_error + 'r" where
  "run_risc0_prover Z v a pid =
     try_bind (map_err (\<lambda>e. ProofGenerationFailed (''ExecutorEnv build failed: '' @ e))
       (build_env Z (prover_slices a pid))) (\<lambda>env.
     try_bind (map_err (\<lambda>e. ProofGenerationFailed (''risc0 prove() failed: '' @ e))
       (zk_prove Z env (pr_elf a))) (\<lambda>r.
     if \<not> is_dev_mode v
     then try_bind (map_err (\<lambda>e. ReceiptVerificationFailed (''local receipt verify() failed: '' @ e))
            (receipt_verify Z r image_id)) (\<lambda>_. Inr r)
     else Inr r))"

definition prove ::
  "hasher \<Rightarrow> ('env, 'r, 'z) zkvm_scheme \<Rightarrow> string option \<Rightarrow> approval_prover \<Rightarrow>
   (sdk_error + byte list) \<times> approval_prover" where
  "prove H Z v a =
     (case pr_receipt a of
        Some cached \<Rightarrow> (Inr cached, a)
      | None \<Rightarrow>
          let pid = snapshot_proposal_id H (pr_snapshot a) (pr_index a) (pr_action_bytes a)
                      (pr_target_program a)
          in case try_bind (run_risc0_prover Z v a pid) (\<lambda>r.
                    map_err (\<lambda>e. ProofGenerationFailed (''bincode encode failed: '' @ e))
                      (bincode_serialize Z r)) of
               Inl e \<Rightarrow> (Inl e, a)
             | Inr encoded \<Rightarrow> (Inr encoded, a\<lparr>pr_receipt := Some encoded\<rparr>))"

definition receipt_bytes :: "approval_prover \<Rightarrow> sdk_error + byte list" where
  "receipt_bytes a = ok_or SessionStatusMismatch (pr_receipt a)"

text \<open>\<open>Drop\<close>: the two secrets are overwritten with zeros.\<close>

definition drop_prover :: "approval_prover \<Rightarrow> approval_prover" where
  "drop_prover a = a\<lparr>pr_sk := 0, pr_salt := 0\<rparr>"

section \<open>Facts about construction\<close>

lemma flatten_proof_fold:
  "k \<le> d \<Longrightarrow>
   fold (\<lambda>level (sibs, dirs). (sibs[level := f level], dirs[level := g level])) [0..<k]
     (replicate d x, replicate d y)
   = (map f [0..<k] @ replicate (d - k) x, map g [0..<k] @ replicate (d - k) y)"
  by (induction k) (simp_all add: list_update_append replicate_update_first)

lemma flatten_proof_eq:
  assumes "wf_proof p" shows "flatten_proof p = (siblings p, indices p)"
proof -
  have l: "length (siblings p) = MERKLE_DEPTH" "length (indices p) = MERKLE_DEPTH"
    using assms by (simp_all add: wf_proof_def)
  have "map ((!) (siblings p)) [0..<MERKLE_DEPTH] = siblings p"
    "map ((!) (indices p)) [0..<MERKLE_DEPTH] = indices p"
    using map_nth [of "siblings p"] map_nth [of "indices p"] by (simp_all only: l)
  then show ?thesis
    using flatten_proof_fold [of MERKLE_DEPTH MERKLE_DEPTH "(!) (siblings p)" "(!) (indices p)" 0 False]
    by (simp add: flatten_proof_def)
qed

lemma commitment_member_id: "commitment_bytes (member_id H m) = commitment_bytes (commitment H (mem_identity m))"
  by (simp add: member_id_def)

lemma prover_new_eq:
  assumes "wf_proof p"
  shows "prover_new H m s index action target p elf =
    (if MAX_ACTION_BYTES_LEN < length action then Inl ActionBytesTooLarge
     else if s_proposal_count s \<le> index then Inl ProposalIndexMismatch
     else if \<not> verify_proof H (s_members_root s) (commitment_bytes (commitment H (mem_identity m))) p
     then Inl MerkleProofInvalid
     else Inr \<lparr>pr_sk = sk (mem_identity m), pr_salt = salt (mem_identity m), pr_snapshot = s,
             siblings_flat = siblings p, directions_flat = indices p, pr_index = index,
             pr_action_bytes = action, pr_target_program = target, pr_elf = elf, pr_receipt = None\<rparr>)"
  by (simp add: prover_new_def flatten_proof_eq [OF assms] member_witness_def commitment_member_id)

lemma prover_slices_eq:
  assumes "length (siblings_flat a) = MERKLE_DEPTH" "length (directions_flat a) = MERKLE_DEPTH"
  shows "prover_slices a pid =
    [bytes_of (s_members_root (pr_snapshot a)) @ bytes_of pid, bytes_of (pr_sk a), bytes_of (pr_salt a),
     concat (map bytes_of (siblings_flat a)), map of_bool (directions_flat a)]"
proof -
  have l: "length (siblings_flat a) = 20" "length (directions_flat a) = 20"
    using assms by (simp_all add: MERKLE_DEPTH_def)
  have c: "map (\<lambda>l. bytes_of (siblings_flat a ! l)) [0..<20] = map bytes_of (siblings_flat a)"
    and d: "map (\<lambda>l. of_bool (directions_flat a ! l)) [0..<20] = map of_bool (directions_flat a)"
    using map_nth_upt [of bytes_of "siblings_flat a"] map_nth_upt [of of_bool "directions_flat a"]
    by (simp_all only: l)
  have p: "copy_into (copy_into (replicate 64 0) 0 (bytes_of r)) 32 (bytes_of q) = bytes_of r @ bytes_of q"
    for r q
    using copy_into_next [of "[]" 0 "bytes_of r" 64 0] copy_into_next [of "bytes_of r" 32 "bytes_of q" 32 0]
    by simp
  show ?thesis
    unfolding prover_slices_def Let_def l p MERKLE_DEPTH_def HASH_LEN_def
    using fold_copy_into [of 20 "\<lambda>l. bytes_of (siblings_flat a ! l)" 32 640 "[]" 0 0]
      fold_update_next [of 20 20 "[]" 0 "\<lambda>l. of_bool (directions_flat a ! l)" 0]
    by (simp add: c d)
qed

text \<open>What a freshly made prover streams is the packed witness of its member.\<close>

lemma prover_stream:
  assumes "prover_new H m s index action target p elf = Inr a" "wf_proof p"
  shows "concat (prover_slices a pid) = pack_approve_witness (mem_identity m) p (s_members_root s) pid"
  using assms
  by (auto simp: prover_new_eq prover_slices_eq pack_eq wf_proof_def split: if_splits)

lemma prover_approves:
  assumes "prover_new H m s index action target p elf = Inr a" "wf_proof p"
  shows "approves H (prover_public_inputs H a) (mem_identity m) p"
    "prover_public_inputs H a =
       \<lparr>in_members_root = s_members_root s, in_proposal_id = snapshot_proposal_id H s index action target,
        in_nullifier = member_nullifier H m (snapshot_proposal_id H s index action target)\<rparr>"
  using assms
  by (auto simp: prover_new_eq approves_def prover_public_inputs_def compute_nullifier_def
      member_nullifier_def identity_nullifier_def Let_def split: if_splits)

lemma prover_circuit:
  assumes "slice_reader rd" "prover_new H m s index action target p elf = Inr a" "wf_proof p"
  shows "approve_circuit H rd (concat (prover_slices a
      (snapshot_proposal_id H (pr_snapshot a) (pr_index a) (pr_action_bytes a) (pr_target_program a))))
    = Some (public_inputs_bytes H a)"
proof -
  have f: "pr_snapshot a = s" "pr_index a = index" "pr_action_bytes a = action" "pr_target_program a = target"
    using assms(2,3) by (auto simp: prover_new_eq split: if_splits)
  show ?thesis
    using approves_circuit [OF assms(1) prover_approves(1) [OF assms(2,3)]]
    by (simp add: f prover_stream [OF assms(2,3)] prover_approves(2) [OF assms(2,3)] public_inputs_bytes_def)
qed

section \<open>Facts about proving\<close>

text \<open>
  What is used of the zkVM: a receipt that proving returns for the approve-circuit's ELF has
  the journal the guest commits when it reads the slices written, one after the other.
\<close>

definition runs_guest ::
  "hasher \<Rightarrow> reader \<Rightarrow> ('env, 'r, 'z) zkvm_scheme \<Rightarrow> byte list \<Rightarrow> ('r \<Rightarrow> byte list) \<Rightarrow> bool" where
  "runs_guest H rd Z elf journal \<longleftrightarrow>
     (\<forall>slices env r. build_env Z slices = Inr env \<and> zk_prove Z env elf = Inr r \<longrightarrow>
        approve_circuit H rd (concat slices) = Some (journal r))"

text \<open>And, for proofs to be found at all: what the guest commits, the host can prove.\<close>

definition finds_proofs :: "hasher \<Rightarrow> reader \<Rightarrow> ('env, 'r, 'z) zkvm_scheme \<Rightarrow> byte list \<Rightarrow> bool" where
  "finds_proofs H rd Z elf \<longleftrightarrow>
     (\<forall>slices j. approve_circuit H rd (concat slices) = Some j \<longrightarrow>
        (\<exists>env r bs. build_env Z slices = Inr env \<and> zk_prove Z env elf = Inr r \<and>
           receipt_verify Z r APPROVE_CIRCUIT_IMAGE_ID_PINNED = Inr () \<and> bincode_serialize Z r = Inr bs))"

lemma run_risc0_prover_eq_Inr:
  "run_risc0_prover Z v a pid = Inr r \<longleftrightarrow>
     (\<exists>env. build_env Z (prover_slices a pid) = Inr env \<and> zk_prove Z env (pr_elf a) = Inr r \<and>
        (is_dev_mode v \<or> receipt_verify Z r APPROVE_CIRCUIT_IMAGE_ID_PINNED = Inr ()))"
  by (auto simp: run_risc0_prover_def result_simps image_id_def split: if_splits)

lemma run_risc0_prover_eq_Inl:
  "run_risc0_prover Z v a pid = Inl e \<Longrightarrow>
     (\<exists>t. e = ProofGenerationFailed (''ExecutorEnv build failed: '' @ t) \<or>
          e = ProofGenerationFailed (''risc0 prove() failed: '' @ t) \<or>
          (\<not> is_dev_mode v \<and> e = ReceiptVerificationFailed (''local receipt verify() failed: '' @ t)))"
  by (auto simp: run_risc0_prover_def try_bind_def map_err_def split: if_splits sum.splits)

lemma prove_uncached:
  assumes "pr_receipt a = None"
    "snapshot_proposal_id H (pr_snapshot a) (pr_index a) (pr_action_bytes a) (pr_target_program a) = pid"
  shows "prove H Z v a = (Inr bs, a') \<longleftrightarrow>
    (\<exists>r. run_risc0_prover Z v a pid = Inr r \<and> bincode_serialize Z r = Inr bs \<and>
         a' = a\<lparr>pr_receipt := Some bs\<rparr>)"
  using assms by (auto simp: prove_def Let_def result_simps split: sum.splits)

text \<open>A zkVM whose receipts are the journals themselves.\<close>

definition sample_zkvm :: "(byte list, byte list) zkvm" where
  "sample_zkvm =
     \<lparr>build_env = (\<lambda>slices. Inr (concat slices)),
      zk_prove = (\<lambda>env elf. ok_or ''guest panicked'' (approve_circuit sample_hash sample_reader env)),
      receipt_verify = (\<lambda>r i. ensure (i = APPROVE_CIRCUIT_IMAGE_ID_PINNED) ''wrong image id''),
      bincode_serialize = Inr\<rparr>"

lemma sample_zkvm:
  "runs_guest sample_hash sample_reader sample_zkvm elf id"
  "finds_proofs sample_hash sample_reader sample_zkvm elf"
  by (auto simp: runs_guest_def finds_proofs_def sample_zkvm_def result_simps)

section \<open>Properties of the prover\<close>

text \<open>
  The prover's stream is the canonical witness. For every prover that \<open>new\<close> accepts, the
  five slices it writes are, joined, the 788 bytes that \<open>pack_approve_witness\<close> lays out for the
  member, the path and the snapshot's root, and the circuit run on them commits exactly the
  bytes that \<open>public_inputs_bytes\<close> computes without a receipt.
\<close>

theorem prover_stream_canonical:
  assumes "slice_reader rd" and "wf_proof p" and "prover_new H m s index action target p elf = Inr a"
  shows "concat (prover_slices a pid) = pack_approve_witness (mem_identity m) p (s_members_root s) pid \<and>
    length (concat (prover_slices a pid)) = APPROVE_WITNESS_LEN \<and>
    approve_circuit H rd (concat (prover_slices a (snapshot_proposal_id H s index action target)))
      = Some (public_inputs_bytes H a)"
proof -
  have f: "pr_snapshot a = s" "pr_index a = index" "pr_action_bytes a = action" "pr_target_program a = target"
    using assms(2,3) by (auto simp: prover_new_eq split: if_splits)
  show ?thesis
    using prover_circuit [OF assms(1,3,2)] prover_stream [OF assms(3,2)] length_pack [OF assms(2)]
    by (simp add: f)
qed

text \<open>The member of the sample tree, a snapshot of an instance over it, and a prover for it.\<close>

definition sample_snapshot :: multisig_state_snapshot where
  "sample_snapshot = \<lparr>s_program_id = 5, s_create_key = 9,
     s_members_root = merkle_root sample_hash sample_tree, s_m = 1, s_n = 1, s_proposal_count = 1,
     s_state_pda = address sample_hash 5 (StateOf 9)\<rparr>"

lemma sample_prover:
  obtains p a where "merkle_prove sample_hash sample_tree 0 = Inr p" "wf_proof p"
    "prover_new sample_hash \<lparr>mem_identity = sample_member\<rparr> sample_snapshot 0 [1, 2] 6 p [] = Inr a"
proof -
  obtain p where p: "merkle_prove sample_hash sample_tree 0 = Inr p" "wf_proof p"
    "verify_proof sample_hash (merkle_root sample_hash sample_tree) 7 p"
    by (rule sample_proof)
  then show thesis
    using that [OF p(1,2)] by (simp add: prover_new_eq sample_member sample_snapshot_def MAX_ACTION_BYTES_LEN_def)
qed

theorem prover_stream_canonical_witness:
  "\<exists>p a. prover_new sample_hash \<lparr>mem_identity = sample_member\<rparr> sample_snapshot 0 [1, 2] 6 p [] = Inr a \<and>
     length (concat (prover_slices a 3)) = 788 \<and>
     concat (prover_slices a 3) =
       pack_approve_witness sample_member p (merkle_root sample_hash sample_tree) 3"
proof -
  obtain p a where a: "wf_proof p"
    "prover_new sample_hash \<lparr>mem_identity = sample_member\<rparr> sample_snapshot 0 [1, 2] 6 p [] = Inr a"
    by (rule sample_prover)
  from prover_stream_canonical [OF sample_reader this, of 3] a(2) show ?thesis
    by (auto simp: APPROVE_WITNESS_LEN_def sample_snapshot_def)
qed

text \<open>
  \<open>prove\<close> proves at most once. When it succeeds, the bytes it returns are the ones
  \<open>receipt_bytes\<close> gives from then on, and every later \<open>prove\<close>, whatever the host's zkVM and
  environment have become, returns them again without running; when it fails, with
  \<open>ProofGenerationFailed\<close> or, outside dev mode only, \<open>ReceiptVerificationFailed\<close>, the prover is
  as before. Neither changes the public inputs, and a failure is impossible once a receipt is
  cached.
\<close>

theorem prove_caches:
  "case prove H Z v a of
     (Inr bs, a') \<Rightarrow> receipt_bytes a' = Inr bs \<and> prove H Z' v' a' = (Inr bs, a') \<and>
       a' = a\<lparr>pr_receipt := Some bs\<rparr> \<and> public_inputs_bytes H a' = public_inputs_bytes H a
   | (Inl e, a') \<Rightarrow> a' = a \<and> receipt_bytes a = Inl SessionStatusMismatch \<and>
       (\<exists>t. e = ProofGenerationFailed t \<or>
             e = ReceiptVerificationFailed t \<and> v \<notin> {Some ''1'', Some ''true''})"
proof (cases "pr_receipt a")
  case (Some bs)
  then show ?thesis by (cases a) (simp add: prove_def receipt_bytes_def)
next
  case None
  let ?pid = "snapshot_proposal_id H (pr_snapshot a) (pr_index a) (pr_action_bytes a) (pr_target_program a)"
  show ?thesis
  proof (cases "run_risc0_prover Z v a ?pid")
    case (Inl e)
    with None run_risc0_prover_eq_Inl [OF Inl] show ?thesis
      by (auto simp: prove_def receipt_bytes_def is_dev_mode_def)
  next
    case (Inr r)
    with None show ?thesis
      by (cases "bincode_serialize Z r")
        (simp_all add: prove_def receipt_bytes_def public_inputs_bytes_def prover_public_inputs_def
          compute_nullifier_def)
  qed
qed


text \<open>What is known of a receipt that a prover made by \<open>new\<close> returns.\<close>

lemma proved_receipt:
  assumes "runs_guest H rd Z elf journal" and "slice_reader rd" and "wf_proof p"
    and new: "prover_new H m s index action target p elf = Inr a"
    and "prove H Z v a = (Inr bs, a')"
  obtains r where "bincode_serialize Z r = Inr bs" "journal r = public_inputs_bytes H a"
    "is_dev_mode v \<or> receipt_verify Z r APPROVE_CIRCUIT_IMAGE_ID_PINNED = Inr ()"
proof -
  have a: "pr_receipt a = None" "pr_elf a = elf"
    using new assms(3) by (auto simp: prover_new_eq split: if_splits)
  from assms(5) [unfolded prove_uncached [OF a(1) refl]] obtain r where
    r: "run_risc0_prover Z v a (snapshot_proposal_id H (pr_snapshot a) (pr_index a) (pr_action_bytes a)
          (pr_target_program a)) = Inr r" "bincode_serialize Z r = Inr bs" by blast
  then show thesis
    using that [OF r(2)] assms(1) prover_circuit [OF assms(2) new assms(3)]
    by (auto simp: run_risc0_prover_eq_Inr a(2) runs_guest_def)
qed

text \<open>The verifier accepts what the prover says its receipt attests.\<close>

lemma approve_prover:
  assumes "wf_proof p" and "prover_new (sha256 E) m s index action target p elf = Inr a"
    and "state_from_slice E (acc_data (acc state)) = Some body" and "account_id state = s_state_pda s"
    and "members_root body = s_members_root s"
    and "proposal_from_slice E (acc_data (acc prp)) = Some pb"
    and "action_bytes pb = action" and "target_program pb = target"
    and "unat (approvals_count pb) + 1 < 2 ^ 32"
    and "encode_proposal E (pb\<lparr>approvals_count := approvals_count pb + 1\<rparr>) = Some d"
  shows "approve E state prp entry submitter ck index (prover_nullifier (sha256 E) a)
      (public_inputs_bytes (sha256 E) a) =
      Inr (output_execute [state, set_data prp d, entry, submitter] []
             [(APPROVE_CIRCUIT_IMAGE_ID, public_inputs_bytes (sha256 E) a)])"
proof -
  have "public_inputs_bytes (sha256 E) a =
      to_bytes \<lparr>in_members_root = members_root body,
        in_proposal_id = expected_proposal_id (sha256 E) (account_id state) index pb,
        in_nullifier = prover_nullifier (sha256 E) a\<rparr>"
    using assms(1,2,4,5,7,8)
    by (auto simp: prover_new_eq public_inputs_bytes_def prover_public_inputs_def prover_nullifier_def
        snapshot_proposal_id_def expected_proposal_id_def Let_def split: if_splits)
  then show ?thesis unfolding approve_eq_Inr using assms(3,6,9,10) by blast
qed

lemma image_id_pinned: "APPROVE_CIRCUIT_IMAGE_ID_PINNED = APPROVE_CIRCUIT_IMAGE_ID"
  by (simp add: APPROVE_CIRCUIT_IMAGE_ID_PINNED_def APPROVE_CIRCUIT_IMAGE_ID_def)

text \<open>
  What the SDK proves, the verifier accepts. Take a prover made by \<open>new\<close> whose snapshot
  has the root and the address of a state account, for the action and target of a proposal
  account. If the zkVM runs the guest and \<open>prove\<close> returns bytes, they are a receipt whose
  journal is \<open>public_inputs_bytes\<close>, verified against the pinned image id outside dev mode; and
  the verifier's \<open>approve\<close>, given those public inputs and the prover's nullifier, succeeds,
  adds one to the counter and asks for exactly a receipt of that image with that journal.
\<close>

theorem prover_satisfies_verifier:
  assumes "slice_reader rd" and "runs_guest (sha256 E) rd Z elf journal" and "wf_proof p"
    and "prover_new (sha256 E) m s index action target p elf = Inr a"
    and "prove (sha256 E) Z v a = (Inr bs, a')"
    and "state_from_slice E (acc_data (acc state)) = Some body" and "account_id state = s_state_pda s"
    and "members_root body = s_members_root s"
    and "proposal_from_slice E (acc_data (acc prp)) = Some pb"
    and "action_bytes pb = action" and "target_program pb = target"
    and "unat (approvals_count pb) + 1 < 2 ^ 32"
    and "encode_proposal E (pb\<lparr>approvals_count := approvals_count pb + 1\<rparr>) = Some d"
  shows "\<exists>r. bincode_serialize Z r = Inr bs \<and>
    (v \<notin> {Some ''1'', Some ''true''} \<longrightarrow> receipt_verify Z r APPROVE_CIRCUIT_IMAGE_ID = Inr ()) \<and>
    approve E state prp entry submitter ck index (prover_nullifier (sha256 E) a)
      (public_inputs_bytes (sha256 E) a) =
      Inr (output_execute [state, set_data prp d, entry, submitter] []
             [(APPROVE_CIRCUIT_IMAGE_ID, journal r)])"
proof -
  obtain r where r: "bincode_serialize Z r = Inr bs" "journal r = public_inputs_bytes (sha256 E) a"
    "is_dev_mode v \<or> receipt_verify Z r APPROVE_CIRCUIT_IMAGE_ID_PINNED = Inr ()"
    by (rule proved_receipt [OF assms(2,1,3,4,5)])
  with approve_prover [OF assms(3,4,6-13)] show ?thesis
    by (auto simp: is_dev_mode_def image_id_pinned)
qed

lemma sample_prove:
  assumes "prover_new sample_hash m s index action target p elf = Inr a" and "wf_proof p"
  shows "\<exists>bs. prove sample_hash sample_zkvm v a = (Inr bs, a\<lparr>pr_receipt := Some bs\<rparr>)"
proof -
  have "pr_receipt a = None" using assms by (auto simp: prover_new_eq split: if_splits)
  then show ?thesis
    using prover_circuit [OF sample_reader assms]
    by (simp add: prove_def run_risc0_prover_def sample_zkvm_def image_id_def)
qed

lemma sample_proposal_stored: "\<exists>d. encode_proposal (borsh_env sample_hash)
    \<lparr>action_bytes = [1, 2], target_program = 6, approvals_count = 1, executed = False\<rparr> = Some d"
  by (simp add: encode_proposal_def borsh_env_def storable_def proposal_bytes_def)

theorem prover_satisfies_verifier_witness:
  "\<forall>entry submitter. \<exists>p a bs a' out. prover_new sample_hash \<lparr>mem_identity = sample_member\<rparr> sample_snapshot 0 [1, 2] 6 p [] = Inr a \<and>
     prove sample_hash sample_zkvm None a = (Inr bs, a') \<and>
     approve (borsh_env sample_hash)
       \<lparr>acc = \<lparr>program_owner = 5, acc_data = state_bytes \<lparr>create_key = 9,
          members_root = merkle_root sample_hash sample_tree, st_m = 1, st_n = 1, proposal_count = 1\<rparr>\<rparr>,
        is_authorized = False, account_id = address sample_hash 5 (StateOf 9)\<rparr>
       \<lparr>acc = \<lparr>program_owner = 5, acc_data = proposal_bytes \<lparr>action_bytes = [1, 2], target_program = 6,
          approvals_count = 0, executed = False\<rparr>\<rparr>, is_authorized = False, account_id = 4\<rparr>
       entry submitter 9 0 (prover_nullifier sample_hash a) (public_inputs_bytes sample_hash a) = Inr out"
  (is "\<forall>_ _. \<exists>p a bs a' out. _ \<and> _ \<and> approve _ ?s ?p _ _ _ _ _ _ = _")
proof (intro allI)
  fix entry submitter
  obtain p a where a: "wf_proof p"
    "prover_new sample_hash \<lparr>mem_identity = sample_member\<rparr> sample_snapshot 0 [1, 2] 6 p [] = Inr a"
    by (rule sample_prover)
  obtain bs a' where b: "prove sample_hash sample_zkvm None a = (Inr bs, a')"
    using sample_prove [OF a(2,1)] by blast
  obtain d where d: "encode_proposal (borsh_env sample_hash)
      \<lparr>action_bytes = [1, 2], target_program = 6, approvals_count = 1, executed = False\<rparr> = Some d"
    using sample_proposal_stored by blast
  have s: "parse_state (acc_data (acc ?s)) = Some \<lparr>create_key = 9,
      members_root = merkle_root sample_hash sample_tree, st_m = 1, st_n = 1, proposal_count = 1\<rparr>"
    "parse_proposal (acc_data (acc ?p)) = Some \<lparr>action_bytes = [1, 2], target_program = 6,
      approvals_count = 0, executed = False\<rparr>"
    by (simp_all add: parse_state_bytes parse_proposal_bytes)
  from prover_satisfies_verifier [of sample_reader "borsh_env sample_hash" sample_zkvm "[]" id p
      "\<lparr>mem_identity = sample_member\<rparr>" sample_snapshot 0 "[1, 2]" 6 a None bs a' ?s _ ?p _ d entry
      submitter 9, unfolded borsh_env_sel, OF sample_reader sample_zkvm(1) a b s(1) _ _ s(2)]
  show "\<exists>p a bs a' out. prover_new sample_hash \<lparr>mem_identity = sample_member\<rparr> sample_snapshot 0 [1, 2] 6 p [] = Inr a \<and>
     prove sample_hash sample_zkvm None a = (Inr bs, a') \<and>
     approve (borsh_env sample_hash) ?s ?p entry submitter 9 0 (prover_nullifier sample_hash a)
       (public_inputs_bytes sample_hash a) = Inr out"
    using a(2) b d by (auto simp: sample_snapshot_def)
qed

text \<open>
  An enrolled member gets a receipt. For a builder driven by any calls of \<open>add_member\<close>, what
  \<open>finalize\<close> returns hands every enrolled member (with room in the tree and a commitment that is
  not all zeros) a path that \<open>new\<close> accepts for any snapshot with that root, any index below its
  proposal count and any action of at most 4096 bytes; and where the host can prove what the
  guest commits, \<open>prove\<close> then returns a receipt, in dev mode or not.
\<close>

theorem enrolled_member_proves:
  assumes "builder_step\<^sup>*\<^sup>* (builder_new H m') b" and "builder_finalize H b = Inr f"
    and "length (b_added b) \<le> MAX_LEAVES"
    and "member_id H mem \<in> set (b_added b)" and "commitment_bytes (member_id H mem) \<noteq> 0"
    and "s_members_root s = f_members_root f" and "index < s_proposal_count s"
    and "length action \<le> MAX_ACTION_BYTES_LEN"
    and "slice_reader rd" and "finds_proofs H rd Z elf"
  shows "\<exists>p a bs. finalized_merkle_proof H f (member_id H mem) = Inr p \<and>
    prover_new H mem s index action target p elf = Inr a \<and>
    prove H Z v a = (Inr bs, a\<lparr>pr_receipt := Some bs\<rparr>)"
proof -
  have inv: "builder_inv H b" using builder_sys.inv_reachable [OF _ assms(1)] by blast
  obtain p where p: "finalized_merkle_proof H f (member_id H mem) = Inr p" "wf_proof p"
    "verify_proof H (f_members_root f) (commitment_bytes (member_id H mem)) p"
    using builder_member_proof [OF inv assms(2,4,5,3)] by blast
  then obtain a where a: "prover_new H mem s index action target p elf = Inr a"
    using assms(6-8) by (simp add: prover_new_eq commitment_member_id not_le not_less)
  then have e: "pr_receipt a = None" "pr_elf a = elf"
    using p(2) by (auto simp: prover_new_eq split: if_splits)
  let ?pid = "snapshot_proposal_id H (pr_snapshot a) (pr_index a) (pr_action_bytes a) (pr_target_program a)"
  obtain env r bs where "build_env Z (prover_slices a ?pid) = Inr env" "zk_prove Z env elf = Inr r"
    "receipt_verify Z r APPROVE_CIRCUIT_IMAGE_ID_PINNED = Inr ()" "bincode_serialize Z r = Inr bs"
    using assms(10) prover_circuit [OF assms(9) a p(2)] unfolding finds_proofs_def by blast
  then have "prove H Z v a = (Inr bs, a\<lparr>pr_receipt := Some bs\<rparr>)"
    unfolding prove_uncached [OF e(1) refl] by (auto simp: run_risc0_prover_eq_Inr e(2))
  with p(1) a show ?thesis by blast
qed

theorem enrolled_member_proves_witness:
  "\<exists>b f p a bs. builder_step\<^sup>*\<^sup>* (builder_new sample_hash 1) b \<and> builder_finalize sample_hash b = Inr f \<and>
     prover_new sample_hash \<lparr>mem_identity = sample_member\<rparr>
       (sample_snapshot\<lparr>s_members_root := f_members_root f\<rparr>) 0 [1, 2] 6 p [] = Inr a \<and>
     prove sample_hash sample_zkvm None a = (Inr bs, a\<lparr>pr_receipt := Some bs\<rparr>)"
proof -
  obtain b where b: "builder_step\<^sup>*\<^sup>* (builder_new sample_hash 1) b" "b_added b = [IdentityCommitment 7]"
    "b_m b = 1" by (rule sample_builder)
  then obtain f where f: "builder_finalize sample_hash b = Inr f" by (auto simp: finalize_eq_Inr)
  have i: "member_id sample_hash \<lparr>mem_identity = sample_member\<rparr> = IdentityCommitment 7"
    by (simp add: member_id_def sample_member)
  let ?s = "sample_snapshot\<lparr>s_members_root := f_members_root f\<rparr>"
  have "\<exists>p a bs. finalized_merkle_proof sample_hash f (member_id sample_hash \<lparr>mem_identity = sample_member\<rparr>) = Inr p \<and>
    prover_new sample_hash \<lparr>mem_identity = sample_member\<rparr> ?s 0 [1, 2] 6 p [] = Inr a \<and>
    prove sample_hash sample_zkvm None a = (Inr bs, a\<lparr>pr_receipt := Some bs\<rparr>)"
    by (rule enrolled_member_proves [OF b(1) f _ _ _ _ _ _ sample_reader sample_zkvm(2)])
      (simp_all add: b i sample_snapshot_def MAX_ACTION_BYTES_LEN_def MAX_LEAVES_def MERKLE_DEPTH_def)
  with b(1) f show ?thesis by blast
qed

end
