(* ===== verification/Approval_Flow.thy ===== *)
theory Approval_Flow
  imports Session_Store Sdk_Prover
begin

text \<open>
  A member's client through crashes: the prover, the session in memory and the store on disk
  together. The session is created from the prover's public inputs, every operation of
  \<open>session.rs\<close> may be called on it in any order, \<open>mark_proved\<close> with what \<open>prove\<close> returned, and
  it may be saved at any time. A crash loses the session in memory, and since \<open>save\<close> does not
  flush, it may also set the store back to an earlier moment; the next run loads the session
  again. Other sessions are saved and deleted in between.
\<close>

text \<open>The session in memory, the store, and what the store was before.\<close>

record 't client =
  mem :: "approval_session option"
  disk :: "'t session_store"
  past :: "'t session_store set"

text \<open>What \<open>prove\<close> can return for a prover.\<close>

definition proof_of :: "hasher \<Rightarrow> ('env, 'r, 'z) zkvm_scheme \<Rightarrow> approval_prover \<Rightarrow> byte list \<Rightarrow> bool" where
  "proof_of H Z a bs \<longleftrightarrow> (\<exists>v a'. prove H Z v a = (Inr bs, a'))"

text \<open>The session that the client starts with.\<close>

definition flow_session :: "hasher \<Rightarrow> member \<Rightarrow> approval_prover \<Rightarrow> u64 \<Rightarrow> approval_session" where
  "flow_session H m a now =
     session_new now (s_state_pda (pr_snapshot a))
       (snapshot_proposal_id H (pr_snapshot a) (pr_index a) (pr_action_bytes a) (pr_target_program a))
       (member_id H m) (public_inputs_bytes H a) (prover_nullifier H a)"

definition same_key :: "approval_session \<Rightarrow> approval_session \<Rightarrow> bool" where
  "same_key s t \<longleftrightarrow> instance_pda s = instance_pda t \<and> proposal_id s = proposal_id t \<and>
     member_commitment s = member_commitment t"

text \<open>\<open>s0\<close> is the client's session as created, \<open>proofs\<close> the receipts it may be given.\<close>

inductive client_step ::
  "'t sled_tree \<Rightarrow> (byte list \<Rightarrow> bool) \<Rightarrow> approval_session \<Rightarrow> 't client \<Rightarrow> 't client \<Rightarrow> bool"
  for T proofs s0 where
  work: "mem c = Some s \<Longrightarrow> session_step s s' \<Longrightarrow>
      receipt s' = receipt s \<or> (\<exists>bs. receipt s' = Some bs \<and> proofs bs) \<Longrightarrow>
      client_step T proofs s0 c (c\<lparr>mem := Some s'\<rparr>)"
| save: "mem c = Some s \<Longrightarrow> store_save T (disk c) s = (Inr (), st) \<Longrightarrow>
      client_step T proofs s0 c (c\<lparr>disk := st, past := insert (disk c) (past c)\<rparr>)"
| other_save: "\<not> same_key s s0 \<Longrightarrow> store_save T (disk c) s = (Inr (), st) \<Longrightarrow>
      client_step T proofs s0 c (c\<lparr>disk := st, past := insert (disk c) (past c)\<rparr>)"
| delete: "store_delete T (disk c) pda pid cm = (Inr (), st) \<Longrightarrow>
      client_step T proofs s0 c (c\<lparr>disk := st, past := insert (disk c) (past c)\<rparr>)"
| crash: "st \<in> insert (disk c) (past c) \<Longrightarrow>
      client_step T proofs s0 c (c\<lparr>mem := None, disk := st\<rparr>)"
| resume: "mem c = None \<Longrightarrow>
      store_load T (disk c) (instance_pda s0) (proposal_id s0) (member_commitment s0) = Inr s \<Longrightarrow>
      client_step T proofs s0 c (c\<lparr>mem := Some s\<rparr>)"
| restart: "mem c = None \<Longrightarrow> client_step T proofs s0 c (c\<lparr>mem := Some (s0\<lparr>last_updated := now\<rparr>)\<rparr>)"

text \<open>A session that came from \<open>s0\<close> and holds no receipt but a proof.\<close>

definition sound_session :: "(byte list \<Rightarrow> bool) \<Rightarrow> approval_session \<Rightarrow> approval_session \<Rightarrow> bool" where
  "sound_session proofs s0 s \<longleftrightarrow>
     session_inv s \<and> same_key s s0 \<and> public_inputs s = public_inputs s0 \<and>
     ses_nullifier s = ses_nullifier s0 \<and> (\<forall>bs. receipt s = Some bs \<longrightarrow> proofs bs)"

definition sound_store ::
  "'t sled_tree \<Rightarrow> (byte list \<Rightarrow> bool) \<Rightarrow> approval_session \<Rightarrow> 't session_store \<Rightarrow> bool" where
  "sound_store T proofs s0 st \<longleftrightarrow>
     (\<forall>s. store_load T st (instance_pda s0) (proposal_id s0) (member_commitment s0) = Inr s \<longrightarrow>
        sound_session proofs s0 s)"

definition store_documented :: "'t sled_tree \<Rightarrow> bool" where
  "store_documented T \<longleftrightarrow> (\<exists>contents. sled_ok T contents) \<and> reads_succeed T \<and> sessions_decode T"

definition client_inv ::
  "'t sled_tree \<Rightarrow> (byte list \<Rightarrow> bool) \<Rightarrow> approval_session \<Rightarrow> 't client \<Rightarrow> bool" where
  "client_inv T proofs s0 c \<longleftrightarrow> store_documented T \<and> sound_session proofs s0 s0 \<and>
     (\<forall>s. mem c = Some s \<longrightarrow> sound_session proofs s0 s) \<and>
     (\<forall>st \<in> insert (disk c) (past c). sound_store T proofs s0 st)"

definition client_init ::
  "'t sled_tree \<Rightarrow> (byte list \<Rightarrow> bool) \<Rightarrow> approval_session \<Rightarrow> 't client \<Rightarrow> bool" where
  "client_init T proofs s0 c \<longleftrightarrow> store_documented T \<and> fresh_session s0 \<and> mem c = None \<and> past c = {} \<and>
     store_load T (disk c) (instance_pda s0) (proposal_id s0) (member_commitment s0) = Inl SessionNotFound"

lemma sound_session_step:
  assumes "sound_session proofs s0 s" "session_step s s'"
    and "receipt s' = receipt s \<or> (\<exists>bs. receipt s' = Some bs \<and> proofs bs)"
  shows "sound_session proofs s0 s'"
  using assms session_inv_step [OF assms(2)] session_mono.step_le [OF assms(2)]
  by (auto simp: sound_session_def same_key_def same_subject_def)

lemma sound_store_save:
  assumes T: "store_documented T" and st: "sound_store T proofs s0 st"
    and save: "store_save T st s = (Inr (), st')" and s: "same_key s s0 \<Longrightarrow> sound_session proofs s0 s"
  shows "sound_store T proofs s0 st'"
  using T st s load_after_save [OF _ _ _ save]
  by (fastforce simp: sound_store_def store_documented_def same_key_def)

lemma sound_store_delete:
  assumes T: "store_documented T" and st: "sound_store T proofs s0 st"
    and del: "store_delete T st pda pid cm = (Inr (), st')"
  shows "sound_store T proofs s0 st'"
  using T st load_after_delete [OF _ _ del]
  by (fastforce simp: sound_store_def store_documented_def split: if_splits)

lemma client_inv_step:
  assumes "client_step T proofs s0 c c'" "client_inv T proofs s0 c"
  shows "client_inv T proofs s0 c'"
  using assms
proof (cases rule: client_step.cases)
  case (work s s')
  with assms(2) sound_session_step [OF _ work(3,4)] show ?thesis by (auto simp: client_inv_def)
next
  case (save s st)
  with assms(2) sound_store_save [OF _ _ save(3)] show ?thesis by (auto simp: client_inv_def)
next
  case (other_save s st)
  with assms(2) sound_store_save [OF _ _ other_save(3)] show ?thesis by (auto simp: client_inv_def)
next
  case (delete pda pid cm st)
  with assms(2) sound_store_delete [OF _ _ delete(2)] show ?thesis by (auto simp: client_inv_def)
next
  case (crash st)
  with assms(2) show ?thesis by (auto simp: client_inv_def)
next
  case (resume s)
  with assms(2) show ?thesis by (auto simp: client_inv_def sound_store_def)
next
  case (restart now)
  with assms(2) show ?thesis by (auto simp: client_inv_def sound_session_def session_inv_def same_key_def)
qed

interpretation client_sys: invariant_system "client_init T proofs s0" "client_step T proofs s0"
  "client_inv T proofs s0" for T proofs s0
proof unfold_locales
  show "client_inv T proofs s0 c" if "client_init T proofs s0 c" for c
    using that session_inv_new [of s0]
    by (auto simp: client_init_def client_inv_def sound_store_def sound_session_def same_key_def
        fresh_session_def session_new_def)
qed (rule client_inv_step)

section \<open>An approval survives crashes\<close>

lemma client_session:
  assumes "client_init T proofs s0 c0" "(client_step T proofs s0)\<^sup>*\<^sup>* c0 c" "mem c = Some s"
  shows "sound_session proofs s0 s"
  using client_sys.inv_reachable [OF assms(1,2)] assms(3) by (auto simp: client_inv_def)

text \<open>
  Whatever happens to the client, a session that claims a receipt is worth an approval.
  After any sequence of operations, saves, crashes that undo any number of saves, resumptions
  and uses of the store for other sessions, if the session in memory has reached \<open>Proved\<close>,
  \<open>Submitted\<close> or \<open>Confirmed\<close> then it holds a receipt that the zkVM made for exactly its public
  inputs, and \<open>approve\<close> of the program accepts those public inputs and its nullifier for the
  proposal, and asks for exactly that receipt.
\<close>

theorem resumed_session_approves:
  assumes "slice_reader rd" and "runs_guest (sha256 E) rd Z elf journal" and "wf_proof p"
    and "prover_new (sha256 E) m s index action target p elf = Inr a"
    and "client_init T (proof_of (sha256 E) Z a) (flow_session (sha256 E) m a now) c0"
    and "(client_step T (proof_of (sha256 E) Z a) (flow_session (sha256 E) m a now))\<^sup>*\<^sup>* c0 c"
    and "mem c = Some ses" and "has_receipt (status ses)"
    and "state_from_slice E (acc_data (acc state)) = Some body" and "account_id state = s_state_pda s"
    and "members_root body = s_members_root s"
    and "proposal_from_slice E (acc_data (acc prp)) = Some pb"
    and "action_bytes pb = action" and "target_program pb = target"
    and "unat (approvals_count pb) + 1 < 2 ^ 32"
    and "encode_proposal E (pb\<lparr>approvals_count := approvals_count pb + 1\<rparr>) = Some d"
  shows "\<exists>nul pi bs r. ses_nullifier ses = Some nul \<and> public_inputs ses = Some pi \<and>
    receipt ses = Some bs \<and> bincode_serialize Z r = Inr bs \<and> journal r = pi \<and>
    approve E state prp entry submitter ck index nul pi =
      Inr (output_execute [state, set_data prp d, entry, submitter] [] [(APPROVE_CIRCUIT_IMAGE_ID, pi)])"
proof -
  let ?H = "sha256 E"
  have s: "sound_session (proof_of ?H Z a) (flow_session ?H m a now) ses"
    by (rule client_session [OF assms(5-7)])
  then obtain bs where bs: "receipt ses = Some bs" "proof_of ?H Z a bs"
    using assms(8) by (auto simp: sound_session_def session_inv_def)
  then obtain v a' where "prove ?H Z v a = (Inr bs, a')" by (auto simp: proof_of_def)
  then obtain r where "bincode_serialize Z r = Inr bs" "journal r = public_inputs_bytes ?H a"
    by (rule proved_receipt [OF assms(2,1,3,4)])
  moreover have "public_inputs ses = Some (public_inputs_bytes ?H a)"
    "ses_nullifier ses = Some (prover_nullifier ?H a)"
    using s by (simp_all add: sound_session_def flow_session_def session_new_def)
  ultimately show ?thesis
    using bs(1) approve_prover [OF assms(3,4,9-16)] by blast
qed

text \<open>A client that proves, saves, crashes and resumes.\<close>

lemma sample_client:
  assumes "proofs bs" "length bs < 2 ^ 32" "s0 = session_new 0 pda pid cm pi nul" "length pi = 96"
  defines "s2 \<equiv> s0\<lparr>status := Proved, last_updated := 2, receipt := Some bs\<rparr>"
  shows "\<exists>c0 c. client_init sample_sled proofs s0 c0 \<and> (client_step sample_sled proofs s0)\<^sup>*\<^sup>* c0 c \<and>
    mem c = Some s2"
proof -
  let ?step = "client_step sample_sled proofs s0"
  let ?st0 = "\<lparr>poisoned = False, sled = [] :: entry list\<rparr>"
  let ?st1 = "\<lparr>poisoned = False, sled = [(key_of s2, enc_session s2)]\<rparr>"
  let ?c0 = "\<lparr>mem = None, disk = ?st0, past = {}\<rparr>"
  let ?s1 = "s0\<lparr>status := Proving, last_updated := 1\<rparr>"
  have ok: "session_ok s2" using assms by (simp add: session_ok_def s2_def session_new_def)
  have sv: "store_save sample_sled ?st0 s2 = (Inr (), ?st1)" by (rule sample_save [OF ok])
  have T: "store_documented sample_sled"
    using sample_sled_ok sample_sled_reads sample_sled_decodes by (auto simp: store_documented_def)
  have l0: "store_load sample_sled ?st0 pda' pid' c' = Inl SessionNotFound" for pda' pid' c'
    by (simp add: store_load_def store_lock_def sample_sled_def)
  have l1: "store_load sample_sled ?st1 (instance_pda s0) (proposal_id s0) (member_commitment s0) = Inr s2"
    using load_after_save [OF sample_sled_ok sample_sled_reads sample_sled_decodes sv] by (simp add: s2_def)
  have "?step ?c0 (?c0\<lparr>mem := Some (s0\<lparr>last_updated := 0\<rparr>)\<rparr>)" by (rule client_step.restart) simp
  then have r: "?step ?c0 (?c0\<lparr>mem := Some s0\<rparr>)" by (simp add: assms(3) session_new_def)
  have w1: "session_step s0 ?s1"
    by (rule session_step.proving [of 1 _ "Inr ()"]) (simp add: mark_proving_def transition_to_def assms(3) session_new_def)
  have w2: "session_step ?s1 s2"
    by (rule session_step.proved [of 2 bs _ "Inr ()"]) (simp add: mark_proved_def transition_to_def s2_def)
  have 1: "?step (?c0\<lparr>mem := Some s0\<rparr>) (?c0\<lparr>mem := Some ?s1\<rparr>)"
    using client_step.work [of "?c0\<lparr>mem := Some s0\<rparr>" s0 ?s1 proofs] w1 by simp
  have 2: "?step (?c0\<lparr>mem := Some ?s1\<rparr>) (?c0\<lparr>mem := Some s2\<rparr>)"
    using client_step.work [of "?c0\<lparr>mem := Some ?s1\<rparr>" ?s1 s2 proofs] w2 assms(1) by (simp add: s2_def)
  have 3: "?step (?c0\<lparr>mem := Some s2\<rparr>) \<lparr>mem = Some s2, disk = ?st1, past = {?st0}\<rparr>"
    using client_step.save [of "?c0\<lparr>mem := Some s2\<rparr>" s2 sample_sled] sv by simp
  have 4: "?step \<lparr>mem = Some s2, disk = ?st1, past = {?st0}\<rparr> \<lparr>mem = None, disk = ?st1, past = {?st0}\<rparr>"
    using client_step.crash [of ?st1 "\<lparr>mem = Some s2, disk = ?st1, past = {?st0}\<rparr>"] by simp
  have 5: "?step \<lparr>mem = None, disk = ?st1, past = {?st0}\<rparr> \<lparr>mem = Some s2, disk = ?st1, past = {?st0}\<rparr>"
    using client_step.resume [of "\<lparr>mem = None, disk = ?st1, past = {?st0}\<rparr>" sample_sled s0] l1 by simp
  have "?step\<^sup>*\<^sup>* ?c0 \<lparr>mem = Some s2, disk = ?st1, past = {?st0}\<rparr>"
    using r 1 2 3 4 5 by (meson converse_rtranclp_into_rtranclp rtranclp.rtrancl_refl)
  moreover have "client_init sample_sled proofs s0 ?c0"
    using T l0 assms(3) unfolding client_init_def fresh_session_def by (intro conjI) (auto, blast)
  ultimately show ?thesis by fastforce
qed

theorem resumed_session_approves_witness:
  "\<forall>entry submitter. \<exists>p a c0 c ses nul pi out.
     prover_new sample_hash \<lparr>mem_identity = sample_member\<rparr> sample_snapshot 0 [1, 2] 6 p [] = Inr a \<and>
     client_init sample_sled (proof_of sample_hash sample_zkvm a)
       (flow_session sample_hash \<lparr>mem_identity = sample_member\<rparr> a 0) c0 \<and>
     (client_step sample_sled (proof_of sample_hash sample_zkvm a)
       (flow_session sample_hash \<lparr>mem_identity = sample_member\<rparr> a 0))\<^sup>*\<^sup>* c0 c \<and>
     mem c = Some ses \<and> status ses = Proved \<and> ses_nullifier ses = Some nul \<and> public_inputs ses = Some pi \<and>
     approve (borsh_env sample_hash)
       \<lparr>acc = \<lparr>program_owner = 5, acc_data = state_bytes \<lparr>create_key = 9,
          members_root = merkle_root sample_hash sample_tree, st_m = 1, st_n = 1, proposal_count = 1\<rparr>\<rparr>,
        is_authorized = False, account_id = address sample_hash 5 (StateOf 9)\<rparr>
       \<lparr>acc = \<lparr>program_owner = 5, acc_data = proposal_bytes \<lparr>action_bytes = [1, 2], target_program = 6,
          approvals_count = 0, executed = False\<rparr>\<rparr>, is_authorized = False, account_id = 4\<rparr>
       entry submitter 9 0 nul pi = Inr out"
  (is "\<forall>_ _. \<exists>p a c0 c ses nul pi out. _ \<and> _ \<and> _ \<and> _ \<and> _ \<and> _ \<and> _ \<and> approve _ ?s ?p _ _ _ _ _ _ = _")
proof (intro allI)
  fix entry submitter
  let ?m = "\<lparr>mem_identity = sample_member\<rparr>"
  obtain p a where a: "wf_proof p" "prover_new sample_hash ?m sample_snapshot 0 [1, 2] 6 p [] = Inr a"
    by (rule sample_prover)
  let ?P = "proof_of sample_hash sample_zkvm a" and ?ses = "flow_session sample_hash ?m a 0"
  obtain bs a' where b: "prove sample_hash sample_zkvm None a = (Inr bs, a')"
    using sample_prove [OF a(2,1)] by blast
  obtain r where r: "bincode_serialize sample_zkvm r = Inr bs" "id r = public_inputs_bytes sample_hash a"
    by (rule proved_receipt [OF sample_zkvm(1) sample_reader a b])
  then have l: "length bs < 2 ^ 32" "length (public_inputs_bytes sample_hash a) = 96"
    by (simp_all add: sample_zkvm_def public_inputs_bytes_def APPROVE_PUBLIC_INPUTS_LEN_def)
  obtain c0 c where c: "client_init sample_sled ?P ?ses c0" "(client_step sample_sled ?P ?ses)\<^sup>*\<^sup>* c0 c"
    "mem c = Some (?ses\<lparr>status := Proved, last_updated := 2, receipt := Some bs\<rparr>)"
    using sample_client [OF _ l(1) flow_session_def [of sample_hash ?m a 0] l(2), of ?P] b
    by (auto simp: proof_of_def)
  obtain d where d: "encode_proposal (borsh_env sample_hash)
      \<lparr>action_bytes = [1, 2], target_program = 6, approvals_count = 1, executed = False\<rparr> = Some d"
    using sample_proposal_stored by blast
  have s: "parse_state (acc_data (acc ?s)) = Some \<lparr>create_key = 9,
      members_root = merkle_root sample_hash sample_tree, st_m = 1, st_n = 1, proposal_count = 1\<rparr>"
    "parse_proposal (acc_data (acc ?p)) = Some \<lparr>action_bytes = [1, 2], target_program = 6,
      approvals_count = 0, executed = False\<rparr>"
    by (simp_all add: parse_state_bytes parse_proposal_bytes)
  from resumed_session_approves [of sample_reader "borsh_env sample_hash" sample_zkvm "[]" id p
      ?m sample_snapshot 0 "[1, 2]" 6 a sample_sled 0 c0 c _ ?s _ ?p _ d entry submitter 9,
      unfolded borsh_env_sel, OF sample_reader sample_zkvm(1) a c _ s(1) _ _ s(2)] d
  have "\<exists>nul pi out. ses_nullifier (?ses\<lparr>status := Proved, last_updated := 2, receipt := Some bs\<rparr>) = Some nul \<and>
      public_inputs (?ses\<lparr>status := Proved, last_updated := 2, receipt := Some bs\<rparr>) = Some pi \<and>
      approve (borsh_env sample_hash) ?s ?p entry submitter 9 0 nul pi = Inr out"
    by (auto simp: sample_snapshot_def has_receipt_def)
  with a c show "\<exists>p a c0 c ses nul pi out.
     prover_new sample_hash ?m sample_snapshot 0 [1, 2] 6 p [] = Inr a \<and>
     client_init sample_sled (proof_of sample_hash sample_zkvm a) (flow_session sample_hash ?m a 0) c0 \<and>
     (client_step sample_sled (proof_of sample_hash sample_zkvm a) (flow_session sample_hash ?m a 0))\<^sup>*\<^sup>* c0 c \<and>
     mem c = Some ses \<and> status ses = Proved \<and> ses_nullifier ses = Some nul \<and> public_inputs ses = Some pi \<and>
     approve (borsh_env sample_hash) ?s ?p entry submitter 9 0 nul pi = Inr out"
    by fastforce
qed

end
