(* ===== verification/Resubmission.thy ===== *)
theory Resubmission
  imports Security Approval_Flow
begin

text \<open>
  A client and the chain together. A member's client may crash between submitting an approval
  and noting that it did, so after resuming it submits again. Whatever the crashes, the
  chain records the member's vote exactly once.
\<close>

section \<open>One vote on an open proposal\<close>

lemma vote_accepted:
  assumes "runtime_exact (sha256 E) R pid" and "roomy E" and "stores E"
    and "ref_names = {StateOf ck, ProposalOf ck i, NullifierOf ck i nul}"
    and "inj_on (address (sha256 E) pid) ref_names" and "signer \<notin> address (sha256 E) pid ` ref_names"
    and "refines (sha256 E) E pid ref_names L S" and "spec_inv S"
    and "vacant (sha256 E) R pid ref_names L"
    and "sp_inst S ck = Some q" and "ins_root q = root"
    and "sp_ballot S (ck, i) = Some b" and "bl_action b = action" and "bl_target b = target"
    and "length (bl_votes b) + 1 < 2 ^ 32"
    and "pi = to_bytes (vote_inputs (sha256 E) pid ck i root action target nul)"
    and "discharged R APPROVE_CIRCUIT_IMAGE_ID pi"
  shows "submits E R pid signer L [Approve ck i nul pi] \<noteq> None \<longleftrightarrow> nul \<notin> set (bl_votes b)"
    and "submits E R pid signer L [Approve ck i nul pi] = Some L' \<Longrightarrow>
      \<exists>p. proposal_from_slice E (acc_data (L' (address (sha256 E) pid (ProposalOf ck i)))) = Some p \<and>
        unat (approvals_count p) = length (bl_votes b) + 1 \<and>
        submits E R pid signer L' [Approve ck i nul pi] = None"
proof -
  let ?H = "sha256 E" and ?v = "Approve ck i nul pi"
  let ?S = "S\<lparr>sp_ballot := (sp_ballot S)((ck, i) \<mapsto> b\<lparr>bl_votes := nul # bl_votes b\<rparr>)\<rparr>"
  have ok: "runtime_ok ?H R pid" using assms(1) by (simp add: runtime_exact_def)
  have names: "set (run_names [?v]) \<subseteq> ref_names" by (auto simp: run_names_def assms(4))
  note limited = submits_limited [OF ok assms(3) refl assms(5) _ names]
  have step: "run_steps (limited_step ?H pid R) S [?v] = (if nul \<notin> set (bl_votes b) then Some ?S else None)"
    using assms(10-17) by (simp add: limited_step_def)
  have go: "submits E R pid signer L [?v] \<noteq> None" if "nul \<notin> set (bl_votes b)"
  proof -
    have "spec_run ?H pid S [?v] = Some ?S" "run_within ?H pid R S [?v]"
      using step [unfolded if_P [OF that] limited_run] by blast+
    from run_submits [OF assms(1) refl assms(2,3,5,6,7,9,8) names this] show ?thesis by auto
  qed
  have went: "nul \<notin> set (bl_votes b) \<and> refines ?H E pid ref_names L' ?S"
    if "submits E R pid signer L [?v] = Some L'" for L'
    using limited [OF assms(7) that] step by (auto split: if_splits)
  show "submits E R pid signer L [?v] \<noteq> None \<longleftrightarrow> nul \<notin> set (bl_votes b)" using go went by blast
  assume "submits E R pid signer L [?v] = Some L'"
  then have r: "refines ?H E pid ref_names L' ?S" using went by blast
  have "run_steps (limited_step ?H pid R) ?S [?v] = None"
    using assms(10) by (simp add: limited_step_def)
  with limited [OF r] have again: "submits E R pid signer L' [?v] = None"
    by (cases "submits E R pid signer L' [?v]") (fastforce simp del: submits.simps)+
  have "ProposalOf ck i \<in> ref_names" by (simp add: assms(4))
  from matches_ballot [OF r this, of "b\<lparr>bl_votes := nul # bl_votes b\<rparr>"] obtain p where
    "proposal_from_slice E (acc_data (L' (address ?H pid (ProposalOf ck i)))) = Some p"
    "ballot_matches p (b\<lparr>bl_votes := nul # bl_votes b\<rparr>)" by auto
  with again show "\<exists>p. proposal_from_slice E (acc_data (L' (address ?H pid (ProposalOf ck i)))) = Some p \<and>
        unat (approvals_count p) = length (bl_votes b) + 1 \<and>
        submits E R pid signer L' [?v] = None"
    by (auto simp: ballot_matches_def)
qed

lemma vote_on_open_proposal:
  assumes "ledger_run E R pid L0 es L" and "sound_setting E R pid L0 (calls es @ [Approve ck i nul pi])"
    and "runtime_exact (sha256 E) R pid" and "roomy E"
    and "CreateMultisig ck root m' n' \<in> set (calls es)" and "Propose ck i action target \<in> set (calls es)"
    and "votes = card {nul. \<exists>pi. Approve ck i nul pi \<in> set (calls es)}" and "votes + 1 < 2 ^ 32"
    and "pi = to_bytes (vote_inputs (sha256 E) pid ck i root action target nul)"
    and "discharged R APPROVE_CIRCUIT_IMAGE_ID pi"
    and "vacant (sha256 E) R pid {NullifierOf ck i nul} L"
    and "signer \<notin> address (sha256 E) pid ` {StateOf ck, ProposalOf ck i, NullifierOf ck i nul}"
  shows "submits E R pid signer L [Approve ck i nul pi] \<noteq> None \<longleftrightarrow> (\<forall>pi'. Approve ck i nul pi' \<notin> set (calls es))"
    and "submits E R pid signer L [Approve ck i nul pi] = Some L' \<Longrightarrow>
      \<exists>p. proposal_from_slice E (acc_data (L' (address (sha256 E) pid (ProposalOf ck i)))) = Some p \<and>
        unat (approvals_count p) = votes + 1 \<and> submits E R pid signer L' [Approve ck i nul pi] = None"
proof -
  let ?H = "sha256 E" and ?U = "{StateOf ck, ProposalOf ck i, NullifierOf ck i nul}"
  let ?all = "set (run_names (calls es @ [Approve ck i nul pi]))"
  have sub: "set (run_names (calls es)) \<subseteq> ?all" "?U \<subseteq> ?all" by (auto simp: run_names_def)
  from setting_refines [OF assms(2,1) sub(1)] obtain S where
    S: "spec_run ?H pid spec_init (calls es) = Some S" and ref: "refines ?H E pid ?all L S" .
  obtain q where q: "sp_inst S ck = Some q" "ins_root q = root" using spec_create_recorded [OF S assms(5)] by blast
  obtain b where b: "sp_ballot S (ck, i) = Some b" "bl_action b = action" "bl_target b = target"
    using spec_propose_recorded [OF S assms(6)] by blast
  have votes: "set (bl_votes b) = {nul. \<exists>pi. Approve ck i nul pi \<in> set (calls es)}" "length (bl_votes b) = votes"
    using spec_votes_eq [OF S b(1)] assms(7) by simp_all
  have inj: "inj_on (address ?H pid) ?U" using inj_on_subset [OF setting_inj [OF assms(2)] sub(2)] .
  have r: "refines ?H E pid ?U L S" using ref sub(2) by (auto simp: refines_def)
  have o: "program_owner (L (address ?H pid (StateOf ck))) = pid"
    using matches_instance [OF r _ q(1)] by blast
  have "program_owner (L (address ?H pid (ProposalOf ck i))) = pid"
    using refinesD [OF r, of "ProposalOf ck i"] b(1) by auto
  with o assms(11) have vac: "vacant ?H R pid ?U L" by (auto simp: vacant_def)
  have st: "stores E" using assms(2) by (simp add: sound_setting_def)
  have "length (bl_votes b) + 1 < 2 ^ 32" using votes(2) assms(8) by simp
  note v = vote_accepted [OF assms(3,4) st refl inj assms(12) r spec_run_inv [OF S] vac q b this assms(9,10)]
  show "submits E R pid signer L [Approve ck i nul pi] \<noteq> None \<longleftrightarrow> (\<forall>pi'. Approve ck i nul pi' \<notin> set (calls es))"
    using v(1) votes(1) by blast
  show "submits E R pid signer L [Approve ck i nul pi] = Some L' \<Longrightarrow>
      \<exists>p. proposal_from_slice E (acc_data (L' (address (sha256 E) pid (ProposalOf ck i)))) = Some p \<and>
        unat (approvals_count p) = votes + 1 \<and> submits E R pid signer L' [Approve ck i nul pi] = None"
    using v(2) votes(2) by simp
qed

section \<open>A client that submits again\<close>

text \<open>The chain accepts the receipt that a session holds, for the journal it attests.\<close>

definition receipt_honoured ::
  "runtime \<Rightarrow> ('env, 'r, 'z) zkvm_scheme \<Rightarrow> ('r \<Rightarrow> byte list) \<Rightarrow> approval_session \<Rightarrow> bool" where
  "receipt_honoured R Z journal ses \<longleftrightarrow>
     (\<forall>r bs. receipt ses = Some bs \<and> bincode_serialize Z r = Inr bs \<longrightarrow>
        discharged R APPROVE_CIRCUIT_IMAGE_ID (journal r))"

lemma session_vote:
  assumes "slice_reader rd" and "runs_guest (sha256 E) rd Z elf journal" and "wf_proof p"
    and "prover_new (sha256 E) m s i action target p elf = Inr a"
    and "s_state_pda s = address (sha256 E) pid (StateOf ck)"
    and "client_init T (proof_of (sha256 E) Z a) (flow_session (sha256 E) m a now) c0"
    and "(client_step T (proof_of (sha256 E) Z a) (flow_session (sha256 E) m a now))\<^sup>*\<^sup>* c0 c"
    and "mem c = Some ses" and "has_receipt (status ses)"
    and "ses_nullifier ses = Some nul" and "public_inputs ses = Some pi"
    and "receipt_honoured R Z journal ses"
  shows "pi = to_bytes (vote_inputs (sha256 E) pid ck i (s_members_root s) action target nul)"
    and "discharged R APPROVE_CIRCUIT_IMAGE_ID pi"
proof -
  let ?H = "sha256 E"
  have ses: "sound_session (proof_of ?H Z a) (flow_session ?H m a now) ses"
    by (rule client_session [OF assms(6-8)])
  then have pi: "pi = public_inputs_bytes ?H a" "nul = prover_nullifier ?H a"
    using assms(10,11) by (simp_all add: sound_session_def flow_session_def session_new_def)
  with assms(3-5) show "pi = to_bytes (vote_inputs ?H pid ck i (s_members_root s) action target nul)"
    by (auto simp: prover_new_eq public_inputs_bytes_def prover_public_inputs_def prover_nullifier_def
        vote_inputs_def snapshot_proposal_id_def Let_def split: if_splits)
  from ses assms(9) obtain bs where bs: "receipt ses = Some bs" "proof_of ?H Z a bs"
    by (auto simp: sound_session_def session_inv_def)
  then obtain v a' where "prove ?H Z v a = (Inr bs, a')" by (auto simp: proof_of_def)
  then obtain r where "bincode_serialize Z r = Inr bs" "journal r = public_inputs_bytes ?H a"
    by (rule proved_receipt [OF assms(2,1,3,4)])
  with assms(12) bs(1) pi(1) show "discharged R APPROVE_CIRCUIT_IMAGE_ID pi"
    unfolding receipt_honoured_def by metis
qed

text \<open>
  C35: A vote survives crashes and counts once. Take any ledger that a run reaches, with an open
  proposal of an instance, and any client for it that went through crashes, lost saves and
  resumptions and now holds a receipt, which the chain accepts. Submitting the session's
  approval goes through exactly if the member's nullifier has not been recorded for the
  proposal; when it goes through, the counter is the old one plus one and submitting the same
  approval again fails. So a client that does not know whether it has submitted may submit
  again: the vote is never lost and never counted twice.
\<close>

theorem resubmission_counts_once:
  assumes "slice_reader rd" and "runs_guest (sha256 E) rd Z elf journal" and "wf_proof p"
    and "prover_new (sha256 E) m s i action target p elf = Inr a"
    and "s_state_pda s = address (sha256 E) pid (StateOf ck)"
    and "client_init T (proof_of (sha256 E) Z a) (flow_session (sha256 E) m a now) c0"
    and "(client_step T (proof_of (sha256 E) Z a) (flow_session (sha256 E) m a now))\<^sup>*\<^sup>* c0 c"
    and "mem c = Some ses" and "has_receipt (status ses)"
    and "ses_nullifier ses = Some nul" and "public_inputs ses = Some pi"
    and "receipt_honoured R Z journal ses"
    and "ledger_run E R pid L0 es L" and "sound_setting E R pid L0 (calls es @ [Approve ck i nul pi])"
    and "runtime_exact (sha256 E) R pid" and "roomy E"
    and "CreateMultisig ck (s_members_root s) m' n' \<in> set (calls es)"
    and "Propose ck i action target \<in> set (calls es)"
    and "votes = card {nul. \<exists>pi. Approve ck i nul pi \<in> set (calls es)}" and "votes + 1 < 2 ^ 32"
    and "vacant (sha256 E) R pid {NullifierOf ck i nul} L"
    and "signer \<notin> address (sha256 E) pid ` {StateOf ck, ProposalOf ck i, NullifierOf ck i nul}"
  shows "(submits E R pid signer L [Approve ck i nul pi] \<noteq> None \<longleftrightarrow>
      (\<forall>pi'. Approve ck i nul pi' \<notin> set (calls es))) \<and>
    (\<forall>L'. submits E R pid signer L [Approve ck i nul pi] = Some L' \<longrightarrow>
      (\<exists>pb. proposal_from_slice E (acc_data (L' (address (sha256 E) pid (ProposalOf ck i)))) = Some pb \<and>
        unat (approvals_count pb) = votes + 1 \<and> submits E R pid signer L' [Approve ck i nul pi] = None))"
  using vote_on_open_proposal [OF assms(13-20) session_vote [OF assms(1-12)] assms(21,22)] by blast

lemma sample_member_prover:
  obtains p a where "wf_proof p"
    "prover_new sample_hash \<lparr>mem_identity = sample_member\<rparr> sample_snapshot 0 [1] 3 p [] = Inr a"
proof -
  obtain p where "wf_proof p" "verify_proof sample_hash (merkle_root sample_hash sample_tree) 7 p"
    by (rule sample_proof)
  then show thesis
    using that [of p] by (simp add: prover_new_eq sample_member sample_snapshot_def MAX_ACTION_BYTES_LEN_def)
qed

theorem resubmission_counts_once_witness:
  "\<exists>p a c0 c ses L L' pb.
     prover_new sample_hash \<lparr>mem_identity = sample_member\<rparr> sample_snapshot 0 [1] 3 p [] = Inr a \<and>
     (client_step sample_sled (proof_of sample_hash sample_zkvm a)
       (flow_session sample_hash \<lparr>mem_identity = sample_member\<rparr> a 0))\<^sup>*\<^sup>* c0 c \<and> mem c = Some ses \<and>
     ses_nullifier ses = Some sample_nullifier \<and>
     public_inputs ses = Some (sample_vote sample_nullifier) \<and>
     submits sample_env sample_chain 5 1 (\<lambda>_. sample_blank)
       [CreateMultisig 9 (merkle_root sample_hash sample_tree) 1 2, Propose 9 0 [1] 3] = Some L \<and>
     submits sample_env sample_chain 5 1 L [Approve 9 0 sample_nullifier (sample_vote sample_nullifier)] = Some L' \<and>
     proposal_from_slice sample_env (acc_data (L' (address sample_hash 5 (ProposalOf 9 0)))) = Some pb \<and>
     approvals_count pb = 1 \<and>
     submits sample_env sample_chain 5 1 L' [Approve 9 0 sample_nullifier (sample_vote sample_nullifier)] = None"
proof -
  let ?m = "\<lparr>mem_identity = sample_member\<rparr>" and ?root = "merkle_root sample_hash sample_tree"
  let ?h = "[CreateMultisig 9 ?root 1 2, Propose 9 0 [1] 3]"
  let ?v = "Approve 9 0 sample_nullifier (sample_vote sample_nullifier)"
  obtain p a where a: "wf_proof p" "prover_new sample_hash ?m sample_snapshot 0 [1] 3 p [] = Inr a"
    by (rule sample_member_prover)
  let ?P = "proof_of sample_hash sample_zkvm a" and ?ses = "flow_session sample_hash ?m a 0"
  have inputs: "public_inputs_bytes sample_hash a = sample_vote sample_nullifier"
    "prover_nullifier sample_hash a = sample_nullifier"
    using a by (auto simp: prover_new_eq public_inputs_bytes_def prover_public_inputs_def prover_nullifier_def
        compute_nullifier_def sample_nullifier_def sample_vote_def
        vote_inputs_def snapshot_proposal_id_def sample_snapshot_def Let_def split: if_splits)
  obtain bs a' where b: "prove sample_hash sample_zkvm None a = (Inr bs, a')"
    using sample_prove [OF a(2,1)] by blast
  obtain r where r: "bincode_serialize sample_zkvm r = Inr bs" "id r = public_inputs_bytes sample_hash a"
    by (rule proved_receipt [OF sample_zkvm(1) sample_reader a b])
  then have bs: "bs = sample_vote sample_nullifier" by (simp add: sample_zkvm_def inputs)
  then have l: "length bs < 2 ^ 32" "length (public_inputs_bytes sample_hash a) = 96"
    by (simp_all add: inputs sample_vote_def APPROVE_PUBLIC_INPUTS_LEN_def)
  obtain c0 c where c: "client_init sample_sled ?P ?ses c0" "(client_step sample_sled ?P ?ses)\<^sup>*\<^sup>* c0 c"
    "mem c = Some (?ses\<lparr>status := Proved, last_updated := 2, receipt := Some bs\<rparr>)"
    using sample_client [OF _ l(1) flow_session_def [of sample_hash ?m a 0] l(2), of ?P] b
    by (auto simp: proof_of_def)
  let ?s = "?ses\<lparr>status := Proved, last_updated := 2, receipt := Some bs\<rparr>"
  have s: "has_receipt (status ?s)" "ses_nullifier ?s = Some sample_nullifier"
    "public_inputs ?s = Some (sample_vote sample_nullifier)"
    "s_state_pda sample_snapshot = address sample_hash 5 (StateOf 9)"
    "receipt_honoured sample_chain sample_zkvm id ?s"
    by (simp_all add: has_receipt_def flow_session_def session_new_def inputs sample_snapshot_def
        receipt_honoured_def bs sample_zkvm_def sample_runtime_def)
  have live: "live_setting sample_env sample_chain 5 (\<lambda>_. sample_blank) 1 (?h @ [?v])"
    by (rule live_subset [OF sample_mixed_live], unfold sample_mixed_names)
      (auto simp: run_names_def sample_names_def)
  have live_h: "live_setting sample_env sample_chain 5 (\<lambda>_. sample_blank) 1 ?h"
    by (rule live_subset [OF live]) (auto simp: run_names_def)
  have "run_steps (limited_step sample_hash 5 sample_chain) spec_init ?h \<noteq> None"
    by (simp add: limited_step_def spec_init_def MAX_ACTION_BYTES_LEN_def)
  then obtain L where L: "submits sample_env sample_chain 5 1 (\<lambda>_. sample_blank) ?h = Some L"
    using live_accepts [OF live_h] by auto
  from submits_run [OF L] obtain es where es: "ledger_run sample_env sample_chain 5 (\<lambda>_. sample_blank) es L"
    "calls es = ?h" by blast
  have ex: "runtime_exact sample_hash sample_chain 5" by (rule sample_runtime_exact) simp
  have vac: "vacant sample_hash sample_chain 5 {NullifierOf 9 0 sample_nullifier} L"
    by (rule submits_vacant [where E = sample_env, unfolded borsh_env_sel(1), OF _ L])
      (use ex in \<open>simp_all add: runtime_exact_def vacant_def sample_runtime_def\<close>)
  have set: "sound_setting sample_env sample_chain 5 (\<lambda>_. sample_blank) (calls es @ [?v])"
    unfolding es(2) by (rule live_sound [OF live])
  have m: "CreateMultisig 9 (s_members_root sample_snapshot) 1 2 \<in> set (calls es)"
    "Propose 9 0 [1] 3 \<in> set (calls es)" "0 = card {nul. \<exists>pi. Approve 9 0 nul pi \<in> set (calls es)}"
    "(0 :: nat) + 1 < 2 ^ 32"
    by (simp_all add: es(2) sample_snapshot_def)
  have g: "1 \<notin> address sample_hash 5 ` {StateOf 9, ProposalOf 9 0, NullifierOf 9 0 sample_nullifier}"
    using sample_signer by (auto simp: sample_names_def)
  note once = resubmission_counts_once [where E = sample_env, unfolded borsh_env_sel(1), OF sample_reader
      sample_zkvm(1) a s(4) c s(1-3,5) es(1) set ex roomy_borsh m vac g]
  obtain L' pb where "submits sample_env sample_chain 5 1 L [?v] = Some L'"
    "proposal_from_slice sample_env (acc_data (L' (address sample_hash 5 (ProposalOf 9 0)))) = Some pb"
    "unat (approvals_count pb) = 0 + 1" "submits sample_env sample_chain 5 1 L' [?v] = None"
    using once unfolding es(2) by auto
  moreover from this(3) have "approvals_count pb = 1" by (simp add: word_unat_eq_iff)
  ultimately show ?thesis using a(2) c(2,3) s(2,3) L by blast
qed

end
