(* ===== verification/Quickstart_Args.thy ===== *)
theory Quickstart_Args
  imports Prelude Pda
begin

text \<open>
  The command line of the demo binary (\<open>e2e_tests/src/bin/quickstart.rs\<close>: \<open>parse_args\<close>) and
  what it uses of the standard library: printing numbers, \<open>str::parse\<close> for unsigned integers.
  A Rust string is the list of its UTF-8 bytes, as characters. An error of \<open>anyhow\<close> is its
  chain of messages, the outermost context first. \<open>process::exit\<close> is the outcome \<open>Exit\<close>; the
  escaping that \<open>{:?}\<close> applies to a string is the argument \<open>dbg\<close>.
\<close>

type_synonym anyhow = "string list"

datatype 'a outcome = Exit u8 | Return 'a

record quick_args =
  qa_mode :: string
  qa_threshold :: u8
  qa_members :: nat
  qa_action :: "byte list"

section \<open>Numbers\<close>

definition digit :: "nat \<Rightarrow> char" where
  "digit d = ''0123456789'' ! d"

fun decimal :: "nat \<Rightarrow> string" where
  "decimal k = (if k < 10 then [digit k] else decimal (k div 10) @ [digit (k mod 10)])"

declare decimal.simps [simp del]

definition digit_value :: "char \<Rightarrow> nat option" where
  "digit_value c = (let k = of_char c :: nat in if 48 \<le> k \<and> k < 58 then Some (k - 48) else None)"

text \<open>\<open>parse\<close> into an unsigned type whose values are below \<open>bound\<close>.\<close>

fun parse_digits :: "nat \<Rightarrow> nat \<Rightarrow> string \<Rightarrow> string + nat" where
  "parse_digits bound v [] = Inr v"
| "parse_digits bound v (c # cs) =
     (case digit_value c of
        None \<Rightarrow> Inl ''invalid digit found in string''
      | Some d \<Rightarrow>
          if bound \<le> v * 10 + d then Inl ''number too large to fit in target type''
          else parse_digits bound (v * 10 + d) cs)"

definition parse_uint :: "nat \<Rightarrow> string \<Rightarrow> string + nat" where
  "parse_uint bound s =
     (if s = [] then Inl ''cannot parse integer from empty string''
      else if s = ''+'' \<or> s = ''-'' then Inl ''invalid digit found in string''
      else if hd s = CHR ''+'' then parse_digits bound 0 (tl s)
      else parse_digits bound 0 s)"

section \<open>The loop over the arguments\<close>

text \<open>\<open>u8\<close> is bounded by 256, \<open>usize\<close> by \<open>2 ^ 64\<close>.\<close>

fun parse_loop :: "(string \<Rightarrow> string) \<Rightarrow> quick_args \<Rightarrow> string list \<Rightarrow> (anyhow + quick_args) outcome" where
  "parse_loop dbg q [] = Return (Inr q)"
| "parse_loop dbg q (arg # rest) =
     (if arg = ''--mode'' then
        (case rest of
           [] \<Rightarrow> Return (Inl [''--mode requires a value (layer-a or testnet)''])
         | v # rest \<Rightarrow> parse_loop dbg (q\<lparr>qa_mode := v\<rparr>) rest)
      else if arg = ''-m'' \<or> arg = ''--threshold'' then
        (case rest of
           [] \<Rightarrow> Return (Inl [''--threshold requires a value''])
         | v # rest \<Rightarrow>
             (case parse_uint 256 v of
                Inl e \<Rightarrow> Return (Inl [''--threshold must be a small positive integer'', e])
              | Inr k \<Rightarrow> parse_loop dbg (q\<lparr>qa_threshold := of_nat k\<rparr>) rest))
      else if arg = ''-n'' \<or> arg = ''--members'' then
        (case rest of
           [] \<Rightarrow> Return (Inl [''--members requires a value''])
         | v # rest \<Rightarrow>
             (case parse_uint (2 ^ 64) v of
                Inl e \<Rightarrow> Return (Inl [''--members must be a small positive integer'', e])
              | Inr k \<Rightarrow> parse_loop dbg (q\<lparr>qa_members := k\<rparr>) rest))
      else if arg = ''--action'' then
        (case rest of
           [] \<Rightarrow> Return (Inl [''--action requires a value''])
         | v # rest \<Rightarrow> parse_loop dbg (q\<lparr>qa_action := ascii v\<rparr>) rest)
      else if arg = ''-h'' \<or> arg = ''--help'' then Exit 0
      else Return (Inl [''unknown argument: '' @ dbg arg @ ''. Run with --help for usage.'']))"

definition default_args :: quick_args where
  "default_args =
     \<lparr>qa_mode = ''layer-a'', qa_threshold = 2, qa_members = 3, qa_action = ascii ''quickstart-demo-action''\<rparr>"

definition parse_args :: "(string \<Rightarrow> string) \<Rightarrow> string list \<Rightarrow> (anyhow + quick_args) outcome" where
  "parse_args dbg args = parse_loop dbg default_args (drop 1 args)"

section \<open>Printing and parsing numbers\<close>

lemma digit_value_digit [simp]: "d < 10 \<Longrightarrow> digit_value (digit d) = Some d"
proof -
  assume "d < 10"
  then have "d \<in> {0, 1, 2, 3, 4, 5, 6, 7, 8, 9}" by auto
  then show ?thesis by (auto simp: digit_def digit_value_def)
qed

lemma parse_digits_append:
  "parse_digits bound v (s @ t) = try_bind (parse_digits bound v s) (\<lambda>v. parse_digits bound v t)"
  by (induction s arbitrary: v) (auto split: option.splits)

lemma parse_digits_decimal:
  "parse_digits bound 0 (decimal k) =
     (if k < bound then Inr k else Inl ''number too large to fit in target type'')"
proof (induction k rule: decimal.induct)
  case (1 k)
  show ?case
  proof (cases "k < 10")
    case True
    then show ?thesis by (subst decimal.simps) auto
  next
    case False
    with 1 have IH: "parse_digits bound 0 (decimal (k div 10)) =
        (if k div 10 < bound then Inr (k div 10) else Inl ''number too large to fit in target type'')"
      by simp
    have le: "k < bound \<Longrightarrow> k div 10 < bound" by simp
    show ?thesis
      by (subst decimal.simps) (use le in \<open>simp add: False parse_digits_append IH\<close>)
  qed
qed

lemma decimal_not_Nil: "decimal k \<noteq> []"
  by (subst decimal.simps) simp

lemma set_decimal: "set (decimal k) \<subseteq> set ''0123456789''"
proof (induction k rule: decimal.induct)
  case (1 k)
  have "digit d \<in> set ''0123456789''" if "d < 10" for d
    unfolding digit_def by (rule nth_mem, simp, use that in linarith)
  with 1 show ?case by (subst decimal.simps) auto
qed

lemma parse_uint_decimal:
  "parse_uint bound (decimal k) = (if k < bound then Inr k else Inl ''number too large to fit in target type'')"
proof -
  have h: "hd (decimal k) \<in> set ''0123456789''"
    using set_decimal [of k] decimal_not_Nil [of k] hd_in_set by blast
  then have "hd (decimal k) \<noteq> CHR ''+''" "hd (decimal k) \<noteq> CHR ''-''" by auto
  then have "decimal k \<noteq> ''+''" "decimal k \<noteq> ''-''" by auto
  then show ?thesis
    using decimal_not_Nil [of k] \<open>hd (decimal k) \<noteq> CHR ''+''\<close>
    by (simp add: parse_uint_def parse_digits_decimal)
qed

section \<open>Options\<close>

text \<open>What a caller can write: options in any number and order, in the short or the long form.\<close>

datatype quick_option = Mode string | Threshold bool u8 | Members bool nat | Action string

fun render :: "quick_option \<Rightarrow> string list" where
  "render (Mode s) = [''--mode'', s]"
| "render (Threshold long t) = [if long then ''--threshold'' else ''-m'', decimal (unat t)]"
| "render (Members long k) = [if long then ''--members'' else ''-n'', decimal k]"
| "render (Action s) = [''--action'', s]"

fun apply_option :: "quick_option \<Rightarrow> quick_args \<Rightarrow> quick_args" where
  "apply_option (Mode s) q = q\<lparr>qa_mode := s\<rparr>"
| "apply_option (Threshold long t) q = q\<lparr>qa_threshold := t\<rparr>"
| "apply_option (Members long k) q = q\<lparr>qa_members := k\<rparr>"
| "apply_option (Action s) q = q\<lparr>qa_action := ascii s\<rparr>"

fun representable :: "quick_option \<Rightarrow> bool" where
  "representable (Members long k) \<longleftrightarrow> k < 2 ^ 64"
| "representable opt \<longleftrightarrow> True"

lemma parse_loop_option:
  "representable opt \<Longrightarrow> parse_loop dbg q (render opt @ rest) = parse_loop dbg (apply_option opt q) rest"
  by (cases opt) (simp_all add: parse_uint_decimal unat_byte_less)

lemma parse_loop_options:
  "list_all representable opts \<Longrightarrow>
   parse_loop dbg q (concat (map render opts) @ rest) = parse_loop dbg (fold apply_option opts q) rest"
  by (induction opts arbitrary: q) (simp_all add: parse_loop_option)

text \<open>
  The command line says what it looks like. Any sequence of \<open>--mode\<close>, \<open>-m\<close>/\<open>--threshold\<close>,
  \<open>-n\<close>/\<open>--members\<close> (below \<open>2^64\<close>) and \<open>--action\<close> options, with numbers printed in decimal, is
  read back as their values, the last occurrence of an option winning and the defaults
  standing in for the others; a threshold of 256 or more in their midst is an error and is
  never truncated to eight bits; and a help flag after them exits with code 0.
\<close>

theorem args_roundtrip:
  assumes "list_all representable opts"
  shows "parse_args dbg (prog # concat (map render opts)) =
      Return (Inr (fold apply_option opts default_args)) \<and>
    parse_args dbg (prog # concat (map render opts) @ ''-m'' # decimal (256 + k) # rest) =
      Return (Inl [''--threshold must be a small positive integer'',
                   ''number too large to fit in target type'']) \<and>
    parse_args dbg (prog # concat (map render opts) @ ''--help'' # rest) = Exit 0"
  using parse_loop_options [OF assms, of dbg default_args "[]"]
    parse_loop_options [OF assms, of dbg default_args]
  by (simp add: parse_args_def parse_uint_decimal)

theorem args_roundtrip_witness:
  "parse_args id (''quickstart'' # concat (map render [Threshold False 3, Members True 5, Threshold True 4])) =
     Return (Inr \<lparr>qa_mode = ''layer-a'', qa_threshold = 4, qa_members = 5,
                  qa_action = ascii ''quickstart-demo-action''\<rparr>)"
  using args_roundtrip [of "[Threshold False 3, Members True 5, Threshold True 4]" id "''quickstart''" 0 "[]"]
  by (simp add: default_args_def)

end
