(* ===== verification/Debug_Output.thy ===== *)
theory Debug_Output
  imports Sdk_Prover Quickstart_Args
begin

text \<open>
  What the types of the SDK print, hand out and leave behind: the hand-written and derived
  \<open>Debug\<close> implementations (of \<open>{:?}\<close>, on one line), the \<open>Drop\<close> of a member, and the plain getters.
\<close>

section \<open>Printing\<close>

fun commas :: "string list \<Rightarrow> string" where
  "commas [] = ''''"
| "commas [x] = x"
| "commas (x # xs) = x @ '', '' @ commas xs"

definition debug_fields :: "(string \<times> string) list \<Rightarrow> string" where
  "debug_fields fs = commas (map (\<lambda>(f, v). f @ '': '' @ v) fs)"

text \<open>\<open>debug_struct(..).field(..).finish()\<close>, and \<open>finish_non_exhaustive()\<close>.\<close>

definition debug_struct :: "string \<Rightarrow> (string \<times> string) list \<Rightarrow> string" where
  "debug_struct name fs = name @ '' { '' @ debug_fields fs @ '' }''"

definition debug_struct_open :: "string \<Rightarrow> (string \<times> string) list \<Rightarrow> string" where
  "debug_struct_open name fs = name @ '' { '' @ debug_fields fs @ '', .. }''"

definition debug_uint :: "'w::len word \<Rightarrow> string" where
  "debug_uint w = decimal (unat w)"

definition debug_array :: "bytes32 \<Rightarrow> string" where
  "debug_array a = ''['' @ commas (map debug_uint (bytes_of a)) @ '']''"

definition debug_snapshot :: "multisig_state_snapshot \<Rightarrow> string" where
  "debug_snapshot s =
     debug_struct ''MultisigStateSnapshot''
       [(''program_id'', debug_array (s_program_id s)), (''create_key'', debug_array (s_create_key s)),
        (''members_root'', debug_array (s_members_root s)), (''m'', debug_uint (s_m s)),
        (''n'', debug_uint (s_n s)), (''proposal_count'', debug_uint (s_proposal_count s)),
        (''state_pda'', debug_array (s_state_pda s))]"

definition debug_finalized :: "multisig_finalized \<Rightarrow> string" where
  "debug_finalized f =
     debug_struct ''MultisigFinalized''
       [(''members_root'', debug_array (f_members_root f)), (''m'', debug_uint (f_m f)),
        (''n'', debug_uint (f_n f)), (''n_members'', decimal (length (f_commitments f)))]"

definition debug_prover :: "approval_prover \<Rightarrow> string" where
  "debug_prover a =
     debug_struct_open ''ApprovalProver''
       [(''snapshot'', debug_snapshot (pr_snapshot a)), (''index'', debug_uint (pr_index a))]"

definition sdk_debug_commitment :: "identity_commitment \<Rightarrow> string" where
  "sdk_debug_commitment c =
     ''IdentityCommitment(0x'' @ concat (map hex_byte (bytes_of (commitment_bytes c))) @ '')''"

section \<open>Getters and Drop\<close>

definition snapshot_state_pda :: "multisig_state_snapshot \<Rightarrow> bytes32" where
  "snapshot_state_pda s = s_state_pda s"

definition drop_member :: "member \<Rightarrow> member" where
  "drop_member m = m\<lparr>mem_identity := (mem_identity m)\<lparr>sk := 0, salt := 0\<rparr>\<rparr>"

definition merkle_default :: "hasher \<Rightarrow> merkle_tree" where
  "merkle_default H = merkle_new H"

text \<open>The clock: the seconds since the epoch, or \<open>None\<close> for a clock before it.\<close>

definition current_unix_seconds :: "u64 option \<Rightarrow> u64" where
  "current_unix_seconds since_epoch = (case since_epoch of None \<Rightarrow> 0 | Some s \<Rightarrow> s)"

section \<open>No secret is printed\<close>

text \<open>
  The same text is printed before and after the secrets are overwritten, so none of it is
  computed from them, and a commitment is printed in full.
\<close>

lemma debug_after_drop:
  "debug_prover (drop_prover a) = debug_prover a"
  "debug_member (drop_member m) = debug_member m"
  by (simp_all add: debug_prover_def drop_prover_def debug_member_def)

lemma sdk_debug_commitment_eq: "sdk_debug_commitment c = debug_commitment c"
  by (simp add: sdk_debug_commitment_def debug_commitment_def hex_string_def)

lemma debug_commitment_inj: "debug_commitment c = debug_commitment d \<longleftrightarrow> c = d"
  by (cases c; cases d) (auto simp: debug_commitment_def dest: hex_string_inj)

end
