(* ===== verification/Quickstart.thy ===== *)
theory Quickstart
  imports Sdk_Prover Quickstart_Args
begin

text \<open>
  The demo binary (\<open>e2e_tests/src/bin/quickstart.rs\<close>): the whole flow of the SDK for one
  proposal, from key generation to the nullifier set. The zkVM's host is the SDK's \<open>zkvm\<close> with
  the two operations the demo adds, and the build's products (image id, ELF, the noop program's
  id) are a record; \<open>rng i\<close> are the random bytes of the i-th key generation. What the binary
  prints on the way is left out, except for its errors and its exit code; a panic is \<open>None\<close>.
\<close>

record ('env, 'r) receipt_host = "('env, 'r) zkvm" +
  bincode_deserialize :: "byte list \<Rightarrow> string + 'r"
  journal_of :: "'r \<Rightarrow> byte list"

record build_products =
  circuit_image_id :: "u32 list"
  circuit_elf :: "byte list"
  noop_id :: "u32 list"

definition DEMO_CREATE_KEY :: bytes32 where
  "DEMO_CREATE_KEY = filled 0xB2"

definition DEMO_PROGRAM_ID :: bytes32 where
  "DEMO_PROGRAM_ID = filled 0xA1"

section \<open>Conversions\<close>

definition image_id_to_account_id :: "u32 list \<Rightarrow> bytes32" where
  "image_id_to_account_id ws =
     array32 (fold (\<lambda>i out. copy_into out (i * 4) (to_le (ws ! i))) [0..<length ws] (replicate 32 0))"

definition hex_encode :: "byte list \<Rightarrow> string" where
  "hex_encode bs =
     (let HEX = ''0123456789abcdef''
      in fold (\<lambda>b out. let out = out @ [HEX ! unat (drop_bit 4 b)]
                       in out @ [HEX ! unat (b AND 0x0F)]) bs [])"

section \<open>Errors with context\<close>

definition sdk_context :: "string \<Rightarrow> sdk_error + 'a \<Rightarrow> anyhow + 'a" where
  "sdk_context s r = map_err (\<lambda>e. [s, sdk_display e]) r"

definition host_context :: "string \<Rightarrow> string + 'a \<Rightarrow> anyhow + 'a" where
  "host_context s r = map_err (\<lambda>e. [s, e]) r"

text \<open>\<open>?\<close> where the expression may also panic.\<close>

definition try_opt :: "('e + 'a) option \<Rightarrow> ('a \<Rightarrow> ('e + 'b) option) \<Rightarrow> ('e + 'b) option" where
  "try_opt r k = (case r of None \<Rightarrow> None | Some (Inl e) \<Rightarrow> Some (Inl e) | Some (Inr x) \<Rightarrow> k x)"

definition em_dash :: string where
  "em_dash = [CHR 0xE2, CHR 0x80, CHR 0x94]"

section \<open>The demo\<close>

fun generate_members ::
  "(nat \<Rightarrow> bytes32 option \<times> bytes32 option) \<Rightarrow> nat list \<Rightarrow> (anyhow + member list) option" where
  "generate_members rng [] = Some (Inr [])"
| "generate_members rng (i # is) =
     try_opt (map_option (sdk_context (''member#'' @ decimal i @ '' keygen failed''))
       (case rng i of (s, t) \<Rightarrow> member_new s t)) (\<lambda>m.
     try_opt (generate_members rng is) (\<lambda>ms. Some (Inr (m # ms))))"

fun enroll :: "hasher \<Rightarrow> nat \<Rightarrow> member list \<Rightarrow> multisig_builder \<Rightarrow> anyhow + multisig_builder" where
  "enroll H i [] b = Inr b"
| "enroll H i (m # ms) b =
     (let (r, b) = add_member b (member_id H m)
      in try_bind (sdk_context (''add member#'' @ decimal i @ '' to builder failed'') r) (\<lambda>_.
           enroll H (Suc i) ms b))"

text \<open>One turn of the approval loop, up to the nullifier.\<close>

definition approve_one ::
  "hasher \<Rightarrow> ('env, 'r, 'z) receipt_host_scheme \<Rightarrow> build_products \<Rightarrow> string option \<Rightarrow>
   multisig_finalized \<Rightarrow> multisig_state_snapshot \<Rightarrow> u64 \<Rightarrow> byte list \<Rightarrow> bytes32 \<Rightarrow> nat \<Rightarrow> member \<Rightarrow>
   anyhow + bytes32" where
  "approve_one H Z B v f s index action target i m =
     (let label = ''member#'' @ decimal i in
      try_bind (sdk_context (label @ '': derive merkle proof'') (finalized_merkle_proof H f (member_id H m))) (\<lambda>p.
      try_bind (sdk_context (label @ '': construct ApprovalProver'')
        (prover_new H m s index action target p (circuit_elf B))) (\<lambda>prover.
      let (proved, prover) = prove H Z v prover in
      try_bind (sdk_context (label @ '': prove'') proved) (\<lambda>bs.
      try_bind (host_context (label @ '': deserialize receipt'') (bincode_deserialize Z bs)) (\<lambda>r.
      try_bind (host_context (label @ '': receipt verify against APPROVE_CIRCUIT_IMAGE_ID'')
        (receipt_verify Z r (circuit_image_id B))) (\<lambda>_.
      let expected_journal = public_inputs_bytes H prover in
      try_bind (ensure (\<not> journal_of Z r \<noteq> expected_journal)
        [label @ '': journal/public-inputs mismatch (would be E2002 on-chain)'']) (\<lambda>_.
      Inr (prover_nullifier H prover))))))))"

fun approval_loop ::
  "(nat \<Rightarrow> member \<Rightarrow> anyhow + bytes32) \<Rightarrow> u8 \<Rightarrow> nat \<Rightarrow> member list \<Rightarrow> bytes32 set \<Rightarrow> u8 \<Rightarrow>
   (anyhow + bytes32 set \<times> u8) option" where
  "approval_loop turn threshold i [] nuls approvals = Some (Inr (nuls, approvals))"
| "approval_loop turn threshold i (m # ms) nuls approvals =
     try_opt (Some (turn i m)) (\<lambda>nul.
     if nul \<in> nuls
     then Some (Inl [''member#'' @ decimal i @ '': produced a duplicate nullifier '' @ em_dash @
       '' this would be a protocol-level bug, not a double-vote attempt''])
     else let nuls = insert nul nuls in
     case checked_add approvals 1 of
       None \<Rightarrow> None
     | Some approvals \<Rightarrow>
         if approvals \<ge> threshold then Some (Inr (nuls, approvals))
         else approval_loop turn threshold (Suc i) ms nuls approvals)"

text \<open>\<open>env::var\<close> after the default for \<open>RISC0_DEV_MODE\<close> has been set.\<close>

definition default_dev_mode :: "string option \<Rightarrow> string option" where
  "default_dev_mode v = (case v of None \<Rightarrow> Some ''1'' | Some s \<Rightarrow> Some s)"

definition replay_nullifier ::
  "hasher \<Rightarrow> build_products \<Rightarrow> multisig_finalized \<Rightarrow> multisig_state_snapshot \<Rightarrow> u64 \<Rightarrow> byte list \<Rightarrow>
   bytes32 \<Rightarrow> member \<Rightarrow> anyhow + bytes32" where
  "replay_nullifier H B f s index action target m =
     try_bind (sdk_context ''replay member: derive merkle proof'' (finalized_merkle_proof H f (member_id H m))) (\<lambda>p.
     try_bind (sdk_context ''replay member: construct ApprovalProver''
       (prover_new H m s index action target p (circuit_elf B))) (\<lambda>prover.
     Inr (prover_nullifier H prover)))"

definition run_layer_a ::
  "hasher \<Rightarrow> ('env, 'r, 'z) receipt_host_scheme \<Rightarrow> build_products \<Rightarrow>
   (nat \<Rightarrow> bytes32 option \<times> bytes32 option) \<Rightarrow> string option \<Rightarrow> u8 \<Rightarrow> nat \<Rightarrow> byte list \<Rightarrow>
   (anyhow + unit) option" where
  "run_layer_a H Z B rng v threshold member_count action =
     try_opt (Some (ensure (threshold \<noteq> 0) [''--threshold must be >= 1''])) (\<lambda>_.
     try_opt (Some (ensure (member_count \<noteq> 0) [''--members must be >= 1''])) (\<lambda>_.
     try_opt (Some (ensure (\<not> member_count < unat threshold)
       [''--threshold '' @ decimal (unat threshold) @ '' cannot exceed --members '' @
        decimal member_count @ ''; a quorum bigger than the membership is unreachable''])) (\<lambda>_.
     let v = default_dev_mode v in
     try_opt (generate_members rng [0..<member_count]) (\<lambda>members.
     try_opt (Some (enroll H 0 members (builder_new H threshold))) (\<lambda>builder.
     try_opt (Some (sdk_context ''finalize multisig'' (builder_finalize H builder))) (\<lambda>finalized.
     try_opt (map_option (sdk_context ''build MultisigStateSnapshot'')
       (snapshot_new H DEMO_PROGRAM_ID DEMO_CREATE_KEY (f_members_root finalized) (f_m finalized)
         (f_n finalized) 1)) (\<lambda>snapshot.
     let target = image_id_to_account_id (noop_id B);
         index = 0
     in case derive_proposal_pda H DEMO_PROGRAM_ID DEMO_CREATE_KEY index of
          None \<Rightarrow> None
        | Some proposal_pda \<Rightarrow>
     try_opt (approval_loop (approve_one H Z B v finalized snapshot index action target)
       threshold 0 members {} 0) (\<lambda>(nuls, approvals).
     try_opt (Some (ensure (\<not> approvals < threshold)
       [''only collected '' @ decimal (unat approvals) @ '' approvals but threshold is '' @
        decimal (unat threshold) @ '' '' @ em_dash @ '' demo state is inconsistent''])) (\<lambda>_.
     if members = [] then None
     else try_opt (Some (replay_nullifier H B finalized snapshot index action target (hd members))) (\<lambda>nul.
       Some (ensure (nul \<in> nuls)
         [''double-vote model failed: member#0's replay nullifier was not in the set '' @ em_dash @
          '' the on-chain init-fails-if-exists check would have caught this''])))))))))))"

definition run_testnet_stub :: "anyhow + unit" where
  "run_testnet_stub = Inl [''testnet mode is not yet implemented'']"

text \<open>The exit code of the binary.\<close>

definition quickstart_main ::
  "hasher \<Rightarrow> ('env, 'r, 'z) receipt_host_scheme \<Rightarrow> build_products \<Rightarrow>
   (nat \<Rightarrow> bytes32 option \<times> bytes32 option) \<Rightarrow> string option \<Rightarrow> (string \<Rightarrow> string) \<Rightarrow> string list \<Rightarrow>
   u8 option" where
  "quickstart_main H Z B rng v dbg args =
     (case parse_args dbg args of
        Exit c \<Rightarrow> Some c
      | Return (Inl e) \<Rightarrow> Some 2
      | Return (Inr q) \<Rightarrow>
          if qa_mode q = ''layer-a'' then
            map_option (\<lambda>r. case r of Inr _ \<Rightarrow> 0 | Inl e \<Rightarrow> 1)
              (run_layer_a H Z B rng v (qa_threshold q) (qa_members q) (qa_action q))
          else if qa_mode q = ''testnet'' then
            Some (case run_testnet_stub of Inr _ \<Rightarrow> 0 | Inl e \<Rightarrow> 1)
          else Some 2)"

section \<open>Facts about the conversions\<close>

lemma nibbles:
  "unat (drop_bit 4 b) = unat b div 16" "unat (b AND 15) = unat b mod 16" for b :: byte
proof -
  have "b AND 15 = take_bit 4 b" by (simp add: take_bit_eq_mask mask_eq_exp_minus_1)
  then show "unat (b AND 15) = unat b mod 16" 
    by (simp only: \<open>b AND 15 = take_bit 4 b\<close> unsigned_take_bit_eq) (simp add: take_bit_eq_mod)
  show "unat (drop_bit 4 b) = unat b div 16" 
    by (simp only: unat_drop_bit_eq) (simp add: drop_bit_eq_div)
qed

lemma hex_encode_eq: "hex_encode bs = hex_string bs"
proof -
  have "fold (\<lambda>b out. (out @ [''0123456789abcdef'' ! unat (drop_bit 4 b)]) @
      [''0123456789abcdef'' ! unat (b AND 15)]) bs acc = acc @ hex_string bs" for acc
    by (induction bs arbitrary: acc) (simp_all add: hex_string_def hex_byte_def hex_digit_def nibbles)
  from this [of "[]"] show ?thesis by (simp add: hex_encode_def Let_def)
qed

lemma bytes_of_image_id:
  assumes "length ws = 8"
  shows "bytes_of (image_id_to_account_id ws) = concat (map to_le ws)"
proof -
  have m: "map (\<lambda>i. to_le (ws ! i)) [0..<8] = map to_le ws"
    using map_nth_upt [of to_le ws] by (simp only: assms)
  have "fold (\<lambda>i out. copy_into out (i * 4) (to_le (ws ! i))) [0..<8] (replicate 32 0) = concat (map to_le ws)"
    using fold_copy_into [of 8 "\<lambda>i. to_le (ws ! i)" 4 32 "[]" 0 0] by (simp add: m)
  moreover have "length (concat (map to_le ws)) = 32"
    by (simp add: length_concat comp_def sum_list_triv assms)
  ultimately show ?thesis by (simp add: image_id_to_account_id_def assms)
qed

lemma target_of_image_id:
  assumes "length ws = 8" shows "target_program_id (image_id_to_account_id ws) = ws"
proof (rule nth_equalityI)
  fix i assume "i < length (target_program_id (image_id_to_account_id ws))"
  then have "i < 8" by (simp add: target_program_id_eq)
  with assms chunk_concat_map [of ws to_le 4 i]
  show "target_program_id (image_id_to_account_id ws) ! i = ws ! i"
    by (simp add: target_program_id_eq bytes_of_image_id of_le_to_le)
qed (simp add: target_program_id_eq assms)

section \<open>Facts about the steps\<close>

lemma context_eq_Inr [result_simps]:
  "sdk_context t r = Inr x \<longleftrightarrow> r = Inr x" "host_context t r' = Inr y \<longleftrightarrow> r' = Inr y"
  by (simp_all add: sdk_context_def host_context_def result_simps)

lemma context_Inr [simp]: "sdk_context t (Inr x) = Inr x" "host_context t (Inr y) = Inr y"
  by (simp_all add: sdk_context_def host_context_def)

lemma try_opt_simps [simp]:
  "try_opt None k = None" "try_opt (Some (Inl e)) k = Some (Inl e)" "try_opt (Some (Inr x)) k = k x"
  by (simp_all add: try_opt_def)

lemma try_opt_eq_Inr [result_simps]:
  "try_opt r k = Some (Inr y) \<longleftrightarrow> (\<exists>x. r = Some (Inr x) \<and> k x = Some (Inr y))"
  by (auto simp: try_opt_def split: option.splits sum.splits)

definition generated :: "(nat \<Rightarrow> bytes32 option \<times> bytes32 option) \<Rightarrow> nat \<Rightarrow> member \<Rightarrow> bool" where
  "generated rng i m \<longleftrightarrow> rng i = (Some (sk (mem_identity m)), Some (salt (mem_identity m)))"

lemma member_new_eq_Inr:
  "member_new s t = Some (Inr m) \<longleftrightarrow> s = Some (sk (mem_identity m)) \<and> t = Some (salt (mem_identity m))"
  by (cases m; cases "mem_identity m") (auto simp: member_new_def bind_eq_Some_conv identity_new_def)

lemma generate_members_eq_Inr:
  "generate_members rng is = Some (Inr ms) \<longleftrightarrow> list_all2 (generated rng) is ms"
proof (induction "is" arbitrary: ms)
  case (Cons i "is")
  have m: "map_option (sdk_context c) r = Some (Inr m) \<longleftrightarrow> r = Some (Inr m)" for c r and m :: member
    by (cases r) (simp_all add: result_simps)
  show ?case
    by (cases "rng i") (auto simp: result_simps m Cons.IH list_all2_Cons1 member_new_eq_Inr generated_def)
qed auto

lemma enroll_eq_Inr:
  "enroll H i ms b = Inr b' \<Longrightarrow>
   builder_step\<^sup>*\<^sup>* b b' \<and> b_added b' = b_added b @ map (member_id H) ms \<and> b_m b' = b_m b"
proof (induction ms arbitrary: i b)
  case (Cons m ms)
  obtain r c where rc: "add_member b (member_id H m) = (r, c)" by (cases "add_member b (member_id H m)")
  with Cons.prems have r: "r = Inr ()" and e: "enroll H (Suc i) ms c = Inr b'"
    by (auto simp: result_simps)
  have "b_added c = b_added b @ [member_id H m] \<and> b_m c = b_m b"
    using rc by (cases rule: add_member_cases) (use r in auto)
  with Cons.IH [OF e] builder_stepI [OF rc] show ?case
    by (auto intro: converse_rtranclp_into_rtranclp)
qed simp

lemma enroll_ok:
  "distinct (b_added b @ map (member_id H) ms) \<Longrightarrow> length (leaves (b_tree b)) + length ms \<le> MAX_LEAVES \<Longrightarrow>
   \<exists>b'. enroll H i ms b = Inr b'"
proof (induction ms arbitrary: i b)
  case (Cons m ms)
  obtain r c where rc: "add_member b (member_id H m) = (r, c)" by (cases "add_member b (member_id H m)")
  from rc have "r = Inr () \<and> b_added c = b_added b @ [member_id H m] \<and>
      length (leaves (b_tree c)) = Suc (length (leaves (b_tree b)))"
    by (cases rule: add_member_cases) (use Cons.prems in auto)
  with rc Cons.prems Cons.IH [of c "Suc i"] show ?case by simp
qed simp

lemma wf_finalized_proof: "finalized_merkle_proof H f c = Inr p \<Longrightarrow> wf_proof p"
  by (auto simp: finalized_merkle_proof_def result_simps intro: wf_proof_prove)

lemma prove_keeps:
  "prove H Z v a = (res, a') \<Longrightarrow>
   public_inputs_bytes H a' = public_inputs_bytes H a \<and> prover_nullifier H a' = prover_nullifier H a"
  by (auto simp: prove_def Let_def public_inputs_bytes_def prover_public_inputs_def prover_nullifier_def
      compute_nullifier_def split: option.splits sum.splits)

text \<open>What one successful turn has checked.\<close>

definition approval_checked ::
  "hasher \<Rightarrow> ('env, 'r, 'z) receipt_host_scheme \<Rightarrow> build_products \<Rightarrow> multisig_state_snapshot \<Rightarrow>
   bytes32 \<Rightarrow> member \<Rightarrow> bytes32 \<Rightarrow> bool" where
  "approval_checked H Z B s pid m nul \<longleftrightarrow> nul = member_nullifier H m pid \<and>
     (\<exists>p r. wf_proof p \<and> verify_proof H (s_members_root s) (commitment_bytes (member_id H m)) p \<and>
        receipt_verify Z r (circuit_image_id B) = Inr () \<and>
        journal_of Z r =
          to_bytes \<lparr>in_members_root = s_members_root s, in_proposal_id = pid, in_nullifier = nul\<rparr>)"

lemma prover_new_nullifier:
  assumes "prover_new H m s index action target p elf = Inr a" "wf_proof p"
  shows "prover_nullifier H a = member_nullifier H m (snapshot_proposal_id H s index action target)"
  using assms by (auto simp: prover_new_eq prover_nullifier_def compute_nullifier_def Let_def
      member_nullifier_def identity_nullifier_def split: if_splits)

lemma approve_one_eq_Inr:
  "approve_one H Z B v f s index action target i m = Inr nul \<longleftrightarrow>
     (\<exists>p a bs a' r. finalized_merkle_proof H f (member_id H m) = Inr p \<and>
        prover_new H m s index action target p (circuit_elf B) = Inr a \<and>
        prove H Z v a = (Inr bs, a') \<and> bincode_deserialize Z bs = Inr r \<and>
        receipt_verify Z r (circuit_image_id B) = Inr () \<and> journal_of Z r = public_inputs_bytes H a' \<and>
        nul = prover_nullifier H a')"
  unfolding approve_one_def Let_def
  by (simp add: result_simps split_beta prod_eq_iff) blast

lemma approve_one_checked:
  assumes "approve_one H Z B v f s index action target i m = Inr nul"
  shows "approval_checked H Z B s (snapshot_proposal_id H s index action target) m nul"
proof -
  obtain p a bs a' r where p: "finalized_merkle_proof H f (member_id H m) = Inr p"
    and a: "prover_new H m s index action target p (circuit_elf B) = Inr a"
    and b: "prove H Z v a = (Inr bs, a')" "receipt_verify Z r (circuit_image_id B) = Inr ()"
      "journal_of Z r = public_inputs_bytes H a'" "nul = prover_nullifier H a'"
    using assms by (auto simp: approve_one_eq_Inr)
  have w: "wf_proof p" by (rule wf_finalized_proof [OF p])
  have v: "verify_proof H (s_members_root s) (commitment_bytes (member_id H m)) p"
    using a w by (auto simp: prover_new_eq commitment_member_id split: if_splits)
  show ?thesis
    using b prove_keeps [OF b(1)] prover_new_nullifier [OF a w] prover_approves(2) [OF a w] w v
    unfolding approval_checked_def by (metis public_inputs_bytes_def)
qed

section \<open>The approval loop\<close>

lemma approval_loop_eq_Inr:
  assumes "approval_loop turn threshold i ms nuls c = Some (Inr (nuls', c'))" "c < threshold"
  shows "\<exists>ns. length ns \<le> length ms \<and> (\<forall>j < length ns. turn (i + j) (ms ! j) = Inr (ns ! j)) \<and>
    distinct ns \<and> set ns \<inter> nuls = {} \<and> nuls' = nuls \<union> set ns \<and> unat c' = unat c + length ns \<and>
    (c' = threshold \<or> c' < threshold \<and> length ns = length ms)"
  using assms
proof (induction ms arbitrary: i nuls c)
  case Nil
  then show ?case by (auto intro: exI [of _ "[]"])
next
  case (Cons m ms)
  obtain nul where t: "turn i m = Inr nul" "nul \<notin> nuls" using Cons.prems(1)
    by (auto simp: result_simps split: if_splits)
  obtain d where d: "checked_add c 1 = Some d" using Cons.prems(1) t
    by (auto simp: Let_def split: option.splits)
  from checked_add_unat [OF d] have ud: "unat d = unat c + 1" by simp
  show ?case
  proof (cases "d < threshold")
    case False
    then have "d = threshold" using ud Cons.prems(2) by (simp add: word_less_nat_alt word_unat_eq_iff)
    with Cons.prems(1) t d have "nuls' = insert nul nuls" "c' = d" by (auto simp: Let_def)
    with t ud \<open>d = threshold\<close> show ?thesis by (intro exI [of _ "[nul]"]) simp
  next
    case True
    with Cons.prems(1) t d have "approval_loop turn threshold (Suc i) ms (insert nul nuls) d = Some (Inr (nuls', c'))"
      by (simp add: Let_def flip: not_less)
    from Cons.IH [OF this True] obtain ns where ns: "length ns \<le> length ms"
      "\<forall>j < length ns. turn (Suc i + j) (ms ! j) = Inr (ns ! j)" "distinct ns"
      "set ns \<inter> insert nul nuls = {}" "nuls' = insert nul nuls \<union> set ns" "unat c' = unat d + length ns"
      "c' = threshold \<or> c' < threshold \<and> length ns = length ms" by blast
    have "\<forall>j < length (nul # ns). turn (i + j) ((m # ms) ! j) = Inr ((nul # ns) ! j)"
    proof (intro allI impI)
      fix j assume "j < length (nul # ns)"
      with t(1) ns(2) show "turn (i + j) ((m # ms) ! j) = Inr ((nul # ns) ! j)" by (cases j) auto
    qed
    with t ns ud show ?thesis by (intro exI [of _ "nul # ns"]) auto
  qed
qed

lemma approval_loop_ok:
  assumes "\<forall>j < k. turn (i + j) (ms ! j) = Inr (ns ! j)" "length ns = k" "k \<le> length ms"
    "distinct ns" "set ns \<inter> nuls = {}" "unat threshold = unat c + k" "0 < k"
  shows "approval_loop turn threshold i ms nuls c = Some (Inr (nuls \<union> set ns, threshold))"
  using assms
proof (induction ms arbitrary: i nuls c k ns)
  case (Cons m ms)
  obtain nul ns' where ns: "ns = nul # ns'" "length ns' = k - 1"
    using Cons.prems(2,7) by (cases ns) auto
  have t: "turn i m = Inr nul" using Cons.prems(1,7) ns by force
  have "unat c + 1 < 256" using Cons.prems(6,7) unat_byte_less [of threshold] by simp
  then obtain d where d: "checked_add c 1 = Some d" by (auto simp: checked_add_def)
  from checked_add_unat [OF this] have ud: "unat d = unat c + 1" by simp
  show ?case
  proof (cases "k = 1")
    case True
    then have "d = threshold" using ud Cons.prems(6) by (simp add: word_unat_eq_iff)
    with True t d ns Cons.prems(5) show ?thesis by simp
  next
    case False
    have j: "turn (Suc i + j) (ms ! j) = Inr (ns' ! j)" if "j < k - 1" for j
      using Cons.prems(1) that ns(1) by (metis Suc_diff_1 Suc_less_eq add_Suc_shift Cons.prems(7) nth_Cons_Suc)
    have "\<not> d \<ge> threshold" using ud Cons.prems(6,7) False by (simp add: word_le_nat_alt)
    moreover have "approval_loop turn threshold (Suc i) ms (insert nul nuls) d =
        Some (Inr (insert nul nuls \<union> set ns', threshold))"
      by (rule Cons.IH [of "k - 1"]) (use Cons.prems ns ud j False in auto)
    ultimately show ?thesis using t d ns(1) Cons.prems(5) by simp
  qed
qed simp

section \<open>A whole run\<close>

definition demo_snapshot :: "hasher \<Rightarrow> multisig_finalized \<Rightarrow> multisig_state_snapshot" where
  "demo_snapshot H f =
     \<lparr>s_program_id = DEMO_PROGRAM_ID, s_create_key = DEMO_CREATE_KEY, s_members_root = f_members_root f,
      s_m = f_m f, s_n = f_n f, s_proposal_count = 1,
      s_state_pda = address H DEMO_PROGRAM_ID (StateOf DEMO_CREATE_KEY)\<rparr>"

definition demo_turn ::
  "hasher \<Rightarrow> ('env, 'r, 'z) receipt_host_scheme \<Rightarrow> build_products \<Rightarrow> string option \<Rightarrow>
   multisig_finalized \<Rightarrow> byte list \<Rightarrow> nat \<Rightarrow> member \<Rightarrow> anyhow + bytes32" where
  "demo_turn H Z B v f action =
     approve_one H Z B (default_dev_mode v) f (demo_snapshot H f) 0 action (image_id_to_account_id (noop_id B))"

definition demo_proposal :: "hasher \<Rightarrow> build_products \<Rightarrow> byte list \<Rightarrow> bytes32" where
  "demo_proposal H B action =
     derive_proposal_id H (chain_id_from_u64 DEPLOYMENT_CHAIN_ID_U64)
       (address H DEMO_PROGRAM_ID (StateOf DEMO_CREATE_KEY)) 0 action (image_id_to_account_id (noop_id B))"

lemma demo_proposal_id:
  "snapshot_proposal_id H (demo_snapshot H f) 0 action (image_id_to_account_id (noop_id B)) =
     demo_proposal H B action"
  by (simp add: snapshot_proposal_id_def demo_snapshot_def demo_proposal_def)

lemma demo_turn_checked:
  "demo_turn H Z B v f action i m = Inr nul \<Longrightarrow>
   approval_checked H Z B (demo_snapshot H f) (demo_proposal H B action) m nul"
  unfolding demo_turn_def demo_proposal_id [symmetric, where f = f] by (rule approve_one_checked)

lemma demo_snapshot_new:
  "snapshot_new H DEMO_PROGRAM_ID DEMO_CREATE_KEY (f_members_root f) (f_m f) (f_n f) 1 =
     Some (Inr (demo_snapshot H f))"
  by (simp add: snapshot_new_def derive_address demo_snapshot_def)

lemma run_layer_a_eq_Inr:
  "run_layer_a H Z B rng v threshold count action = Some (Inr u) \<longleftrightarrow>
     threshold \<noteq> 0 \<and> unat threshold \<le> count \<and>
     (\<exists>ms b f nuls c nul. list_all2 (generated rng) [0..<count] ms \<and>
        enroll H 0 ms (builder_new H threshold) = Inr b \<and> builder_finalize H b = Inr f \<and>
        approval_loop (demo_turn H Z B v f action) threshold 0 ms {} 0 = Some (Inr (nuls, c)) \<and>
        \<not> c < threshold \<and>
        replay_nullifier H B f (demo_snapshot H f) 0 action (image_id_to_account_id (noop_id B)) (hd ms)
          = Inr nul \<and> nul \<in> nuls)"
  (is "_ \<longleftrightarrow> ?r")
proof -
  have e: "derive_proposal_pda H DEMO_PROGRAM_ID DEMO_CREATE_KEY 0 =
      Some (address H DEMO_PROGRAM_ID (ProposalOf DEMO_CREATE_KEY 0))"
    by (simp add: derive_address)
  have ne: "unat threshold \<le> count \<Longrightarrow> threshold \<noteq> 0 \<Longrightarrow> count \<noteq> 0"
    by (metis le_zero_eq unat_eq_zero)
  have l: "list_all2 (generated rng) [0..<count] ms \<Longrightarrow> count \<noteq> 0 \<Longrightarrow> ms \<noteq> []" for ms
    by (auto dest: list_all2_lengthD)
  show ?thesis
    unfolding run_layer_a_def Let_def e demo_turn_def
    by (simp add: result_simps demo_snapshot_new generate_members_eq_Inr not_less split_beta)
      (use ne l in \<open>auto simp: not_less\<close>)
qed

section \<open>Properties of the demo\<close>

text \<open>
  The conversions of ids are exact. For an id of eight words, the 32 bytes that the demo
  (and the harness, whose \<open>program_id_to_core_bytes\<close> is the same loop) stores as a proposal's
  target are the ones from which \<open>execute\<close> rebuilds the same eight words, and their
  \<open>hex_encode\<close> is the text that \<open>image_id_hex\<close> gives for the id.
\<close>

theorem program_id_bytes_exact:
  assumes "length ws = 8"
  shows "target_program_id (image_id_to_account_id ws) = ws \<and>
    hex_encode (bytes_of (image_id_to_account_id ws)) = image_id_hex ws"
  using assms by (simp add: target_of_image_id bytes_of_image_id hex_encode_eq image_id_hex_eq)

theorem program_id_bytes_exact_witness:
  "target_program_id (image_id_to_account_id APPROVE_CIRCUIT_IMAGE_ID_PINNED) = APPROVE_CIRCUIT_IMAGE_ID_PINNED"
  using program_id_bytes_exact [of APPROVE_CIRCUIT_IMAGE_ID_PINNED]
  by (simp add: APPROVE_CIRCUIT_IMAGE_ID_PINNED_def)

text \<open>
  C37: a green demo means what it prints. If \<open>run_layer_a\<close> succeeds then \<open>1 \<le> M \<le> N\<close>, it
  generated N members with different commitments, and each of the first M has a path to the
  root of the instance and a receipt that verifies against the build's image id and whose
  journal is exactly the bundle of that root, the demo proposal and that member's nullifier;
  and these M nullifiers are pairwise different.
\<close>

theorem quickstart_sound:
  assumes "run_layer_a H Z B rng v threshold count action = Some (Inr ())"
  shows "\<exists>ms f. list_all2 (generated rng) [0..<count] ms \<and> 1 \<le> unat threshold \<and>
    unat threshold \<le> count \<and> f_commitments f = map (member_id H) ms \<and> distinct (map (member_id H) ms) \<and>
    distinct (map (\<lambda>m. member_nullifier H m (demo_proposal H B action)) (take (unat threshold) ms)) \<and>
    list_all (\<lambda>m. approval_checked H Z B (demo_snapshot H f) (demo_proposal H B action) m
        (member_nullifier H m (demo_proposal H B action))) (take (unat threshold) ms)"
proof -
  let ?pid = "demo_proposal H B action" and ?t = "unat threshold"
  obtain ms b f nuls c where t: "threshold \<noteq> 0" "?t \<le> count"
    and ms: "list_all2 (generated rng) [0..<count] ms"
    and en: "enroll H 0 ms (builder_new H threshold) = Inr b" and f: "builder_finalize H b = Inr f"
    and loop: "approval_loop (demo_turn H Z B v f action) threshold 0 ms {} 0 = Some (Inr (nuls, c))"
    and c: "\<not> c < threshold"
    using assms unfolding run_layer_a_eq_Inr by blast
  have added: "b_added b = map (member_id H) ms" and st: "builder_step\<^sup>*\<^sup>* (builder_new H threshold) b"
    using enroll_eq_Inr [OF en] by (simp_all add: builder_new_def)
  have inv: "builder_inv H b" using builder_sys.inv_reachable [OF _ st] by blast
  have "0 < threshold" using t(1) by (simp add: word_gt_0)
  from approval_loop_eq_Inr [OF loop this] obtain ns where ns0: "length ns \<le> length ms"
    "\<forall>j < length ns. demo_turn H Z B v f action (0 + j) (ms ! j) = Inr (ns ! j)" "distinct ns"
    "unat c = unat (0 :: u8) + length ns" "c = threshold \<or> c < threshold \<and> length ns = length ms"
    by blast
  then have ns: "length ns \<le> length ms" "\<forall>j < length ns. demo_turn H Z B v f action j (ms ! j) = Inr (ns ! j)"
    "distinct ns" "length ns = ?t" using c by auto
  have chk: "approval_checked H Z B (demo_snapshot H f) ?pid (ms ! j) (ns ! j)" if "j < ?t" for j
    using demo_turn_checked ns(2,4) that by metis
  then have nul: "ns ! j = member_nullifier H (ms ! j) ?pid" if "j < ?t" for j
    using that by (simp add: approval_checked_def)
  have take: "map (\<lambda>m. member_nullifier H m ?pid) (take ?t ms) = ns"
    using ns(1,4) nul by (intro nth_equalityI) auto
  have "list_all (\<lambda>m. approval_checked H Z B (demo_snapshot H f) ?pid m (member_nullifier H m ?pid)) (take ?t ms)"
    using chk nul ns(1,4) by (simp add: list_all_length)
  moreover have "1 \<le> ?t" using t(1) by (metis One_nat_def Suc_leI neq0_conv unat_eq_0)
  moreover have "f_commitments f = map (member_id H) ms" "distinct (map (member_id H) ms)"
    using f added inv by (auto simp: finalize_eq_Inr builder_inv_def)
  moreover have "distinct (map (\<lambda>m. member_nullifier H m ?pid) (take ?t ms))" using take ns(3) by simp
  ultimately show ?thesis using t(2) ms by blast
qed

text \<open>What the demo needs of its host: proofs are found, and receipts survive their encoding.\<close>

definition host_proves ::
  "hasher \<Rightarrow> reader \<Rightarrow> ('env, 'r, 'z) receipt_host_scheme \<Rightarrow> build_products \<Rightarrow> bool" where
  "host_proves H rd Z B \<longleftrightarrow>
     (\<forall>slices j. approve_circuit H rd (concat slices) = Some j \<longrightarrow>
        (\<exists>env r bs. build_env Z slices = Inr env \<and> zk_prove Z env (circuit_elf B) = Inr r \<and>
           receipt_verify Z r APPROVE_CIRCUIT_IMAGE_ID_PINNED = Inr () \<and>
           receipt_verify Z r (circuit_image_id B) = Inr () \<and> bincode_serialize Z r = Inr bs \<and>
           bincode_deserialize Z bs = Inr r \<and> journal_of Z r = j))"

lemma host_proof:
  assumes h: "host_proves H rd Z B" and rd: "slice_reader rd" and p: "wf_proof p"
    and a: "prover_new H m s index action target p (circuit_elf B) = Inr a"
  obtains bs r where "\<forall>w. prove H Z w a = (Inr bs, a\<lparr>pr_receipt := Some bs\<rparr>)"
    "bincode_deserialize Z bs = Inr r" "receipt_verify Z r (circuit_image_id B) = Inr ()"
    "journal_of Z r = public_inputs_bytes H a"
proof -
  have e: "pr_receipt a = None" "pr_elf a = circuit_elf B"
    using a p by (auto simp: prover_new_eq split: if_splits)
  let ?pid = "snapshot_proposal_id H (pr_snapshot a) (pr_index a) (pr_action_bytes a) (pr_target_program a)"
  obtain env r bs where r: "build_env Z (prover_slices a ?pid) = Inr env" "zk_prove Z env (circuit_elf B) = Inr r"
    "receipt_verify Z r APPROVE_CIRCUIT_IMAGE_ID_PINNED = Inr ()"
    "receipt_verify Z r (circuit_image_id B) = Inr ()" "bincode_serialize Z r = Inr bs"
    "bincode_deserialize Z bs = Inr r" "journal_of Z r = public_inputs_bytes H a"
    using h prover_circuit [OF rd a p] unfolding host_proves_def by blast
  have "\<forall>w. prove H Z w a = (Inr bs, a\<lparr>pr_receipt := Some bs\<rparr>)"
    unfolding prove_uncached [OF e(1) refl] using r by (auto simp: run_risc0_prover_eq_Inr e(2))
  from that [OF this r(6,4,7)] show thesis .
qed

lemma demo_turn_ok:
  assumes h: "host_proves H rd Z B" and rd: "slice_reader rd" and act: "length action \<le> MAX_ACTION_BYTES_LEN"
    and p: "finalized_merkle_proof H f (member_id H m) = Inr p" "wf_proof p"
      "verify_proof H (f_members_root f) (commitment_bytes (member_id H m)) p"
  shows "demo_turn H Z B v f action i m = Inr (member_nullifier H m (demo_proposal H B action))"
    "replay_nullifier H B f (demo_snapshot H f) 0 action (image_id_to_account_id (noop_id B)) m
      = Inr (member_nullifier H m (demo_proposal H B action))"
proof -
  let ?s = "demo_snapshot H f" and ?t = "image_id_to_account_id (noop_id B)"
  obtain a where a: "prover_new H m ?s 0 action ?t p (circuit_elf B) = Inr a"
    using act p(2,3) by (simp add: prover_new_eq demo_snapshot_def commitment_member_id)
  obtain bs r where pr: "\<And>w. prove H Z w a = (Inr bs, a\<lparr>pr_receipt := Some bs\<rparr>)"
    and r: "bincode_deserialize Z bs = Inr r" "receipt_verify Z r (circuit_image_id B) = Inr ()"
      "journal_of Z r = public_inputs_bytes H a"
    using host_proof [OF h rd p(2) a] by metis
  have nul: "prover_nullifier H a = member_nullifier H m (demo_proposal H B action)"
    using prover_new_nullifier [OF a p(2)] by (simp add: demo_proposal_id)
  show "demo_turn H Z B v f action i m = Inr (member_nullifier H m (demo_proposal H B action))"
    unfolding demo_turn_def approve_one_eq_Inr
    using p(1) a pr r prove_keeps [OF pr] nul by metis
  show "replay_nullifier H B f ?s 0 action ?t m = Inr (member_nullifier H m (demo_proposal H B action))"
    by (simp add: replay_nullifier_def p(1) a nul)
qed

lemma run_completes:
  assumes "threshold \<noteq> 0" and "unat threshold \<le> count" and "count \<le> MAX_LEAVES"
    and "length action \<le> MAX_ACTION_BYTES_LEN"
    and "list_all2 (generated rng) [0..<count] ms" and "distinct (map (member_id H) ms)"
    and "\<forall>m \<in> set ms. commitment_bytes (member_id H m) \<noteq> 0"
    and "distinct (map (\<lambda>m. member_nullifier H m (demo_proposal H B action)) (take (unat threshold) ms))"
    and "slice_reader rd" and "host_proves H rd Z B"
  shows "run_layer_a H Z B rng v threshold count action = Some (Inr ())"
proof -
  let ?pid = "demo_proposal H B action" and ?t = "unat threshold"
  have t: "1 \<le> ?t" using assms(1) by (metis One_nat_def Suc_leI neq0_conv unat_eq_0)
  have l: "length ms = count" using assms(5) by (auto dest: list_all2_lengthD)
  obtain b where en: "enroll H 0 ms (builder_new H threshold) = Inr b"
    using enroll_ok [of "builder_new H threshold" H ms 0] assms(3,6) l
    by (auto simp: builder_new_def merkle_new_def)
  have added: "b_added b = map (member_id H) ms" "b_m b = threshold"
    and st: "builder_step\<^sup>*\<^sup>* (builder_new H threshold) b"
    using enroll_eq_Inr [OF en] by (simp_all add: builder_new_def)
  have inv: "builder_inv H b" using builder_sys.inv_reachable [OF _ st] by blast
  have room: "length (b_added b) \<le> MAX_LEAVES" "length (b_added b) < 2 ^ 32"
    using assms(3) l by (simp_all add: added MAX_LEAVES_def MERKLE_DEPTH_def)
  have ne: "ms \<noteq> []" "hd ms \<in> set (take ?t ms)"
    using l t assms(2) by (cases ms; cases ?t; simp)+
  obtain f where f: "builder_finalize H b = Inr f"
    using room(2) added assms(1,2) l ne(1) by (auto simp: finalize_eq_Inr)
  have turn: "demo_turn H Z B v f action i m = Inr (member_nullifier H m ?pid) \<and>
      replay_nullifier H B f (demo_snapshot H f) 0 action (image_id_to_account_id (noop_id B)) m
        = Inr (member_nullifier H m ?pid)" if m: "m \<in> set ms" for i m
  proof -
    obtain p where "finalized_merkle_proof H f (member_id H m) = Inr p" "wf_proof p"
      "verify_proof H (f_members_root f) (commitment_bytes (member_id H m)) p"
      using builder_member_proof [OF inv f, of "member_id H m"] room(1) assms(7) m by (auto simp: added)
    with demo_turn_ok [OF assms(10,9,4)] show ?thesis by blast
  qed
  let ?ns = "map (\<lambda>m. member_nullifier H m ?pid) (take ?t ms)"
  have "approval_loop (demo_turn H Z B v f action) threshold 0 ms {} 0 = Some (Inr ({} \<union> set ?ns, threshold))"
    by (rule approval_loop_ok [where k = ?t]) (use assms(2,8) l t turn in auto)
  moreover have "member_nullifier H (hd ms) ?pid \<in> {} \<union> set ?ns" using ne(2) by simp
  moreover have "replay_nullifier H B f (demo_snapshot H f) 0 action (image_id_to_account_id (noop_id B)) (hd ms)
      = Inr (member_nullifier H (hd ms) ?pid)"
    using turn [of "hd ms"] ne(1) by simp
  ultimately show ?thesis
    unfolding run_layer_a_eq_Inr using assms(1,2,5) en f less_irrefl by blast
qed

text \<open>A host whose receipts are journals, and a generator of two members.\<close>

definition sample_host :: "(byte list, byte list) receipt_host" where
  "sample_host = zkvm.extend sample_zkvm \<lparr>bincode_deserialize = Inr, journal_of = id\<rparr>"

definition sample_build :: build_products where
  "sample_build = \<lparr>circuit_image_id = APPROVE_CIRCUIT_IMAGE_ID_PINNED, circuit_elf = [],
     noop_id = [1, 2, 3, 4, 5, 6, 7, 8]\<rparr>"

definition sample_rng :: "nat \<Rightarrow> bytes32 option \<times> bytes32 option" where
  "sample_rng i = (Some (1 + of_nat i), Some 0)"

lemma sample_host_proves: "host_proves sample_hash sample_reader sample_host sample_build"
  by (auto simp: host_proves_def sample_host_def sample_zkvm_def sample_build_def zkvm.defs result_simps)

definition sample_members :: "member list" where
  "sample_members = [\<lparr>mem_identity = identity_new 1 0\<rparr>, \<lparr>mem_identity = identity_new 2 0\<rparr>]"

lemma sample_members:
  "list_all2 (generated sample_rng) [0..<2] sample_members"
  "distinct (map (member_id sample_hash) sample_members)"
  "\<forall>m \<in> set sample_members. commitment_bytes (member_id sample_hash m) \<noteq> 0"
  "distinct (map (\<lambda>m. member_nullifier sample_hash m pid) (take (unat (2 :: u8)) sample_members))"
  by (simp_all add: sample_members_def upt_rec generated_def sample_rng_def member_id_def commitment_def
      commitment_preimage_def member_nullifier_def identity_nullifier_def nullifier_def
      nullifier_preimage_def sample_hash_2)

lemma sample_demo_run:
  "run_layer_a sample_hash sample_host sample_build sample_rng None 2 2 [1, 2] = Some (Inr ())"
  by (rule run_completes [OF _ _ _ _ sample_members sample_reader sample_host_proves])
    (simp_all add: MAX_LEAVES_def MERKLE_DEPTH_def MAX_ACTION_BYTES_LEN_def)

text \<open>
  C38: the demo goes through. With working random numbers, a host that proves what the circuit
  commits, \<open>1 \<le> M \<le> N \<le> 2^20\<close>, an action of at most 4096 bytes, N different commitments that are
  not all zeros, and different nullifiers for the first M members, \<open>run_layer_a\<close> succeeds: every
  step returns, the loop stops after M approvals without overflowing its eight-bit counter,
  and the replay of the first member is recognised.
\<close>

theorem quickstart_completes:
  assumes "threshold \<noteq> 0" and "unat threshold \<le> count" and "count \<le> MAX_LEAVES"
    and "length action \<le> MAX_ACTION_BYTES_LEN"
    and "list_all2 (generated rng) [0..<count] ms" and "distinct (map (member_id H) ms)"
    and "\<forall>m \<in> set ms. commitment_bytes (member_id H m) \<noteq> 0"
    and "distinct (map (\<lambda>m. member_nullifier H m (demo_proposal H B action)) (take (unat threshold) ms))"
    and "slice_reader rd" and "host_proves H rd Z B"
  shows "run_layer_a H Z B rng v threshold count action = Some (Inr ())"
  by (rule run_completes [OF assms])

theorem quickstart_completes_witness:
  "run_layer_a sample_hash sample_host sample_build sample_rng (Some ''0'') 2 2 [1, 2] = Some (Inr ())"
  by (rule quickstart_completes [OF _ _ _ _ sample_members sample_reader sample_host_proves])
    (simp_all add: MAX_LEAVES_def MERKLE_DEPTH_def MAX_ACTION_BYTES_LEN_def)

theorem quickstart_sound_witness:
  "\<exists>ms (f :: multisig_finalized). length ms = 2 \<and> run_layer_a sample_hash sample_host sample_build sample_rng None 2 2 [1, 2] = Some (Inr ()) \<and>
     f_commitments f = map (member_id sample_hash) ms \<and>
     distinct (map (\<lambda>m. member_nullifier sample_hash m (demo_proposal sample_hash sample_build [1, 2])) (take 2 ms))"
proof -
  have u: "unat (2 :: u8) = 2" by simp
  have l: "length ms = 2" if "list_all2 (generated sample_rng) [0..<2] ms" for ms
    using list_all2_lengthD [OF that] by simp
  obtain ms and f :: multisig_finalized where ms: "list_all2 (generated sample_rng) [0..<2] ms"
    and r: "f_commitments f = map (member_id sample_hash) ms"
      "distinct (map (\<lambda>m. member_nullifier sample_hash m (demo_proposal sample_hash sample_build [1, 2])) (take 2 ms))"
    using quickstart_sound [OF sample_demo_run, unfolded u] by blast
  show ?thesis
    by (intro exI [of _ ms] exI [of _ f] conjI l [OF ms] sample_demo_run r)
qed

end
