(* ===== verification/Harness.thy ===== *)
theory Harness
  imports Members Quickstart
begin

text \<open>
  The Layer-B harness (\<open>e2e_tests/src/harness.rs\<close>): which accounts and which instruction each of
  its operations submits, how \<open>submit\<close> finds out whether the transaction went through, and the
  check of the inner receipt. The test context (sequencer, wallet, wait for a block) is the
  record \<open>sequencer\<close> over a state of its own; \<open>async\<close> calls are made one after the other.
  Bringing the stack up (\<open>bootstrap\<close>, deployment, the wallet's commands) is in \<open>Harness_Boot\<close>.
\<close>

record ('s, 'nonce, 'key, 'msg, 'tx, 'hash) sequencer =
  get_accounts_nonces :: "'s \<Rightarrow> bytes32 list \<Rightarrow> string + 'nonce list"
  public_signing_key :: "'s \<Rightarrow> bytes32 \<Rightarrow> 'key option"
  message_try_new :: "u32 list \<Rightarrow> bytes32 list \<Rightarrow> 'nonce list \<Rightarrow> instruction \<Rightarrow> string + 'msg"
  public_transaction :: "'msg \<Rightarrow> 'key \<Rightarrow> 'tx"
  send_transaction :: "'tx \<Rightarrow> 's \<Rightarrow> (string + 'hash) \<times> 's"
  wait_for_block :: "'s \<Rightarrow> 's"
  get_transaction :: "'s \<Rightarrow> 'hash \<Rightarrow> string + 'tx option"

record harness =
  verifier_program_id :: "u32 list"
  verifier_program_id_bytes :: bytes32
  noop_target_bytes :: bytes32
  h_signer :: bytes32

definition program_id_to_core_bytes :: "u32 list \<Rightarrow> bytes32" where
  "program_id_to_core_bytes ws =
     array32 (fold (\<lambda>i out. copy_into out (i * 4) (to_le (ws ! i))) [0..<length ws] (replicate 32 0))"

section \<open>Submitting\<close>

definition not_included :: anyhow where
  "not_included = [''transaction not included in a block (guest execution failed / skipped)'']"

definition harness_submit ::
  "('s, 'nonce, 'key, 'msg, 'tx, 'hash) sequencer \<Rightarrow> harness \<Rightarrow> bytes32 list \<Rightarrow> instruction \<Rightarrow> 's \<Rightarrow>
   (anyhow + unit) \<times> 's" where
  "harness_submit Q h accounts ix s =
     (case try_bind (host_context ''get_accounts_nonces'' (get_accounts_nonces Q s [h_signer h])) (\<lambda>nonces.
           try_bind (ok_or [''signer has no public signing key''] (public_signing_key Q s (h_signer h))) (\<lambda>private_key.
           try_bind (host_context ''Message::try_new''
             (message_try_new Q (verifier_program_id h) accounts nonces ix)) (\<lambda>message.
           Inr (public_transaction Q message private_key)))) of
        Inl e \<Rightarrow> (Inl e, s)
      | Inr transaction \<Rightarrow>
          (case send_transaction Q transaction s of
             (Inl e, s) \<Rightarrow> (Inl [''send_transaction'', e], s)
           | (Inr tx_hash, s) \<Rightarrow>
               let s = wait_for_block Q s
               in (try_bind (host_context ''get_transaction'' (get_transaction Q s tx_hash)) (\<lambda>included.
                   ensure (included \<noteq> None) not_included), s)))"

section \<open>The operations\<close>

text \<open>A panic of a PDA derivation is \<open>None\<close>.\<close>

definition harness_create_multisig where
  "harness_create_multisig H Q h ck root m' n' s =
     Option.bind (derive_multisig_state_pda H (verifier_program_id_bytes h) ck) (\<lambda>state_pda.
     let accounts = [state_pda, h_signer h]
     in Some (harness_submit Q h accounts (CreateMultisig ck root m' n') s))"

definition harness_create_vault where
  "harness_create_vault H Q h ck s =
     Option.bind (derive_multisig_state_pda H (verifier_program_id_bytes h) ck) (\<lambda>state_pda.
     Option.bind (derive_vault_pda H (verifier_program_id_bytes h) ck) (\<lambda>vault_pda.
     let accounts = [state_pda, vault_pda, h_signer h]
     in Some (harness_submit Q h accounts (CreateVault ck) s)))"

definition harness_propose where
  "harness_propose H Q h ck index action s =
     Option.bind (derive_multisig_state_pda H (verifier_program_id_bytes h) ck) (\<lambda>state_pda.
     Option.bind (derive_proposal_pda H (verifier_program_id_bytes h) ck index) (\<lambda>proposal_pda.
     let accounts = [state_pda, proposal_pda, h_signer h];
         ix = Propose ck index action (noop_target_bytes h);
         (r, s) = harness_submit Q h accounts ix s
     in Some (try_bind r (\<lambda>_. Inr proposal_pda), s)))"

definition harness_approve where
  "harness_approve H Q h ck index nul public_inputs s =
     Option.bind (derive_multisig_state_pda H (verifier_program_id_bytes h) ck) (\<lambda>state_pda.
     Option.bind (derive_proposal_pda H (verifier_program_id_bytes h) ck index) (\<lambda>proposal_pda.
     Option.bind (derive_nullifier_entry_pda H (verifier_program_id_bytes h) proposal_pda nul) (\<lambda>nullifier_entry.
     let accounts = [state_pda, proposal_pda, nullifier_entry, h_signer h]
     in Some (harness_submit Q h accounts (Approve ck index nul public_inputs) s))))"

definition harness_execute where
  "harness_execute H Q h ck index s =
     Option.bind (derive_multisig_state_pda H (verifier_program_id_bytes h) ck) (\<lambda>state_pda.
     Option.bind (derive_proposal_pda H (verifier_program_id_bytes h) ck index) (\<lambda>proposal_pda.
     Option.bind (derive_vault_pda H (verifier_program_id_bytes h) ck) (\<lambda>vault_pda.
     let accounts = [state_pda, proposal_pda, vault_pda, h_signer h]
     in Some (harness_submit Q h accounts (Execute ck index) s))))"

text \<open>The check of the inner receipt; the prover is mutated by \<open>prove\<close>.\<close>

definition assert_inner_receipt_verifies ::
  "hasher \<Rightarrow> ('env, 'r, 'z) receipt_host_scheme \<Rightarrow> u32 list \<Rightarrow> string option \<Rightarrow> approval_prover \<Rightarrow>
   (anyhow + unit) \<times> approval_prover" where
  "assert_inner_receipt_verifies H Z img v prover =
     (let (proved, prover) = prove H Z v prover
      in (try_bind (sdk_context ''inner approve proof'' proved) (\<lambda>bs.
          try_bind (host_context ''decode inner receipt'' (bincode_deserialize Z bs)) (\<lambda>r.
          try_bind (host_context ''inner approve receipt verify'' (receipt_verify Z r img)) (\<lambda>_.
          let pi = public_inputs_bytes H prover
          in ensure (\<not> journal_of Z r \<noteq> pi) [''inner receipt journal != submitted public_inputs'']))),
          prover))"

section \<open>The calls that the operations make\<close>

lemma program_id_to_core_bytes_eq: "program_id_to_core_bytes = image_id_to_account_id"
  by (simp add: fun_eq_iff program_id_to_core_bytes_def image_id_to_account_id_def)

text \<open>
  The harness names the accounts that the handlers want. Every operation submits its
  instruction over exactly the accounts the handler's attributes ask for, in their order, the
  signer last; and none of them panics.
\<close>

theorem harness_accounts:
  "harness_create_multisig H Q h ck root m' n' s =
     Some (harness_submit Q h (call_ids H (verifier_program_id_bytes h) (CreateMultisig ck root m' n') (h_signer h))
       (CreateMultisig ck root m' n') s) \<and>
   harness_create_vault H Q h ck s =
     Some (harness_submit Q h (call_ids H (verifier_program_id_bytes h) (CreateVault ck) (h_signer h))
       (CreateVault ck) s) \<and>
   map_option fst (harness_propose H Q h ck index action s) =
     Some (try_bind (fst (harness_submit Q h (call_ids H (verifier_program_id_bytes h)
         (Propose ck index action (noop_target_bytes h)) (h_signer h))
       (Propose ck index action (noop_target_bytes h)) s))
       (\<lambda>_. Inr (address H (verifier_program_id_bytes h) (ProposalOf ck index)))) \<and>
   harness_approve H Q h ck index nul pi s =
     Some (harness_submit Q h (call_ids H (verifier_program_id_bytes h) (Approve ck index nul pi) (h_signer h))
       (Approve ck index nul pi) s) \<and>
   harness_execute H Q h ck index s =
     Some (harness_submit Q h (call_ids H (verifier_program_id_bytes h) (Execute ck index) (h_signer h))
       (Execute ck index) s)"
  by (simp add: harness_create_multisig_def harness_create_vault_def harness_propose_def
      harness_approve_def harness_execute_def derive_address call_ids_def split_beta Let_def)

section \<open>The harness on a chain\<close>

text \<open>
  What the harness's comments rely on: the client's calls before and after the transaction do
  not fail, and a transaction that was sent is in a block after the wait exactly when the
  program accepts the call on the ledger as it was, which then is the call's result; a skipped
  one leaves the ledger as it was. \<open>ledger_of\<close> reads the ledger off the state of the stack.
\<close>

definition sequencer_runs ::
  "('s, 'nonce, 'key, 'msg, 'tx, 'hash) sequencer \<Rightarrow> harness \<Rightarrow> spel_env \<Rightarrow> runtime \<Rightarrow> bytes32 \<Rightarrow>
   ('s \<Rightarrow> ledger) \<Rightarrow> bool" where
  "sequencer_runs Q h E R pid ledger_of \<longleftrightarrow>
     (\<forall>s ids ix. \<exists>nonces key msg hash s1.
        get_accounts_nonces Q s [h_signer h] = Inr nonces \<and> public_signing_key Q s (h_signer h) = Some key \<and>
        message_try_new Q (verifier_program_id h) ids nonces ix = Inr msg \<and>
        send_transaction Q (public_transaction Q msg key) s = (Inr hash, s1) \<and>
        (case submit E R pid (ledger_of s) ix ids {h_signer h} of
           Some (L, out) \<Rightarrow> ledger_of (wait_for_block Q s1) = L \<and>
             (\<exists>tx. get_transaction Q (wait_for_block Q s1) hash = Inr (Some tx))
         | None \<Rightarrow> ledger_of (wait_for_block Q s1) = ledger_of s \<and>
             get_transaction Q (wait_for_block Q s1) hash = Inr None))"

lemma harness_submit_runs:
  assumes "sequencer_runs Q h E R pid ledger_of"
  shows "case submit E R pid (ledger_of s) ix ids {h_signer h} of
      Some (L, out) \<Rightarrow> \<exists>s'. harness_submit Q h ids ix s = (Inr (), s') \<and> ledger_of s' = L
    | None \<Rightarrow> \<exists>s'. harness_submit Q h ids ix s = (Inl not_included, s') \<and> ledger_of s' = ledger_of s"
proof -
  obtain nonces key msg hash s1 where q:
    "get_accounts_nonces Q s [h_signer h] = Inr nonces" "public_signing_key Q s (h_signer h) = Some key"
    "message_try_new Q (verifier_program_id h) ids nonces ix = Inr msg"
    "send_transaction Q (public_transaction Q msg key) s = (Inr hash, s1)"
    and c: "case submit E R pid (ledger_of s) ix ids {h_signer h} of
           Some (L, out) \<Rightarrow> ledger_of (wait_for_block Q s1) = L \<and>
             (\<exists>tx. get_transaction Q (wait_for_block Q s1) hash = Inr (Some tx))
         | None \<Rightarrow> ledger_of (wait_for_block Q s1) = ledger_of s \<and>
             get_transaction Q (wait_for_block Q s1) hash = Inr None"
    using assms [unfolded sequencer_runs_def, THEN spec, of s, THEN spec, of ids, THEN spec, of ix]
    by (elim exE conjE) (rule that)
  have e: "harness_submit Q h ids ix s =
      (try_bind (host_context ''get_transaction'' (get_transaction Q (wait_for_block Q s1) hash)) (\<lambda>included.
         ensure (included \<noteq> None) not_included), wait_for_block Q s1)"
    by (simp add: harness_submit_def q(1-3)) (simp add: q(4) Let_def)
  show ?thesis
  proof (cases "submit E R pid (ledger_of s) ix ids {h_signer h}")
    case None
    with c show ?thesis by (simp add: e)
  next
    case (Some r)
    with c show ?thesis by (cases r) (auto simp: e)
  qed
qed

text \<open>A test script: operations one after the other, each followed by \<open>?\<close>.\<close>

fun play ::
  "hasher \<Rightarrow> ('s, 'nonce, 'key, 'msg, 'tx, 'hash) sequencer \<Rightarrow> harness \<Rightarrow> instruction list \<Rightarrow> 's \<Rightarrow>
   (anyhow + unit) \<times> 's" where
  "play H Q h [] s = (Inr (), s)"
| "play H Q h (ix # ixs) s =
     (case harness_submit Q h (call_ids H (verifier_program_id_bytes h) ix (h_signer h)) ix s of
        (Inl e, s) \<Rightarrow> (Inl e, s)
      | (Inr _, s) \<Rightarrow> play H Q h ixs s)"

lemma play_submits:
  assumes "sequencer_runs Q h E R (verifier_program_id_bytes h) ledger_of"
  shows "case submits E R (verifier_program_id_bytes h) (h_signer h) (ledger_of s) ixs of
      Some L \<Rightarrow> \<exists>s'. play (sha256 E) Q h ixs s = (Inr (), s') \<and> ledger_of s' = L
    | None \<Rightarrow> fst (play (sha256 E) Q h ixs s) = Inl not_included"
proof (induction ixs arbitrary: s)
  case (Cons ix ixs)
  let ?ids = "call_ids (sha256 E) (verifier_program_id_bytes h) ix (h_signer h)"
  show ?case
  proof (cases "submit E R (verifier_program_id_bytes h) (ledger_of s) ix ?ids {h_signer h}")
    case None
    then show ?thesis using harness_submit_runs [OF assms, where s = s and ix = ix and ids = ?ids] by auto
  next
    case (Some r)
    then obtain L out where r: "submit E R (verifier_program_id_bytes h) (ledger_of s) ix ?ids {h_signer h}
        = Some (L, out)" by (cases r) simp
    then obtain s1 where "harness_submit Q h ?ids ix s = (Inr (), s1)" "ledger_of s1 = L"
      using harness_submit_runs [OF assms, where s = s and ix = ix and ids = ?ids] by auto
    with r Cons.IH [of s1] show ?thesis by (simp split: option.splits)
  qed
qed simp

text \<open>A stack that runs the program at once and remembers the last transaction included.\<close>

definition sample_sequencer ::
  "runtime \<Rightarrow> (ledger \<times> (bytes32 list \<times> instruction) option, unit, unit, bytes32 list \<times> instruction,
    bytes32 list \<times> instruction, unit) sequencer" where
  "sample_sequencer R =
     \<lparr>get_accounts_nonces = \<lambda>s ids. Inr [()], public_signing_key = \<lambda>s a. Some (),
      message_try_new = \<lambda>p ids nonces ix. Inr (ids, ix), public_transaction = \<lambda>m k. m,
      send_transaction = \<lambda>tx (L, _).
        (Inr (), case submit sample_env R 5 L (snd tx) (fst tx) {1} of
           Some (L', out) \<Rightarrow> (L', Some tx) | None \<Rightarrow> (L, None)),
      wait_for_block = id, get_transaction = \<lambda>(L, tx) hash. Inr tx\<rparr>"

definition sample_harness :: harness where
  "sample_harness = \<lparr>verifier_program_id = [5, 0, 0, 0, 0, 0, 0, 0], verifier_program_id_bytes = 5,
     noop_target_bytes = 3, h_signer = 1\<rparr>"

lemma sample_sequencer_runs:
  "sequencer_runs (sample_sequencer R) sample_harness sample_env R 5 fst"
  by (auto simp: sequencer_runs_def sample_sequencer_def sample_harness_def split: option.splits)

text \<open>
  C39: the harness reports what happened. On a stack that runs the verifier program, a script
  of operations succeeds exactly when every call of it, made in order over the handlers'
  accounts, is accepted by the program, and it then leaves the ledger these calls lead to,
  which is a run of the program with exactly these calls; otherwise the script stops with the
  error that a transaction was not included.
\<close>

theorem harness_reports_ledger:
  assumes "sequencer_runs Q h E R (verifier_program_id_bytes h) ledger_of"
    and "play (sha256 E) Q h ixs s = (r, s')"
  shows "(r = Inr () \<and> submits E R (verifier_program_id_bytes h) (h_signer h) (ledger_of s) ixs = Some (ledger_of s') \<and>
      (\<exists>es. ledger_run E R (verifier_program_id_bytes h) (ledger_of s) es (ledger_of s') \<and> calls es = ixs)) \<or>
    (r = Inl not_included \<and> submits E R (verifier_program_id_bytes h) (h_signer h) (ledger_of s) ixs = None)"
proof (cases "submits E R (verifier_program_id_bytes h) (h_signer h) (ledger_of s) ixs")
  case None
  with play_submits [OF assms(1), where s = s and ixs = ixs] assms(2) show ?thesis by simp
next
  case (Some L)
  with play_submits [OF assms(1), where s = s and ixs = ixs] assms(2) submits_run [OF Some] show ?thesis by auto
qed

lemma sample_submits:
  "\<exists>L. submits sample_env sample_chain 5 1 (\<lambda>_. sample_blank) sample_calls = Some L"
proof -
  have ex: "runtime_exact sample_hash sample_chain 5" by (rule sample_runtime_exact) simp
  have "refines sample_hash sample_env 5 (set sample_names) (\<lambda>_. sample_blank) spec_init"
    by (rule refines_start [OF sample_untouched])
  moreover have "vacant sample_hash sample_chain 5 (set sample_names) (\<lambda>_. sample_blank)"
    by (simp add: vacant_def sample_runtime_def)
  ultimately show ?thesis
    using run_submits [OF ex _ roomy_borsh stores_borsh sample_inj sample_signer _ _ spec_inv_init _
        sample_spec_calls] sample_run_names(2) by fastforce
qed

theorem harness_reports_ledger_witness:
  "\<exists>L tx es. play sample_hash (sample_sequencer sample_chain) sample_harness sample_calls ((\<lambda>_. sample_blank), None)
       = (Inr (), (L, tx)) \<and>
     ledger_run sample_env sample_chain 5 (\<lambda>_. sample_blank) es L \<and> calls es = sample_calls"
proof -
  obtain r L tx where p: "play sample_hash (sample_sequencer sample_chain) sample_harness sample_calls
      ((\<lambda>_. sample_blank), None) = (r, (L, tx))"
    by (cases "play sample_hash (sample_sequencer sample_chain) sample_harness sample_calls ((\<lambda>_. sample_blank), None)") auto
  have h: "verifier_program_id_bytes sample_harness = 5" "h_signer sample_harness = 1"
    by (simp_all add: sample_harness_def)
  from harness_reports_ledger [where E = sample_env, unfolded borsh_env_sel(1), OF _ p, of sample_chain fst]
  show ?thesis using p sample_sequencer_runs sample_submits by (auto simp: h)
qed

lemma inner_receipt_ok:
  assumes "host_proves H rd Z B" "slice_reader rd" "wf_proof p"
    and "prover_new H m s index action target p (circuit_elf B) = Inr a"
  obtains a' where "assert_inner_receipt_verifies H Z (circuit_image_id B) v a = (Inr (), a')"
    "pr_receipt a' \<noteq> None" "public_inputs_bytes H a' = public_inputs_bytes H a"
proof -
  obtain bs r where pr: "\<And>w. prove H Z w a = (Inr bs, a\<lparr>pr_receipt := Some bs\<rparr>)"
    and r: "bincode_deserialize Z bs = Inr r" "receipt_verify Z r (circuit_image_id B) = Inr ()"
      "journal_of Z r = public_inputs_bytes H a"
    using host_proof [OF assms] by metis
  have k: "public_inputs_bytes H (a\<lparr>pr_receipt := Some bs\<rparr>) = public_inputs_bytes H a"
    using prove_keeps [OF pr] by blast
  then have "assert_inner_receipt_verifies H Z (circuit_image_id B) v a = (Inr (), a\<lparr>pr_receipt := Some bs\<rparr>)"
    using r by (simp add: assert_inner_receipt_verifies_def pr)
  from that [OF this _ k] show thesis by simp
qed

text \<open>
  The bridge from the SDK to the verifier holds. For a prover that \<open>new\<close> accepted and a
  host that proves what the circuit commits, the check of the inner receipt succeeds, caches
  the receipt in the prover and leaves its public inputs as they were.
\<close>

theorem inner_receipt_verifies:
  assumes "host_proves H rd Z B" and "slice_reader rd" and "wf_proof p"
    and "prover_new H m s index action target p (circuit_elf B) = Inr a"
  shows "\<exists>a'. assert_inner_receipt_verifies H Z (circuit_image_id B) v a = (Inr (), a') \<and>
    pr_receipt a' \<noteq> None \<and> public_inputs_bytes H a' = public_inputs_bytes H a"
  using inner_receipt_ok [OF assms] by metis

theorem inner_receipt_verifies_witness:
  "\<exists>p a a'. prover_new sample_hash \<lparr>mem_identity = sample_member\<rparr> sample_snapshot 0 [1, 2] 6 p [] = Inr a \<and>
     assert_inner_receipt_verifies sample_hash sample_host APPROVE_CIRCUIT_IMAGE_ID_PINNED None a = (Inr (), a')"
proof -
  obtain p a where "wf_proof p"
    "prover_new sample_hash \<lparr>mem_identity = sample_member\<rparr> sample_snapshot 0 [1, 2] 6 p [] = Inr a"
    by (rule sample_prover)
  with inner_receipt_verifies [OF sample_host_proves sample_reader, of p "\<lparr>mem_identity = sample_member\<rparr>"
      sample_snapshot 0 "[1, 2]" 6 a None]
  show ?thesis by (auto simp: sample_build_def)
qed

end
