(* ===== verification/End_To_End.thy ===== *)
theory End_To_End
  imports Harness
begin

text \<open>
  The crates together: the SDK's builder, snapshot and provers prepare a script of calls, the
  harness submits it, the program runs it on the ledger. \<open>honours_receipts\<close> is the channel that
  gives a transaction the receipts it relies on. The header of \<open>e2e_tests/tests/lez_full_flow.rs\<close>
  says that the chain as released lacks it for public transactions; both cases are treated.
\<close>

section \<open>The script of one proposal\<close>

text \<open>The calls of the flow, with what the SDK hands out for them.\<close>

definition flow_script ::
  "hasher \<Rightarrow> harness \<Rightarrow> bytes32 \<Rightarrow> multisig_finalized \<Rightarrow> byte list \<Rightarrow> approval_prover list \<Rightarrow> instruction list" where
  "flow_script H h ck f action as =
     [CreateMultisig ck (f_members_root f) (f_m f) (f_n f), CreateVault ck,
      Propose ck 0 action (noop_target_bytes h)] @
     map (\<lambda>a. Approve ck 0 (prover_nullifier H a) (public_inputs_bytes H a)) as @ [Execute ck 0]"

text \<open>A member's prover after its inner receipt was checked.\<close>

definition prover_ready ::
  "hasher \<Rightarrow> ('env, 'r, 'z) receipt_host_scheme \<Rightarrow> build_products \<Rightarrow> string option \<Rightarrow>
   multisig_finalized \<Rightarrow> multisig_state_snapshot \<Rightarrow> byte list \<Rightarrow> bytes32 \<Rightarrow> member \<Rightarrow> approval_prover \<Rightarrow> bool" where
  "prover_ready H Z B v f s action target mem a \<longleftrightarrow>
     (\<exists>p a0. finalized_merkle_proof H f (member_id H mem) = Inr p \<and>
        prover_new H mem s 0 action target p (circuit_elf B) = Inr a0 \<and>
        assert_inner_receipt_verifies H Z (circuit_image_id B) v a0 = (Inr (), a))"

text \<open>What the chain is told by a receipt that the host verified.\<close>

definition honours_receipts ::
  "('env, 'r, 'z) receipt_host_scheme \<Rightarrow> build_products \<Rightarrow> runtime \<Rightarrow> bool" where
  "honours_receipts Z B R \<longleftrightarrow>
     (\<forall>r. receipt_verify Z r (circuit_image_id B) = Inr () \<longrightarrow>
        discharged R APPROVE_CIRCUIT_IMAGE_ID (journal_of Z r))"

lemma checked_receipt:
  assumes "assert_inner_receipt_verifies H Z img v a0 = (Inr (), a)"
  obtains r where "receipt_verify Z r img = Inr ()" "journal_of Z r = public_inputs_bytes H a"
  using assms
  by (auto simp: assert_inner_receipt_verifies_def split_beta Let_def result_simps)

lemma checked_keeps:
  assumes "assert_inner_receipt_verifies H Z img v a0 = (res, a)"
  shows "public_inputs_bytes H a = public_inputs_bytes H a0" "prover_nullifier H a = prover_nullifier H a0"
  using assms prove_keeps [OF prod.collapse [symmetric], of H Z v a0]
  by (auto simp: assert_inner_receipt_verifies_def split_beta Let_def)

text \<open>The public inputs of a member's prover are the ones the verifier expects of its vote.\<close>

lemma ready_vote:
  assumes s: "snapshot_new H pid ck root m' n' 1 = Some (Inr s)"
    and a: "prover_ready H Z B v f s action target mem a"
  shows "prover_nullifier H a =
      identity_nullifier H (mem_identity mem) (in_proposal_id (vote_inputs H pid ck 0 root action target 0))"
    "public_inputs_bytes H a = to_bytes (vote_inputs H pid ck 0 root action target (prover_nullifier H a))"
proof -
  obtain p a0 where p: "finalized_merkle_proof H f (member_id H mem) = Inr p"
    and new: "prover_new H mem s 0 action target p (circuit_elf B) = Inr a0"
    and chk: "assert_inner_receipt_verifies H Z (circuit_image_id B) v a0 = (Inr (), a)"
    using a by (auto simp: prover_ready_def)
  have sn: "s_members_root s = root" "snapshot_proposal_id H s 0 action target =
      in_proposal_id (vote_inputs H pid ck 0 root action target 0)"
    using s by (auto simp: snapshot_new_def derive_address snapshot_proposal_id_def vote_inputs_def Let_def)
  have pi: "prover_public_inputs H a0 = \<lparr>in_members_root = root,
      in_proposal_id = in_proposal_id (vote_inputs H pid ck 0 root action target 0),
      in_nullifier = member_nullifier H mem (in_proposal_id (vote_inputs H pid ck 0 root action target 0))\<rparr>"
    using prover_approves(2) [OF new wf_finalized_proof [OF p]] by (simp add: sn)
  have n: "prover_nullifier H a0 = in_nullifier (prover_public_inputs H a0)"
    by (simp add: prover_nullifier_def prover_public_inputs_def Let_def)
  show "prover_nullifier H a =
      identity_nullifier H (mem_identity mem) (in_proposal_id (vote_inputs H pid ck 0 root action target 0))"
    using pi n by (simp add: checked_keeps [OF chk] member_nullifier_def identity_nullifier_def)
  show "public_inputs_bytes H a = to_bytes (vote_inputs H pid ck 0 root action target (prover_nullifier H a))"
    using pi n checked_keeps [OF chk] by (simp add: public_inputs_bytes_def vote_inputs_def)
qed

text \<open>The script of ready provers is a lifecycle, and its receipts are honoured.\<close>

lemma flow_lifecycle:
  assumes s: "snapshot_new H pid ck (f_members_root f) (f_m f) (f_n f) 1 = Some (Inr s)"
    and as: "list_all2 (prover_ready H Z B v f s action (noop_target_bytes h)) mems as"
  shows "map (prover_nullifier H) as =
      member_nullifiers H pid ck (f_members_root f) action (noop_target_bytes h) (map mem_identity mems)"
    "flow_script H h ck f action as =
      lifecycle H pid ck (f_members_root f) (f_m f) (f_n f) action (noop_target_bytes h) (map (prover_nullifier H) as)"
proof -
  show "map (prover_nullifier H) as =
      member_nullifiers H pid ck (f_members_root f) action (noop_target_bytes h) (map mem_identity mems)"
    using as by (induction rule: list_all2_induct) (simp_all add: member_nullifiers_def ready_vote(1) [OF s])
  have "map (\<lambda>a. Approve ck 0 (prover_nullifier H a) (public_inputs_bytes H a)) as =
      votes_for H pid ck (f_members_root f) action (noop_target_bytes h) (map (prover_nullifier H) as)"
    using as by (induction rule: list_all2_induct) (auto simp: votes_for_def intro: ready_vote(2) [OF s])
  then show "flow_script H h ck f action as =
      lifecycle H pid ck (f_members_root f) (f_m f) (f_n f) action (noop_target_bytes h) (map (prover_nullifier H) as)"
    by (simp add: flow_script_def lifecycle_def)
qed

lemma ready_discharged:
  assumes s: "snapshot_new H pid ck root m' n' 1 = Some (Inr s)"
    and hon: "honours_receipts Z B R"
    and as: "list_all2 (prover_ready H Z B v f s action target) mems as"
  shows "\<forall>nul \<in> set (map (prover_nullifier H) as). discharged R APPROVE_CIRCUIT_IMAGE_ID
    (to_bytes (vote_inputs H pid ck 0 root action target nul))"
  using as
proof (induction rule: list_all2_induct)
  case (Cons mem mems a as)
  then obtain a0 where "assert_inner_receipt_verifies H Z (circuit_image_id B) v a0 = (Inr (), a)"
    by (auto simp: prover_ready_def)
  then obtain r where "receipt_verify Z r (circuit_image_id B) = Inr ()" "journal_of Z r = public_inputs_bytes H a"
    by (rule checked_receipt)
  then have "discharged R APPROVE_CIRCUIT_IMAGE_ID (public_inputs_bytes H a)"
    using hon unfolding honours_receipts_def by metis
  with Cons ready_vote(2) [OF s Cons.hyps(1)] show ?case by simp
qed simp

lemma ready_all:
  assumes "\<forall>x \<in> set xs. \<exists>y. P x y"
  obtains ys where "list_all2 P xs ys"
proof -
  from assms obtain g where "\<forall>x \<in> set xs. P x (g x)" by metis
  then have "list_all2 P xs (map g xs)" by (simp add: list.rel_map list.rel_refl_strong)
  with that show thesis .
qed

text \<open>Every enrolled member can be made ready.\<close>

lemma member_ready:
  assumes inv: "builder_inv H b" and f: "builder_finalize H b = Inr f"
    and room: "length (b_added b) \<le> MAX_LEAVES"
    and mem: "member_id H mem \<in> set (b_added b)" "commitment_bytes (member_id H mem) \<noteq> 0"
    and s: "snapshot_new H pid ck (f_members_root f) m' n' 1 = Some (Inr s)"
    and act: "length action \<le> MAX_ACTION_BYTES_LEN"
    and rd: "slice_reader rd" and host: "host_proves H rd Z B"
  shows "\<exists>a. prover_ready H Z B v f s action target mem a"
proof -
  obtain p where p: "finalized_merkle_proof H f (member_id H mem) = Inr p" "wf_proof p"
    "verify_proof H (f_members_root f) (commitment_bytes (member_id H mem)) p"
    using builder_member_proof [OF inv f mem room] by blast
  moreover have "s_members_root s = f_members_root f" "s_proposal_count s = 1"
    using s by (auto simp: snapshot_new_def derive_address)
  ultimately obtain a0 where a0: "prover_new H mem s 0 action target p (circuit_elf B) = Inr a0"
    using act by (simp add: prover_new_eq commitment_member_id not_le not_less)
  from inner_receipt_ok [OF host rd p(2) this] p(1) a0 show ?thesis
    unfolding prover_ready_def by metis
qed

lemma finalized_quorum:
  assumes "builder_finalize H b = Inr f"
  shows "1 \<le> unat (f_m f)" "unat (f_m f) \<le> unat (f_n f)"
proof -
  have f: "length (b_added b) < 2 ^ 32" "f_m f \<noteq> 0" "unat (f_m f) \<le> length (b_added b)"
    "f_n f = of_nat (length (b_added b))"
    using assms by (auto simp: finalize_eq_Inr)
  show "1 \<le> unat (f_m f)" using f(2) by (metis One_nat_def Suc_leI neq0_conv unat_eq_0)
  show "unat (f_m f) \<le> unat (f_n f)" using f(1,3) by (simp add: f(4) unat_u32_of_nat)
qed

text \<open>Without the channel.\<close>

lemma approve_not_submitted:
  assumes "\<forall>j. \<not> discharged R APPROVE_CIRCUIT_IMAGE_ID j"
  shows "submit E R pid L (Approve ck i nul pi) ids signers = None"
proof (rule ccontr)
  assume "submit E R pid L (Approve ck i nul pi) ids signers \<noteq> None"
  then obtain out where d: "dispatch E (Approve ck i nul pi) (map (load_account L signers) ids) = Some (Inr out)"
    and a: "list_all (\<lambda>(image, journal). discharged R image journal) (assumptions out)"
    by (auto simp: submit_def Let_def split: if_splits option.splits sum.splits)
  obtain x y z w where "map (load_account L signers) ids = [x, y, z, w]"
    using d by (cases "(E, Approve ck i nul pi, map (load_account L signers) ids)" rule: dispatch.cases) auto
  with d a assms show False by (auto simp: approve_eq_Inr output_execute_def)
qed

lemma execute_not_submitted:
  assumes set: "sound_setting E R pid L ixs" and no: "\<forall>j. \<not> discharged R APPROVE_CIRCUIT_IMAGE_ID j"
    and x: "Execute ck i \<in> set ixs"
  shows "submits E R pid signer L ixs = None"
proof (rule ccontr)
  assume "submits E R pid signer L ixs \<noteq> None"
  then obtain L' es where es: "ledger_run E R pid L es L'" "calls es = ixs"
    using submits_run by blast
  have ok: "runtime_ok (sha256 E) R pid" using set by (simp add: sound_setting_def)
  obtain S where S: "spec_run (sha256 E) pid spec_init ixs = Some S"
    using setting_refines [OF set es(1)] es(2) by auto
  from x obtain xs ys where i: "ixs = (xs @ [Execute ck i]) @ ys"
    by (metis split_list append_Cons append_Nil append_assoc)
  from S obtain S1 where q: "spec_run (sha256 E) pid spec_init (xs @ [Execute ck i]) = Some S1"
    unfolding i spec_run_append [of _ _ _ "xs @ [Execute ck i]"] by (auto simp: Option.bind_eq_Some_conv)
  have sub: "set xs \<subseteq> set (calls es)" by (simp add: es(2) i subset_eq)
  from spec_execute_quorum [OF q] obtain root m' action target and nuls :: "bytes32 list" where
    q: "1 \<le> unat (m' :: u8)" "unat m' \<le> length nuls"
    "\<forall>nul \<in> set nuls. Approve ck i nul (to_bytes (vote_inputs (sha256 E) pid ck i root action target nul)) \<in> set xs"
    by metis
  then have "hd nuls \<in> set nuls" by (cases nuls) auto
  with q(3) sub run_discharged [OF ok es(1)] no show False by blast
qed

section \<open>Properties of the whole flow\<close>

text \<open>
  C10: A quorum of the SDK's members gets its proposal executed, on a chain with the receipt
  channel. Take an instance finalized by the SDK's builder, its snapshot after one proposal,
  and at least \<open>m\<close> enrolled members with different nullifiers. Where the host finds proofs, every
  member's prover is made and its receipt checked; and where the chain honours such receipts,
  runs the program and is fresh at the addresses concerned, the script of creating the instance
  and the vault, proposing, one approval per prover and executing goes through to the end, and
  then the stored proposal is marked executed with that many approvals.
\<close>

theorem sdk_quorum_executes:
  assumes "builder_step\<^sup>*\<^sup>* (builder_new (sha256 E) m') b" and "builder_finalize (sha256 E) b = Inr f"
    and "length (b_added b) \<le> MAX_LEAVES"
    and "snapshot_new (sha256 E) pid ck (f_members_root f) (f_m f) (f_n f) 1 = Some (Inr s)"
    and "\<forall>mem \<in> set mems. member_id (sha256 E) mem \<in> set (b_added b) \<and>
           commitment_bytes (member_id (sha256 E) mem) \<noteq> 0"
    and "nuls = member_nullifiers (sha256 E) pid ck (f_members_root f) action (noop_target_bytes h)
           (map mem_identity mems)"
    and "distinct nuls" and "unat (f_m f) \<le> length mems" and "length mems < 2 ^ 32"
    and "length action \<le> MAX_ACTION_BYTES_LEN"
    and "slice_reader rd" and "host_proves (sha256 E) rd Z B" and "honours_receipts Z B R"
    and "verifier_program_id_bytes h = pid" and "sequencer_runs Q h E R pid ledger_of"
    and "live_setting E R pid (ledger_of st) (h_signer h)
           (lifecycle (sha256 E) pid ck (f_members_root f) (f_m f) (f_n f) action (noop_target_bytes h) nuls)"
  shows "\<exists>as st' p. list_all2 (prover_ready (sha256 E) Z B v f s action (noop_target_bytes h)) mems as \<and>
    play (sha256 E) Q h (flow_script (sha256 E) h ck f action as) st = (Inr (), st') \<and>
    proposal_from_slice E (acc_data (ledger_of st' (address (sha256 E) pid (ProposalOf ck 0)))) = Some p \<and>
    executed p \<and> unat (approvals_count p) = length mems"
proof -
  have inv: "builder_inv (sha256 E) b" using builder_sys.inv_reachable [OF _ assms(1)] by blast
  have "\<forall>mem \<in> set mems. \<exists>a. prover_ready (sha256 E) Z B v f s action (noop_target_bytes h) mem a"
    using member_ready [OF inv assms(2,3) _ _ assms(4,10-12)] assms(5) by blast
  then obtain as where as: "list_all2 (prover_ready (sha256 E) Z B v f s action (noop_target_bytes h)) mems as"
    by (rule ready_all)
  have n: "map (prover_nullifier (sha256 E)) as = nuls"
    using flow_lifecycle(1) [OF assms(4) as] assms(6) by simp
  have l: "length nuls = length mems" by (simp add: assms(6) member_nullifiers_def)
  have d: "\<forall>nul \<in> set nuls. discharged R APPROVE_CIRCUIT_IMAGE_ID
      (to_bytes (vote_inputs (sha256 E) pid ck 0 (f_members_root f) action (noop_target_bytes h) nul))"
    using ready_discharged [OF assms(4,13) as] by (simp only: n)
  from lifecycle_submits [OF assms(16) finalized_quorum [OF assms(2)] assms(10,7) _ _ d] assms(8,9) l
  obtain L p where r: "submits E R pid (h_signer h) (ledger_of st)
      (flow_script (sha256 E) h ck f action as) = Some L"
    and p: "proposal_from_slice E (acc_data (L (address (sha256 E) pid (ProposalOf ck 0)))) = Some p"
      "executed p" "unat (approvals_count p) = length mems"
    using flow_lifecycle(2) [OF assms(4) as] by (auto simp: n)
  from play_submits [OF assms(15) [folded assms(14)], where s = st] r assms(14) obtain st' where
    "play (sha256 E) Q h (flow_script (sha256 E) h ck f action as) st = (Inr (), st')" "ledger_of st' = L"
    by (fastforce split: option.splits)
  with as p show ?thesis by blast
qed

text \<open>
  Without that channel no vote lands and nothing executes. If the chain discharges no
  assumption on the approve circuit, the harness's \<open>approve\<close> answers that the transaction was
  not included, whatever it is given, and leaves the ledger as it was; and no script that
  contains an \<open>execute\<close> goes through.
\<close>

theorem no_channel_no_execution:
  assumes "sequencer_runs Q h E R (verifier_program_id_bytes h) ledger_of"
    and "\<forall>j. \<not> discharged R APPROVE_CIRCUIT_IMAGE_ID j"
    and "sound_setting E R (verifier_program_id_bytes h) (ledger_of st) ixs" and "Execute ck i \<in> set ixs"
  shows "(\<exists>st'. harness_approve (sha256 E) Q h ck' i' nul pi st = Some (Inl not_included, st') \<and>
      ledger_of st' = ledger_of st) \<and>
    fst (play (sha256 E) Q h ixs st) = Inl not_included"
proof -
  have "\<exists>st'. harness_submit Q h ids (Approve ck' i' nul pi) st = (Inl not_included, st') \<and>
      ledger_of st' = ledger_of st" for ids
    using harness_submit_runs [OF assms(1), where s = st and ix = "Approve ck' i' nul pi" and ids = ids]
    by (simp add: approve_not_submitted [OF assms(2)])
  then have "\<exists>st'. harness_approve (sha256 E) Q h ck' i' nul pi st = Some (Inl not_included, st') \<and>
      ledger_of st' = ledger_of st"
    by (simp add: harness_approve_def derive_address Let_def)
  moreover have "fst (play (sha256 E) Q h ixs st) = Inl not_included"
    using play_submits [OF assms(1), where s = st and ixs = ixs] execute_not_submitted [OF assms(3,2,4)]
    by simp
  ultimately show ?thesis ..
qed

text \<open>A chain that believes every receipt of the circuit.\<close>

definition sample_trusting :: runtime where
  "sample_trusting = (sample_runtime [])\<lparr>discharged := \<lambda>image journal. image = APPROVE_CIRCUIT_IMAGE_ID\<rparr>"

lemma runtime_exact_discharged: "runtime_exact H (R\<lparr>discharged := d\<rparr>) pid \<longleftrightarrow> runtime_exact H R pid"
proof -
  have "attr_holds H (R\<lparr>discharged := d\<rparr>) = attr_holds H R" by (simp add: fun_eq_iff attr_holds_def)
  then show ?thesis by (simp add: runtime_exact_def runtime_ok_def)
qed

lemma sample_trusting_exact: "runtime_exact sample_hash sample_trusting 5"
  unfolding sample_trusting_def runtime_exact_discharged by (rule sample_runtime_exact) simp

lemma sample_trusting_live:
  assumes "set (run_names ixs) = set sample_names"
  shows "live_setting sample_env sample_trusting 5 (\<lambda>_. sample_blank) 1 ixs"
proof -
  have "collision_free sample_hash (address_queries sample_hash 5 ixs)"
    by (rule collision_free_subset [OF sample_collision_free])
      (use assms in \<open>auto simp: address_queries_def\<close>)
  then show ?thesis
    using sample_trusting_exact stores_borsh roomy_borsh sample_signer
    by (auto simp: live_setting_def assms) (simp_all add: sample_trusting_def sample_runtime_def)
qed

theorem sdk_quorum_executes_witness:
  "\<exists>b f as st' p. builder_step\<^sup>*\<^sup>* (builder_new sample_hash 1) b \<and> builder_finalize sample_hash b = Inr f \<and>
     length as = 1 \<and>
     play sample_hash (sample_sequencer sample_trusting) sample_harness
       (flow_script sample_hash sample_harness 9 f [1] as) ((\<lambda>_. sample_blank), None) = (Inr (), st') \<and>
     proposal_from_slice sample_env (acc_data (fst st' (address sample_hash 5 (ProposalOf 9 0)))) = Some p \<and>
     executed p \<and> unat (approvals_count p) = 1"
proof -
  obtain b where b: "builder_step\<^sup>*\<^sup>* (builder_new sample_hash 1) b" "b_added b = [IdentityCommitment 7]"
    "b_m b = 1" by (rule sample_builder)
  then obtain f where f: "builder_finalize sample_hash b = Inr f" and fm: "f_m f = 1"
    by (auto simp: finalize_eq_Inr)
  obtain s where s: "snapshot_new sample_hash 5 9 (f_members_root f) (f_m f) (f_n f) 1 = Some (Inr s)"
    by (simp add: snapshot_new_def derive_address)
  have i: "member_id sample_hash \<lparr>mem_identity = sample_member\<rparr> = IdentityCommitment 7"
    by (simp add: member_id_def sample_member)
  have nuls: "member_nullifiers sample_hash 5 9 (f_members_root f) [1] 3 [sample_member] = [sample_nullifier]"
    by (simp add: member_nullifiers_def sample_nullifier_def identity_nullifier_def vote_inputs_def)
  have hon: "honours_receipts sample_host sample_build sample_trusting"
    by (simp add: honours_receipts_def sample_trusting_def)
  have live: "live_setting sample_env sample_trusting 5 (\<lambda>_. sample_blank) 1
      (lifecycle sample_hash 5 9 (f_members_root f) (f_m f) (f_n f) [1] 3 [sample_nullifier])"
    by (rule sample_trusting_live)
      (auto simp: run_names_def lifecycle_def votes_for_def sample_names_def)
  have "length (b_added b) \<le> MAX_LEAVES" "length [1 :: 8 word] \<le> MAX_ACTION_BYTES_LEN"
    by (simp_all add: b(2) MAX_LEAVES_def MERKLE_DEPTH_def MAX_ACTION_BYTES_LEN_def)
  from sdk_quorum_executes [where E = sample_env and h = sample_harness and pid = 5 and ck = 9
      and ledger_of = fst and st = "((\<lambda>_. sample_blank), None)" and v = None
      and mems = "[\<lparr>mem_identity = sample_member\<rparr>]" and nuls = "[sample_nullifier]",
      unfolded borsh_env_sel(1), OF b(1) f this(1) s _ _ _ _ _ this(2) sample_reader sample_host_proves hon
      _ sample_sequencer_runs]
  obtain as st' p where as: "list_all2 (prover_ready sample_hash sample_host sample_build None f s [1] 3) [\<lparr>mem_identity = sample_member\<rparr>] as"
    and r: "play sample_hash (sample_sequencer sample_trusting) sample_harness
       (flow_script sample_hash sample_harness 9 f [1] as) ((\<lambda>_. sample_blank), None) = (Inr (), st')"
    "proposal_from_slice sample_env (acc_data (fst st' (address sample_hash 5 (ProposalOf 9 0)))) = Some p"
    "executed p" "unat (approvals_count p) = 1"
    using live nuls by (auto simp: b(2) i fm sample_harness_def)
  have "length as = 1" using list_all2_lengthD [OF as] by simp
  with b(1) f r show ?thesis by blast
qed

theorem no_channel_no_execution_witness:
  "(\<exists>st'. harness_approve sample_hash (sample_sequencer (sample_runtime [])) sample_harness 9 0
      sample_nullifier (sample_vote sample_nullifier) ((\<lambda>_. sample_blank), None) = Some (Inl not_included, st') \<and>
      fst st' = (\<lambda>_. sample_blank)) \<and>
   fst (play sample_hash (sample_sequencer (sample_runtime [])) sample_harness sample_calls
     ((\<lambda>_. sample_blank), None)) = Inl not_included"
proof -
  have h: "verifier_program_id_bytes sample_harness = 5" by (simp add: sample_harness_def)
  have s: "sound_setting sample_env (sample_runtime []) 5 (\<lambda>_. sample_blank) sample_calls"
    using sample_setting [OF sample_run_names(2)] sample_runtime_exact [of 5 "[]"]
    by (simp add: sound_setting_def runtime_exact_def)
  have "\<forall>j. \<not> discharged (sample_runtime []) APPROVE_CIRCUIT_IMAGE_ID j" by (simp add: sample_runtime_def)
  from no_channel_no_execution [where E = sample_env and h = sample_harness, unfolded h borsh_env_sel(1),
      OF sample_sequencer_runs this, of "((\<lambda>_. sample_blank), None)" sample_calls 9 0] s
  show ?thesis by (simp add: sample_calls_def)
qed

end
