(* ===== verification/Guest_Build.thy ===== *)
theory Guest_Build
  imports Quickstart_Args
begin

text \<open>
  The build scripts of the guests (\<open>methods/build.rs\<close>, \<open>e2e_tests/build.rs\<close>) and the flag
  \<open>BUILD_USED_DOCKER\<close> that \<open>methods/src/lib.rs\<close> derives from what the first one prints. A script
  is a function from the process environment to what the rest of the build sees: the
  environment that the nested compilation inherits, the lines printed for cargo, and the call
  of \<open>risc0_build\<close> that compiles the guests. The two builders of \<open>risc0_build\<close> are the record
  \<open>risc0_build\<close>; an \<open>expect\<close> that fails is \<open>None\<close>. A path is the list of its components, a
  value of the environment the list of its bytes (a value that is not UTF-8, which
  \<open>std::env::var\<close> refuses, equals none of the literals compared with).
\<close>

type_synonym path = "string list"
type_synonym environment = "string \<Rightarrow> string option"

definition set_var :: "string \<Rightarrow> string \<Rightarrow> environment \<Rightarrow> environment" where
  "set_var k v env = env(k \<mapsto> v)"

definition remove_var :: "string \<Rightarrow> environment \<Rightarrow> environment" where
  "remove_var k env = env(k := None)"

text \<open>\<open>Path::parent\<close> of an absolute path, \<open>None\<close> for the root.\<close>

definition path_parent :: "path \<Rightarrow> path option" where
  "path_parent p = (if p = [] then None else Some (butlast p))"

definition path_join :: "path \<Rightarrow> string \<Rightarrow> path" where
  "path_join p name = p @ [name]"

text \<open>What is set on \<open>DockerOptionsBuilder::default()\<close> before \<open>build()\<close>.\<close>

record docker_options_builder =
  root_dir :: path
  docker_container_tag :: string
  docker_env :: "(string \<times> string) list option"

record ('d, 'g) risc0_build =
  docker_options_build :: "docker_options_builder \<Rightarrow> string + 'd"
  guest_options_build :: "'d \<Rightarrow> string + 'g"

datatype 'g embed_call = Embed_Methods | Embed_Methods_With_Options "string \<rightharpoonup> 'g"

record 'g build_run =
  nested_env :: environment
  cargo_lines :: "string list"
  embed_call :: "'g embed_call"

definition expect :: "string + 'a \<Rightarrow> 'a option" where
  "expect r = (case r of Inl e \<Rightarrow> None | Inr x \<Rightarrow> Some x)"

lemma expect_eq_Some [simp]: "expect r = Some x \<longleftrightarrow> r = Inr x"
  by (simp add: expect_def split: sum.splits)

section \<open>The scripts\<close>

text \<open>
  Both scripts ask for a Docker build in the same way, and both pin the same container
  (\<open>GUEST_DOCKER_TAG\<close>).
\<close>

definition use_docker :: "environment \<Rightarrow> bool" where
  "use_docker env \<longleftrightarrow>
     env ''RISC0_USE_DOCKER'' \<in> {Some ''1'', Some ''true'', Some ''yes''}"

definition GUEST_CFLAGS :: string where
  "GUEST_CFLAGS = ''-march=rv32im -mabi=ilp32 -ffunction-sections -fdata-sections -fPIC -O3''"

definition GUEST_PACKAGE :: string where
  "GUEST_PACKAGE = ''approve_circuit_guest''"

definition GUEST_DOCKER_TAG :: string where
  "GUEST_DOCKER_TAG = ''r0.1.91.1''"

definition methods_build ::
  "('d, 'g) risc0_build \<Rightarrow> path \<Rightarrow> environment \<Rightarrow> 'g build_run option" where
  "methods_build B manifest_dir env =
     (let env = remove_var ''RUSTC_WORKSPACE_WRAPPER'' env;
          env = remove_var ''RUSTC_WRAPPER'' env;
          env = set_var ''CRATE_CC_NO_DEFAULTS'' ''1'' env;
          env = set_var ''CFLAGS_riscv32im_risc0_zkvm_elf'' GUEST_CFLAGS env;
          env = set_var ''TARGET_CFLAGS'' GUEST_CFLAGS env;
          docker = use_docker env;
          out = (if docker then [''cargo:rustc-env=METHODS_BUILD_USED_DOCKER=1''] else []);
          out = out @ [''cargo:rerun-if-env-changed=RISC0_USE_DOCKER'']
      in if docker then
           Option.bind (path_parent manifest_dir) (\<lambda>workspace_root.
           Option.bind (expect (docker_options_build B
               \<lparr>root_dir = workspace_root, docker_container_tag = GUEST_DOCKER_TAG,
                docker_env = Some [(''CRATE_CC_NO_DEFAULTS'', ''1''),
                                   (''CFLAGS_riscv32im_risc0_zkvm_elf'', GUEST_CFLAGS)]\<rparr>)) (\<lambda>docker_opts.
           Option.bind (expect (guest_options_build B docker_opts)) (\<lambda>guest_opts.
           Some \<lparr>nested_env = env, cargo_lines = out,
                 embed_call = Embed_Methods_With_Options [GUEST_PACKAGE \<mapsto> guest_opts]\<rparr>)))
         else Some \<lparr>nested_env = env, cargo_lines = out, embed_call = Embed_Methods\<rparr>)"

definition NOOP_GUEST_PACKAGE :: string where
  "NOOP_GUEST_PACKAGE = ''noop_guest''"

definition noop_build ::
  "('d, 'g) risc0_build \<Rightarrow> path \<Rightarrow> environment \<Rightarrow> 'g build_run option" where
  "noop_build B manifest_dir env =
     (let env = remove_var ''RUSTC_WORKSPACE_WRAPPER'' env;
          env = remove_var ''RUSTC_WRAPPER'' env;
          docker = use_docker env;
          out = [''cargo:rerun-if-env-changed=RISC0_USE_DOCKER'']
      in if docker then
           let guest_root = path_join manifest_dir ''guest''
           in Option.bind (expect (docker_options_build B
               \<lparr>root_dir = guest_root, docker_container_tag = GUEST_DOCKER_TAG, docker_env = None\<rparr>)) (\<lambda>docker_opts.
              Option.bind (expect (guest_options_build B docker_opts)) (\<lambda>guest_opts.
              Some \<lparr>nested_env = env, cargo_lines = out,
                    embed_call = Embed_Methods_With_Options [NOOP_GUEST_PACKAGE \<mapsto> guest_opts]\<rparr>))
         else Some \<lparr>nested_env = env, cargo_lines = out, embed_call = Embed_Methods\<rparr>)"

section \<open>The flag of the build\<close>

text \<open>
  The environment in which cargo compiles the crate after its script: the line
  \<open>cargo:rustc-env=K=V\<close> sets \<open>K\<close> on top of the environment that cargo itself was started in.
  \<open>option_env!\<close> reads it.
\<close>

definition RUSTC_ENV :: string where
  "RUSTC_ENV = ''cargo:rustc-env=''"

definition rustc_env_line :: "string \<Rightarrow> environment \<Rightarrow> environment" where
  "rustc_env_line line env =
     (if take (length RUSTC_ENV) line = RUSTC_ENV
      then let kv = drop (length RUSTC_ENV) line
           in env(takeWhile (\<lambda>c. c \<noteq> CHR ''='') kv \<mapsto> tl (dropWhile (\<lambda>c. c \<noteq> CHR ''='') kv))
      else env)"

definition rustc_env :: "string list \<Rightarrow> environment \<Rightarrow> environment" where
  "rustc_env out env = fold rustc_env_line out env"

definition BUILD_USED_DOCKER :: "environment \<Rightarrow> bool" where
  "BUILD_USED_DOCKER rustc \<longleftrightarrow> rustc ''METHODS_BUILD_USED_DOCKER'' \<noteq> None"

section \<open>What the scripts do\<close>

text \<open>None of the variables that the scripts set or remove is the one that selects the mode.\<close>

lemma use_docker_update [simp]:
  "k \<noteq> ''RISC0_USE_DOCKER'' \<Longrightarrow> use_docker (env(k := v)) = use_docker env"
  by (simp add: use_docker_def)

lemma methods_build_eq:
  "methods_build B manifest_dir env = Some r \<longleftrightarrow>
     nested_env r = env(''RUSTC_WORKSPACE_WRAPPER'' := None, ''RUSTC_WRAPPER'' := None,
       ''CRATE_CC_NO_DEFAULTS'' \<mapsto> ''1'', ''CFLAGS_riscv32im_risc0_zkvm_elf'' \<mapsto> GUEST_CFLAGS,
       ''TARGET_CFLAGS'' \<mapsto> GUEST_CFLAGS) \<and>
     (if use_docker env
      then cargo_lines r = [''cargo:rustc-env=METHODS_BUILD_USED_DOCKER=1'',
             ''cargo:rerun-if-env-changed=RISC0_USE_DOCKER''] \<and> manifest_dir \<noteq> [] \<and>
           (\<exists>d g. docker_options_build B
                \<lparr>root_dir = butlast manifest_dir, docker_container_tag = GUEST_DOCKER_TAG,
                 docker_env = Some [(''CRATE_CC_NO_DEFAULTS'', ''1''),
                                    (''CFLAGS_riscv32im_risc0_zkvm_elf'', GUEST_CFLAGS)]\<rparr> = Inr d \<and>
              guest_options_build B d = Inr g \<and>
              embed_call r = Embed_Methods_With_Options [GUEST_PACKAGE \<mapsto> g])
      else cargo_lines r = [''cargo:rerun-if-env-changed=RISC0_USE_DOCKER''] \<and> embed_call r = Embed_Methods)"
  by (cases r) (auto simp: methods_build_def Let_def remove_var_def set_var_def path_parent_def
      bind_eq_Some_conv)

lemma rustc_env_flag:
  "rustc_env [''cargo:rustc-env=METHODS_BUILD_USED_DOCKER=1'', ''cargo:rerun-if-env-changed=RISC0_USE_DOCKER''] a
     = a(''METHODS_BUILD_USED_DOCKER'' \<mapsto> ''1'')"
  "rustc_env [''cargo:rerun-if-env-changed=RISC0_USE_DOCKER''] a = a"
  by (simp_all add: rustc_env_def rustc_env_line_def RUSTC_ENV_def)

text \<open>
  The build mode is what \<open>RISC0_USE_DOCKER\<close> asks for, the wrappers of the host's toolchain never
  reach the nested compilation, and a Docker build is host-independent: two builds of the same
  checkout that ask for Docker make the same call of \<open>risc0_build\<close>, whatever else the two
  environments hold. The flag \<open>BUILD_USED_DOCKER\<close> is true of every Docker build; of a host
  build it is true exactly when the variable was set in the environment of cargo already.
\<close>

theorem docker_builds_reproducible:
  assumes "methods_build B manifest_dir env = Some r" and "methods_build B manifest_dir env' = Some r'"
  shows "nested_env r ''RUSTC_WRAPPER'' = None \<and> nested_env r ''RUSTC_WORKSPACE_WRAPPER'' = None \<and>
    (embed_call r \<noteq> Embed_Methods \<longleftrightarrow> use_docker env) \<and>
    (use_docker env = use_docker env' \<longrightarrow> embed_call r = embed_call r' \<and> cargo_lines r = cargo_lines r') \<and>
    (BUILD_USED_DOCKER (rustc_env (cargo_lines r) ambient) \<longleftrightarrow> use_docker env \<or> BUILD_USED_DOCKER ambient)"
proof -
  note r = assms(1) [unfolded methods_build_eq] and r' = assms(2) [unfolded methods_build_eq]
  have "nested_env r ''RUSTC_WRAPPER'' = None" "nested_env r ''RUSTC_WORKSPACE_WRAPPER'' = None"
    using r by simp_all
  moreover have "embed_call r \<noteq> Embed_Methods \<longleftrightarrow> use_docker env"
    using r by (auto split: if_splits)
  moreover have "embed_call r = embed_call r' \<and> cargo_lines r = cargo_lines r'" if "use_docker env = use_docker env'"
    using r r' that by (auto split: if_splits)
  moreover have "BUILD_USED_DOCKER (rustc_env (cargo_lines r) ambient) \<longleftrightarrow> use_docker env \<or> BUILD_USED_DOCKER ambient"
    using r by (auto simp: rustc_env_flag BUILD_USED_DOCKER_def split: if_splits)
  ultimately show ?thesis by blast
qed

definition sample_risc0_build :: "(docker_options_builder, docker_options_builder) risc0_build" where
  "sample_risc0_build =
     \<lparr>docker_options_build = \<lambda>b. try_bind (ensure (docker_container_tag b \<noteq> []) ''no tag'') (\<lambda>_. Inr b),
      guest_options_build = Inr\<rparr>"

theorem docker_builds_reproducible_witness:
  "\<exists>r r'. methods_build sample_risc0_build [''repo'', ''methods''] [''RISC0_USE_DOCKER'' \<mapsto> ''1''] = Some r \<and>
     methods_build sample_risc0_build [''repo'', ''methods'']
       [''RISC0_USE_DOCKER'' \<mapsto> ''true'', ''RUSTC_WRAPPER'' \<mapsto> ''clippy-driver''] = Some r' \<and>
     embed_call r = embed_call r' \<and> nested_env r' ''RUSTC_WRAPPER'' = None \<and>
     BUILD_USED_DOCKER (rustc_env (cargo_lines r) Map.empty)"
proof -
  let ?B = sample_risc0_build and ?p = "[''repo'', ''methods'']" and ?e = "[''RISC0_USE_DOCKER'' \<mapsto> ''1'']"
  let ?f = "[''RISC0_USE_DOCKER'' \<mapsto> ''true'', ''RUSTC_WRAPPER'' \<mapsto> ''clippy-driver'']"
  obtain r where r: "methods_build ?B ?p ?e = Some r"
    by (simp add: methods_build_def sample_risc0_build_def use_docker_def set_var_def remove_var_def
        path_parent_def expect_def GUEST_DOCKER_TAG_def)
  obtain r' where r': "methods_build ?B ?p ?f = Some r'"
    by (simp add: methods_build_def sample_risc0_build_def use_docker_def set_var_def remove_var_def
        path_parent_def expect_def GUEST_DOCKER_TAG_def)
  have d: "use_docker ?e" "use_docker ?f" by (simp_all add: use_docker_def)
  from docker_builds_reproducible [OF r r', of Map.empty] docker_builds_reproducible [OF r' r, of Map.empty]
  show ?thesis using r r' d by blast
qed

end
