(* ===== verification/Harness_Boot.thy ===== *)
theory Harness_Boot
  imports Harness Guest_Build
begin

text \<open>
  Bringing the Layer-B stack up (\<open>e2e_tests/src/harness.rs\<close>: \<open>bootstrap\<close>, \<open>deploy_program\<close>,
  \<open>register_public_account\<close>, \<open>get_account\<close>) and the program it deploys as the target of every
  proposal (\<open>e2e_tests/guest/src/bin/noop.rs\<close>). What comes from outside is the record
  \<open>test_stack\<close>: the test context, temporary directories, the file system, the wallet's
  commands. All of it works on one state, which includes the host's files and the chain.
  A \<open>TempDir\<close> removes its directory when it is dropped, which also happens on an error.
\<close>

section \<open>Bootstrap\<close>

datatype command =
    DeployProgram (binary_filepath: path)
  | NewPublicAccount (cci: "string option") (account_label: "string option")

text \<open>The other return values of the wallet, by their \<open>Debug\<close> output.\<close>

datatype subcommand_return = RegisterAccount bytes32 | OtherReturn string

record ('s, 'prog, 'acct) test_stack =
  context_new :: "string + 's"
  program_new :: "byte list \<Rightarrow> string + 'prog"
  program_id :: "'prog \<Rightarrow> u32 list"
  make_tempdir :: "'s \<Rightarrow> (string + path) \<times> 's"
  remove_tempdir :: "path \<Rightarrow> 's \<Rightarrow> 's"
  write_file :: "path \<Rightarrow> byte list \<Rightarrow> 's \<Rightarrow> (string + unit) \<times> 's"
  execute_subcommand :: "command \<Rightarrow> 's \<Rightarrow> (string + subcommand_return) \<times> 's"
  sleep_block :: "'s \<Rightarrow> 's"
  rpc_get_account :: "'s \<Rightarrow> bytes32 \<Rightarrow> string + 'acct"

text \<open>What the build embeds besides the approve circuit.\<close>

record e2e_products = build_products +
  verifier_elf :: "byte list"
  verifier_image_id :: "u32 list"
  noop_elf :: "byte list"

definition deploy_program ::
  "('s, 'prog, 'acct) test_stack \<Rightarrow> string \<Rightarrow> byte list \<Rightarrow> 's \<Rightarrow> (anyhow + unit) \<times> 's" where
  "deploy_program T name elf s =
     (case make_tempdir T s of
        (Inl e, s) \<Rightarrow> (Inl [''tempdir for program ELF'', e], s)
      | (Inr dir, s) \<Rightarrow>
          let path = path_join dir name;
              (r, s) = (case write_file T path elf s of
                  (Inl e, s) \<Rightarrow> (Inl [''write '' @ name, e], s)
                | (Inr _, s) \<Rightarrow>
                    (case execute_subcommand T (DeployProgram path) s of
                       (Inl e, s) \<Rightarrow> (Inl [''DeployProgram '' @ name, e], s)
                     | (Inr _, s) \<Rightarrow> (Inr (), s)))
          in (r, remove_tempdir T dir s))"

definition register_public_account ::
  "('s, 'prog, 'acct) test_stack \<Rightarrow> 's \<Rightarrow> (anyhow + bytes32) \<times> 's" where
  "register_public_account T s =
     (case execute_subcommand T (NewPublicAccount None None) s of
        (Inl e, s) \<Rightarrow> (Inl [''register public account'', e], s)
      | (Inr ret, s) \<Rightarrow>
          (case ret of
             RegisterAccount aid \<Rightarrow> (Inr aid, s)
           | OtherReturn other \<Rightarrow> (Inl [''expected RegisterAccount, got '' @ other], s)))"

text \<open>\<open>try_state\<close> is \<open>?\<close> on a call that also changes the context, which an error drops.\<close>

definition try_state :: "('e + 'a) \<times> 's \<Rightarrow> ('a \<Rightarrow> 's \<Rightarrow> 'e + 'b) \<Rightarrow> 'e + 'b" where
  "try_state rs k = try_bind (fst rs) (\<lambda>x. k x (snd rs))"

definition bootstrap ::
  "('s, 'prog, 'acct) test_stack \<Rightarrow> 'z e2e_products_scheme \<Rightarrow> anyhow + harness \<times> 's" where
  "bootstrap T B =
     try_bind (host_context ''TestContext bring-up failed'' (context_new T)) (\<lambda>ctx.
     try_bind (host_context ''verifier Program::new'' (program_new T (verifier_elf B))) (\<lambda>verifier_program.
     try_bind (host_context ''noop Program::new'' (program_new T (noop_elf B))) (\<lambda>noop_program.
     let verifier_id = program_id T verifier_program;
         verifier_id_bytes = program_id_to_core_bytes (verifier_image_id B);
         noop_bytes = program_id_to_core_bytes (noop_id B)
     in try_state (deploy_program T ''private_multisig.bin'' (verifier_elf B) ctx) (\<lambda>_ ctx.
        try_state (deploy_program T ''noop.bin'' (noop_elf B) ctx) (\<lambda>_ ctx.
        let ctx = sleep_block T ctx
        in try_state (register_public_account T ctx) (\<lambda>signer ctx.
           Inr (\<lparr>verifier_program_id = verifier_id, verifier_program_id_bytes = verifier_id_bytes,
                 noop_target_bytes = noop_bytes, h_signer = signer\<rparr>, ctx)))))))"

text \<open>\<open>AccountId::new\<close> wraps the 32 bytes as they are.\<close>

definition to_nssa :: "bytes32 \<Rightarrow> bytes32" where
  "to_nssa bs = bs"

definition harness_get_account ::
  "('s, 'prog, 'acct) test_stack \<Rightarrow> 's \<Rightarrow> bytes32 \<Rightarrow> anyhow + 'acct" where
  "harness_get_account T ctx pda = host_context ''get_account RPC'' (rpc_get_account T ctx (to_nssa pda))"

section \<open>The noop program\<close>

text \<open>
  The inputs that \<open>nssa_core\<close> reads for a program, and the arguments of the output it writes.
  \<open>post\<close> is \<open>AccountPostState::new\<close>.
\<close>

record 'id program_input =
  self_program_id :: 'id
  caller_program_id :: "'id option"
  input_pre_states :: "account_with_metadata list"

record ('id, 'post) program_output =
  out_self :: 'id
  out_caller :: "'id option"
  out_instruction :: "u32 list"
  out_pre_states :: "account_with_metadata list"
  out_post_states :: "'post list"

definition noop_main ::
  "(account \<Rightarrow> 'post) \<Rightarrow> 'id program_input \<times> u32 list \<Rightarrow> ('id, 'post) program_output" where
  "noop_main post input =
     (case input of (inp, instruction_words) \<Rightarrow>
        let post_states = map (\<lambda>account. post (acc account)) (input_pre_states inp)
        in \<lparr>out_self = self_program_id inp, out_caller = caller_program_id inp,
            out_instruction = instruction_words, out_pre_states = input_pre_states inp,
            out_post_states = post_states\<rparr>)"

section \<open>What bootstrap leaves behind\<close>

text \<open>
  The documented behaviour of the host, in terms of the files, the programs deployed on the
  chain (in order) and the accounts of the wallet: a fresh temporary directory holds no file
  and is removed with everything below it, writing a file writes it, the wallet deploys what
  the file holds when the command runs, and a new account is new.
\<close>

definition below :: "path \<Rightarrow> path \<Rightarrow> bool" where
  "below dir p \<longleftrightarrow> take (length dir) p = dir"

definition stack_ok ::
  "('s, 'prog, 'acct) test_stack \<Rightarrow> ('s \<Rightarrow> path \<Rightarrow> byte list option) \<Rightarrow> ('s \<Rightarrow> byte list list) \<Rightarrow>
   ('s \<Rightarrow> bytes32 set) \<Rightarrow> bool" where
  "stack_ok T files deployed accounts \<longleftrightarrow>
     (\<forall>s dir s'. make_tempdir T s = (Inr dir, s') \<longrightarrow>
        files s' = files s \<and> deployed s' = deployed s \<and> accounts s' = accounts s) \<and>
     (\<forall>s dir s' p. make_tempdir T s = (Inr dir, s') \<longrightarrow> below dir p \<longrightarrow> files s p = None) \<and>
     (\<forall>p bs s s'. write_file T p bs s = (Inr (), s') \<longrightarrow>
        files s' = (files s)(p \<mapsto> bs) \<and> deployed s' = deployed s \<and> accounts s' = accounts s) \<and>
     (\<forall>p s r s'. execute_subcommand T (DeployProgram p) s = (Inr r, s') \<longrightarrow>
        (\<exists>elf. files s p = Some elf \<and> deployed s' = deployed s @ [elf] \<and>
           files s' = files s \<and> accounts s' = accounts s)) \<and>
     (\<forall>c l s a s'. execute_subcommand T (NewPublicAccount c l) s = (Inr (RegisterAccount a), s') \<longrightarrow>
        a \<notin> accounts s \<and> accounts s' = insert a (accounts s) \<and>
        files s' = files s \<and> deployed s' = deployed s) \<and>
     (\<forall>dir s. files (remove_tempdir T dir s) = (\<lambda>p. if below dir p then None else files s p)) \<and>
     (\<forall>dir s. deployed (remove_tempdir T dir s) = deployed s) \<and>
     (\<forall>dir s. accounts (remove_tempdir T dir s) = accounts s) \<and>
     (\<forall>s. files (sleep_block T s) = files s) \<and> (\<forall>s. deployed (sleep_block T s) = deployed s) \<and>
     (\<forall>s. accounts (sleep_block T s) = accounts s)"

lemma below_join [simp]: "below dir (path_join dir name)"
  by (simp add: below_def path_join_def)

lemmas stack_okD = stack_ok_def [THEN iffD1, THEN conjunct1, rule_format]
  stack_ok_def [THEN iffD1, THEN conjunct2, THEN conjunct1, rule_format]
  stack_ok_def [THEN iffD1, THEN conjunct2, THEN conjunct2, THEN conjunct1, rule_format]
  stack_ok_def [THEN iffD1, THEN conjunct2, THEN conjunct2, THEN conjunct2, THEN conjunct1, rule_format]
  stack_ok_def [THEN iffD1, THEN conjunct2, THEN conjunct2, THEN conjunct2, THEN conjunct2, THEN conjunct1, rule_format]

lemma stack_ok_frame:
  assumes "stack_ok T files deployed accounts"
  shows "files (remove_tempdir T dir s) = (\<lambda>p. if below dir p then None else files s p)"
    "deployed (remove_tempdir T dir s) = deployed s" "accounts (remove_tempdir T dir s) = accounts s"
    "files (sleep_block T s) = files s" "deployed (sleep_block T s) = deployed s"
    "accounts (sleep_block T s) = accounts s"
  using assms by (simp_all add: stack_ok_def)

text \<open>A deployment that succeeds puts the ELF on the chain and leaves no file.\<close>

lemma deploy_program_effect:
  assumes ok: "stack_ok T files deployed accounts" and d: "deploy_program T name elf s = (Inr (), s')"
  shows "files s' = files s" "deployed s' = deployed s @ [elf]" "accounts s' = accounts s"
proof -
  obtain dir s1 s2 r s3 where t: "make_tempdir T s = (Inr dir, s1)"
    and w: "write_file T (path_join dir name) elf s1 = (Inr (), s2)"
    and x: "execute_subcommand T (DeployProgram (path_join dir name)) s2 = (Inr r, s3)"
    and e: "s' = remove_tempdir T dir s3"
    using d by (auto simp: deploy_program_def Let_def split: prod.splits sum.splits)
  obtain elf' where 3: "files s2 (path_join dir name) = Some elf'" "deployed s3 = deployed s2 @ [elf']"
      "files s3 = files s2" "accounts s3 = accounts s2"
    using stack_okD(4) [OF ok x] by blast
  show "deployed s' = deployed s @ [elf]" "accounts s' = accounts s"
    using stack_okD(1) [OF ok t] stack_okD(3) [OF ok w] 3 by (simp_all add: e stack_ok_frame [OF ok])
  show "files s' = files s"
  proof (rule ext)
    fix p
    show "files s' p = files s p"
      using stack_okD(1) [OF ok t] stack_okD(2) [OF ok t, of p] stack_okD(3) [OF ok w] 3
        by (auto simp: e stack_ok_frame [OF ok])
  qed
qed

lemma try_state_eq_Inr: "try_state rs k = Inr y \<longleftrightarrow> (\<exists>x s. rs = (Inr x, s) \<and> k x s = Inr y)"
  by (cases rs) (auto simp: try_state_def result_simps)

lemma register_public_account_eq_Inr:
  "register_public_account T s = (Inr a, s') \<longleftrightarrow>
     execute_subcommand T (NewPublicAccount None None) s = (Inr (RegisterAccount a), s')"
  by (auto simp: register_public_account_def split: prod.splits sum.splits subcommand_return.splits)

lemma bootstrap_eq_Inr:
  "bootstrap T B = Inr (h, s) \<longleftrightarrow>
     (\<exists>s0 vp np s1 s2 a. context_new T = Inr s0 \<and> program_new T (verifier_elf B) = Inr vp \<and>
        program_new T (noop_elf B) = Inr np \<and>
        deploy_program T ''private_multisig.bin'' (verifier_elf B) s0 = (Inr (), s1) \<and>
        deploy_program T ''noop.bin'' (noop_elf B) s1 = (Inr (), s2) \<and>
        execute_subcommand T (NewPublicAccount None None) (sleep_block T s2) = (Inr (RegisterAccount a), s) \<and>
        h = \<lparr>verifier_program_id = program_id T vp,
             verifier_program_id_bytes = image_id_to_account_id (verifier_image_id B),
             noop_target_bytes = image_id_to_account_id (noop_id B), h_signer = a\<rparr>)"
  by (auto simp: bootstrap_def try_state_eq_Inr result_simps register_public_account_eq_Inr Let_def
      program_id_to_core_bytes_eq)

text \<open>The two ids that bootstrap keeps for the verifier belong together exactly when they are the same.\<close>

lemma image_id_to_account_id_inj:
  assumes "length v = 8" "length w = 8"
  shows "image_id_to_account_id v = image_id_to_account_id w \<longleftrightarrow> v = w"
  using assms target_of_image_id by metis

lemma bootstrap_effect:
  assumes ok: "stack_ok T files deployed accounts" and s0: "context_new T = Inr s0"
    and b: "bootstrap T B = Inr (h, s)"
  shows "deployed s = deployed s0 @ [verifier_elf B, noop_elf B]" "files s = files s0"
    "h_signer h \<notin> accounts s0" "accounts s = insert (h_signer h) (accounts s0)"
    "\<exists>vp. program_new T (verifier_elf B) = Inr vp \<and> verifier_program_id h = program_id T vp"
    "verifier_program_id_bytes h = image_id_to_account_id (verifier_image_id B)"
    "noop_target_bytes h = image_id_to_account_id (noop_id B)"
proof -
  from b s0 obtain vp np s1 s2 a where vp: "program_new T (verifier_elf B) = Inr vp"
    and d: "deploy_program T ''private_multisig.bin'' (verifier_elf B) s0 = (Inr (), s1)"
      "deploy_program T ''noop.bin'' (noop_elf B) s1 = (Inr (), s2)"
    and r: "execute_subcommand T (NewPublicAccount None None) (sleep_block T s2) = (Inr (RegisterAccount a), s)"
    and h: "h = \<lparr>verifier_program_id = program_id T vp,
             verifier_program_id_bytes = image_id_to_account_id (verifier_image_id B),
             noop_target_bytes = image_id_to_account_id (noop_id B), h_signer = a\<rparr>"
    by (auto simp: bootstrap_eq_Inr)
  show "deployed s = deployed s0 @ [verifier_elf B, noop_elf B]" "files s = files s0"
    "h_signer h \<notin> accounts s0" "accounts s = insert (h_signer h) (accounts s0)"
    using deploy_program_effect [OF ok d(1)] deploy_program_effect [OF ok d(2)] stack_okD(5) [OF ok r]
    by (simp_all add: h stack_ok_frame [OF ok])
  show "\<exists>vp. program_new T (verifier_elf B) = Inr vp \<and> verifier_program_id h = program_id T vp"
    "verifier_program_id_bytes h = image_id_to_account_id (verifier_image_id B)"
    "noop_target_bytes h = image_id_to_account_id (noop_id B)"
    using vp by (simp_all add: h)
qed

text \<open>
  Bootstrap deploys what it says. On a host that behaves as documented, a bootstrap that
  succeeds has deployed the verifier and then the noop program, from files that held exactly
  their ELFs and are gone afterwards, and registered a new account as the signer; its
  transactions address the program computed from the deployed ELF, its addresses are derived
  from the build's image id, and the two are the same program exactly when the build's image
  id is the ELF's, which bootstrap does not check.
\<close>

theorem bootstrap_deploys:
  assumes "stack_ok T files deployed accounts" and "context_new T = Inr s0"
    and "bootstrap T B = Inr (h, s)"
    and "length (verifier_image_id B) = 8" and "length (verifier_program_id h) = 8"
  shows "deployed s = deployed s0 @ [verifier_elf B, noop_elf B] \<and> files s = files s0 \<and>
    h_signer h \<notin> accounts s0 \<and> accounts s = insert (h_signer h) (accounts s0) \<and>
    (\<exists>vp. program_new T (verifier_elf B) = Inr vp \<and> verifier_program_id h = program_id T vp) \<and>
    (verifier_program_id_bytes h = program_id_to_core_bytes (verifier_program_id h) \<longleftrightarrow>
       verifier_image_id B = verifier_program_id h)"
  using bootstrap_effect [OF assms(1-3)] image_id_to_account_id_inj [OF assms(4,5)]
  by (simp add: program_id_to_core_bytes_eq)

text \<open>A host that keeps its files, the deployed ELFs and the accounts as lists.\<close>

type_synonym sample_host_state = "(path \<times> byte list) list \<times> byte list list \<times> bytes32 list"

definition sample_stack :: "(sample_host_state, byte list, unit) test_stack" where
  "sample_stack =
     \<lparr>context_new = Inr ([], [], []), program_new = Inr,
      program_id = \<lambda>elf. target_program_id (literal_seed elf),
      make_tempdir = \<lambda>(fs, s).
        (if list_ex (\<lambda>(p, _). below [''tmp''] p) fs then Inl ''exists'' else Inr [''tmp''], fs, s),
      remove_tempdir = \<lambda>dir (fs, s). (filter (\<lambda>(p, _). \<not> below dir p) fs, s),
      write_file = \<lambda>p bs (fs, s). (Inr (), (p, bs) # fs, s),
      execute_subcommand = \<lambda>c (fs, d, as).
        (case c of
           DeployProgram p \<Rightarrow>
             (case map_of fs p of
                None \<Rightarrow> (Inl ''no such file'', fs, d, as)
              | Some elf \<Rightarrow> (Inr (OtherReturn ''Empty''), fs, d @ [elf], as))
         | NewPublicAccount _ _ \<Rightarrow>
             (if 1 \<in> set as then (Inl ''exists'', fs, d, as) else (Inr (RegisterAccount 1), fs, d, 1 # as))),
      sleep_block = id, rpc_get_account = \<lambda>s a. Inr ()\<rparr>"

lemma map_of_filter_key: "map_of (filter (\<lambda>(k, _). P k) xs) k = (if P k then map_of xs k else None)"
  by (induction xs) auto

lemma sample_stack_ok:
  "stack_ok sample_stack (\<lambda>s. map_of (fst s)) (\<lambda>s. fst (snd s)) (\<lambda>s. set (snd (snd s)))"
proof -
  have f: "map_of fs p = None" if "\<not> list_ex (\<lambda>(p, _). below dir p) fs" "below dir p"
    for fs :: "(path \<times> byte list) list" and dir p
    using that by (induction fs) auto
  show ?thesis
    unfolding stack_ok_def
    by (intro conjI allI impI)
      (auto simp: sample_stack_def map_of_filter_key f split: if_splits option.splits)
qed

definition sample_products :: e2e_products where
  "sample_products = \<lparr>circuit_image_id = APPROVE_CIRCUIT_IMAGE_ID_PINNED, circuit_elf = [],
     noop_id = target_program_id 3, verifier_elf = [1], verifier_image_id = target_program_id 1, noop_elf = [3]\<rparr>"

lemma sample_elf_ids: "literal_seed [1] = 1" "literal_seed [3] = 3"
  by (simp_all add: literal_seed_def array32_pad_zero) (simp_all add: array32_def of_le_def)

lemma sample_bootstrap:
  "bootstrap sample_stack sample_products =
     Inr (\<lparr>verifier_program_id = target_program_id 1,
           verifier_program_id_bytes = image_id_to_account_id (target_program_id 1),
           noop_target_bytes = image_id_to_account_id (target_program_id 3), h_signer = 1\<rparr>,
          [], [[1], [3]], [1])"
  by (auto simp: bootstrap_eq_Inr deploy_program_def sample_stack_def sample_products_def below_def
      path_join_def sample_elf_ids)

theorem bootstrap_deploys_witness:
  "\<exists>h s. bootstrap sample_stack sample_products = Inr (h, s) \<and> fst (snd s) = [[1], [3]] \<and> fst s = [] \<and>
     h_signer h = 1 \<and> verifier_program_id_bytes h = program_id_to_core_bytes (verifier_program_id h)"
proof -
  have c: "context_new sample_stack = Inr ([], [], [])" by (simp add: sample_stack_def)
  note b = bootstrap_deploys [OF sample_stack_ok c sample_bootstrap]
  show ?thesis
    by (intro exI conjI, rule sample_bootstrap) (use b in \<open>simp_all add: sample_products_def target_program_id_eq\<close>)
qed

section \<open>What an executed proposal calls\<close>

text \<open>The build's constant for the noop program is the id of its ELF.\<close>

definition noop_built :: "('s, 'prog, 'acct) test_stack \<Rightarrow> 'z e2e_products_scheme \<Rightarrow> bool" where
  "noop_built T B \<longleftrightarrow> length (noop_id B) = 8 \<and>
     (\<forall>np. program_new T (noop_elf B) = Inr np \<longrightarrow> program_id T np = noop_id B)"

lemma bootstrap_noop:
  assumes "bootstrap T B = Inr (h, s)" and "noop_built T B"
  obtains np where "program_new T (noop_elf B) = Inr np" "program_id T np = noop_id B"
    "target_program_id (noop_target_bytes h) = noop_id B"
  using assms by (auto simp: bootstrap_eq_Inr noop_built_def target_of_image_id)

text \<open>
  C40: The whole flow ends in a harmless call to a program that is there. Let \<open>bootstrap\<close> have
  succeeded on a host that behaves as documented (\<open>stack_ok\<close>), with a build whose constant for
  the noop program is the id of its ELF (\<open>noop_built\<close>), and let the proposals for an index have
  been made by the harness, which names its \<open>noop_target_bytes\<close> as their target. Then the
  chain has, after what it had before, the verifier's and the noop program's ELFs, in this
  order and nothing else; and the one call that a successful \<open>execute\<close> of the index makes is
  for the id that the host computes from the noop ELF deployed last. What the noop guest
  writes for that call is the instance's vault, authorised, unchanged.
\<close>

theorem harness_executes_noop:
  assumes "stack_ok T files deployed accounts" and "context_new T = Inr s0"
    and "bootstrap T B = Inr (h, s)" and "noop_built T B"
    and "sound_setting E R pid L0 (calls (es @ [Called (Execute ck i) out]))"
    and "ledger_run E R pid L0 (es @ [Called (Execute ck i) out]) L"
    and "\<forall>action target. Propose ck i action target \<in> set (calls es) \<longrightarrow> target = noop_target_bytes h"
  shows "deployed s = deployed s0 @ [verifier_elf B, noop_elf B] \<and>
    (\<exists>np action c v. program_new T (last (deployed s)) = Inr np \<and> call_program c = program_id T np \<and>
      Propose ck i action (noop_target_bytes h) \<in> set (calls es) \<and>
      chained_calls out = [c] \<and> instruction_data c = serde_to_vec E action \<and>
      noop_main post (\<lparr>self_program_id = call_program c, caller_program_id = caller,
          input_pre_states = pre_states c\<rparr>, instruction_data c) =
        \<lparr>out_self = program_id T np, out_caller = caller, out_instruction = serde_to_vec E action,
         out_pre_states = [\<lparr>acc = v, is_authorized = True, account_id = address (sha256 E) pid (VaultOf ck)\<rparr>],
         out_post_states = [post v]\<rparr>)"
proof -
  have d: "deployed s = deployed s0 @ [verifier_elf B, noop_elf B]" by (rule bootstrap_effect(1) [OF assms(1-3)])
  obtain np where np: "program_new T (noop_elf B) = Inr np" "program_id T np = noop_id B"
    "target_program_id (noop_target_bytes h) = noop_id B"
    by (rule bootstrap_noop [OF assms(3,4)])
  from executed_call [OF assms(5,6)] obtain action target c v where
    p: "Propose ck i action target \<in> set (calls es)" and c: "chained_calls out = [c]"
    "call_program c = target_program_id target" "instruction_data c = serde_to_vec E action"
    "pre_states c = [\<lparr>acc = v, is_authorized = True, account_id = address (sha256 E) pid (VaultOf ck)\<rparr>]"
    by blast
  have t: "target = noop_target_bytes h" using assms(7) p by blast
  show ?thesis
    using d np p c unfolding t
    by (intro conjI exI [of _ np] exI [of _ action] exI [of _ c] exI [of _ v]) (simp_all add: noop_main_def)
qed

theorem harness_executes_noop_witness:
  "\<exists>h s es out L c v.
     bootstrap sample_stack sample_products = Inr (h, s) \<and>
     ledger_run sample_env sample_chain 5 (\<lambda>_. sample_blank) (es @ [Called (Execute 9 0) out]) L \<and>
     chained_calls out = [c] \<and> last (fst (snd s)) = [3] \<and> call_program c = program_id sample_stack [3] \<and>
     out_post_states (noop_main id (\<lparr>self_program_id = call_program c, caller_program_id = None,
        input_pre_states = pre_states c\<rparr>, instruction_data c)) = [v]"
proof -
  obtain es out L where
    r: "ledger_run sample_env sample_chain 5 (\<lambda>_. sample_blank) (es @ [Called (Execute 9 0) out]) L"
    and c: "calls es = sample_setup" by (rule sample_run)
  have l: "length (target_program_id 3) = 8" by (simp add: target_program_id_eq)
  have "bytes_of (image_id_to_account_id (target_program_id 3)) = bytes_of 3"
    by (simp add: bytes_of_image_id [OF l] target_program_id_bytes)
  then have t: "image_id_to_account_id (target_program_id 3) = 3" by simp
  have b: "noop_built sample_stack sample_products"
    by (simp add: noop_built_def sample_stack_def sample_products_def sample_elf_ids l)
  have c0: "context_new sample_stack = Inr ([], [], [])" by (simp add: sample_stack_def)
  have p: "\<forall>action target. Propose 9 0 action target \<in> set (calls es) \<longrightarrow>
      target = noop_target_bytes \<lparr>verifier_program_id = target_program_id 1,
           verifier_program_id_bytes = image_id_to_account_id (target_program_id 1),
           noop_target_bytes = image_id_to_account_id (target_program_id 3), h_signer = 1\<rparr>"
    by (simp add: c sample_setup_def t)
  have e: "noop_elf sample_products = [3]" by (simp add: sample_products_def)
  from harness_executes_noop [OF sample_stack_ok c0 sample_bootstrap b sample_last_setting [OF c] r p,
      where post = id and caller = None]
  obtain np d v where n: "program_new sample_stack [3] = Inr np" "call_program d = program_id sample_stack np"
    "chained_calls out = [d]"
    "out_post_states (noop_main id (\<lparr>self_program_id = call_program d, caller_program_id = None,
        input_pre_states = pre_states d\<rparr>, instruction_data d)) = [id v]"
    by (auto simp: e)
  have "np = [3]" using n(1) by (simp add: sample_stack_def)
  have "last (fst (snd ([], [[1], [3]], [1]))) = [3]" by simp
  with n r \<open>np = [3]\<close> sample_bootstrap show ?thesis unfolding id_apply by blast
qed

end
