(* ===== verification/Spec2Isabelle.thy ===== *)
theory Spec2Isabelle
  imports Privacy Progress Resubmission Sdk_Multisig Sdk_Member Debug_Output Quickstart End_To_End Harness_Boot
begin

text \<open>
  A verification development for a private M-of-N multisig. Members enrol commitments
  \<open>H(sk || salt)\<close> as the leaves of a Merkle tree; an on-chain program keeps the tree's root and a
  quorum \<open>m\<close>; a member approves a proposal with a zero-knowledge receipt that proves knowledge of
  an enrolled \<open>(sk, salt)\<close> and discloses only a nullifier \<open>H(sk || proposal_id)\<close>; after \<open>m\<close>
  approvals the program makes one call to the proposal's target. The crates are modelled as
  they are written; every definition is named after its function, and the theories below name
  the files under \<open>src/\<close>.

  Conventions. Rust's fixed-width integers are words of their width (\<open>checked_add\<close> is written
  out, wrap-around is the word's). \<open>[u8; 32]\<close> is a 256-bit word, in bijection with its bytes;
  \<open>Vec<u8>\<close> and slices are byte lists; a Rust string is the list of its UTF-8 bytes as
  characters. \<open>Result\<close> is a sum with the error on the left, a panic is \<open>None\<close>, \<open>&mut self\<close> is
  the value returned afterwards. Loops over \<open>0..N\<close> and over arrays are folds; loops that can
  leave early are recursive functions on the list they walk, so all of them are total and no
  fuel is needed. The hash function (the \<open>sha2\<close> crate) is the parameter \<open>H\<close>; collision
  resistance is never assumed as such: a property that needs it names the finitely many
  strings hashed and says that \<open>H\<close> tells those apart (\<open>collision_free\<close>). Examples run on
  \<open>sample_hash\<close>, a function on which all hypotheses are discharged by evaluation.

  Theories, in the order they build on each other.

  \<^item> \<open>Prelude\<close>: machine types, \<open>Result\<close>, byte layouts, hex, and the interfaces shared by the
    components: \<open>codec\<close>, \<open>exact_codec\<close> (an encoding that is inverted on exactly its image),
    \<open>invariant_system\<close> and \<open>monotone_system\<close> (what a step relation keeps, and what only grows),
    \<open>split_machine\<close> (a machine that is the product of machines that do not interact).
  \<^item> \<open>Hashing\<close>, \<open>Identity\<close>, \<open>Merkle\<close>: the crate \<open>crypto\<close>. The lazily computed Merkle root is
    the root of the full tree; a proof that is handed out verifies; a proof that verifies is
    for the leaf in the tree. The locale \<open>accumulator\<close> states the tree as members and
    provers see it.
  \<^item> \<open>Core_Error\<close>, \<open>Core_State\<close>, \<open>Proof_Inputs\<close>, \<open>Pda\<close>: the crate \<open>private_multisig_core\<close>: error
    codes, account bodies and instructions, the 96-byte public inputs, the proposal id, the
    addresses of accounts. \<open>Borsh\<close> gives the layout of the bodies that its tests pin.
  \<^item> \<open>Approve_Circuit\<close>: the guest \<open>approve_circuit.rs\<close> and the host's witness packing
    (\<open>private_multisig_program/src/lib.rs\<close>), byte for byte; what a journal proves.
  \<^item> \<open>Verifier\<close>: the six handlers of \<open>private_multisig.rs\<close>, each with the exact condition on
    which it succeeds and what it then answers. \<open>Ledger\<close>: the account attributes of the
    handlers, and a call as a step of the ledger (\<open>submit\<close>).
  \<^item> \<open>Multisig_Spec\<close>: what the program promises, as a machine over instances, ballots and
    votes, with its invariant and the histories of its runs. \<open>Refinement\<close>: every run of the
    program, interleaved with steps of other programs, is a run of that machine.
    \<open>Liveness\<close>: the converse, on a chain that admits well-formed calls.
  \<^item> \<open>System\<close>: the guarantees over whole runs: no double execution, no execution without a
    quorum, one vote per nullifier, what executes is what was proposed, counters count,
    bodies are frozen. \<open>Members\<close>: from receipts to runs of the circuit by
    different enrolled members on streams that hold their secrets, and that a quorum of
    members can always execute.
  \<^item> \<open>Spec_Algebra\<close>: the algebra of the abstract machine: its runs split into the runs of its
    instances, and what a run leaves depends on the set of its calls only. \<open>Independence\<close> carries
    this over to the ledger, with the exact limits of the counters: which lists of calls the
    chain accepts, that instances do not interfere, that order does not matter. \<open>Progress\<close>:
    enrolled members can always bring an open proposal to its execution. \<open>Bounds\<close>: the bytes of
    stored accounts are those of valid bodies, and votes never outnumber members.
  \<^item> \<open>Security\<close>: what cuts across runs: every call that leaves the program was decided by a
    quorum of members for exactly that call, a receipt is good for one vote in one proposal of
    one deployment, and it does not matter who submits. \<open>Privacy\<close>: the public record is
    consistent, under an equally likely hash function, with any other attribution of the
    votes to members, for each proposal separately.
  \<^item> \<open>Sdk_Error\<close>, \<open>Sdk_Multisig\<close>, \<open>Sdk_Member\<close>, \<open>Sdk_Prover\<close>: the crate
    \<open>private_multisig_sdk\<close>: its errors; the builder and the snapshot of an instance; members and
    their keystore; the prover, whose receipts are shown to be the ones \<open>Verifier\<close> accepts.
    \<open>Sdk_Session\<close> and \<open>Session_Store\<close>: the resumable approval sessions and their store.
    \<open>Approval_Flow\<close>: prover, session and store of one client together, through crashes that may
    undo saves, up to what the program accepts of a resumed session. \<open>Resubmission\<close>: the same
    client on the ledger, where its vote is recorded exactly once. \<open>Debug_Output\<close>: what the
    types print, their getters and \<open>Drop\<close>.
    \<open>Borsh_Codec\<close>: decoders by combinators for the layouts of the SDK's stored values, with the
    locale \<open>stream_codec\<close>.
  \<^item> \<open>Quickstart_Args\<close>, \<open>Quickstart\<close>: the demo binary of \<open>e2e_tests\<close>: its command line, the
    whole flow from key generation to the nullifier set, its exit codes. \<open>Harness\<close>: the
    operations of the integration harness, connected to the ledger of \<open>Ledger\<close>.
    \<open>End_To_End\<close>: builder, provers, harness, program and ledger in one flow, with and without
    the chain's channel for receipts. \<open>Harness_Boot\<close>: \<open>bootstrap\<close> with its deployments and its
    signer, and the noop program (\<open>e2e_tests/guest\<close>) that executed proposals call.
    \<open>Guest_Build\<close>: the build scripts of the guests (\<open>methods/build.rs\<close>, \<open>e2e_tests/build.rs\<close>) as
    functions of the process environment, and the flag \<open>BUILD_USED_DOCKER\<close>.

  How the parts meet. The prover streams \<open>prover_slices\<close>, which is \<open>pack_approve_witness\<close>
  (\<open>prover_stream_canonical\<close>), which is what \<open>read_witness\<close> of the guest reads (C24). The journal
  of the guest is what \<open>approve\<close> of the program recomputes and asks a receipt for (C20,
  \<open>prover_satisfies_verifier\<close>), also for a session that a client resumes after a crash
  (\<open>resumed_session_approves\<close>), which may submit again without counting twice (C35). \<open>submit\<close>
  puts a handler between the chain's checks and its effects; runs of it refine the machine of
  \<open>Multisig_Spec\<close> (C1), on which the properties of histories are proved once and carried over
  (C3 to C5, C7, C8, C11, C12); together with the receipts they give C2, which says of every
  call to another program who decided it, and C6; the converse on a live chain makes the two
  equivalent (C14) and gives independence of instances, progress and independence of the
  submitter (C13, C15, C17). What is public about a vote is the topic of C9. The builder's tree
  is the tree of \<open>Merkle\<close> (C29), and its members get receipts (\<open>enrolled_member_proves\<close>). The
  harness submits the calls over the accounts that \<open>Ledger\<close> requires (\<open>harness_accounts\<close>, C39),
  addresses the program that \<open>bootstrap\<close> deployed (\<open>bootstrap_deploys\<close>), and what executes is a
  call of the noop program (C40). The whole chain of parts is one statement in C10, and
  \<open>no_channel_no_execution\<close> is its counterpart on a chain that passes no receipts to public
  transactions, as \<open>e2e_tests/tests/lez_full_flow.rs\<close> describes the current one.

  What is not in the repository is a parameter, and what the code relies on is a named
  hypothesis: \<open>slice_reader\<close> (Risc0's \<open>read_slice\<close>), \<open>spel_env\<close> with \<open>stores\<close> and \<open>roomy\<close> (Borsh
  and the cap on account data), \<open>runtime\<close> with \<open>runtime_ok\<close> and \<open>runtime_exact\<close> (SPEL's attribute
  checks, account write-back, receipts), \<open>extracts\<close> and \<open>provable_discharged\<close> (the zkVM's
  soundness and completeness, on chain), \<open>zkvm\<close> with \<open>runs_guest\<close> and \<open>finds_proofs\<close> (the same for
  the SDK's host), \<open>keystore_crypto\<close> with \<open>keystore_crypto_ok\<close> (Argon2id and ChaCha20-Poly1305),
  \<open>sled_tree\<close> with \<open>sled_ok\<close> (the database), \<open>sequencer\<close> with \<open>sequencer_runs\<close> (the test chain),
  \<open>test_stack\<close> with \<open>stack_ok\<close> (files, wallet and test context), \<open>risc0_build\<close> (guest compilation),
  \<open>noop_built\<close> (the build's constant for the noop program is the id of its ELF),
  \<open>receipt_host\<close> with \<open>host_proves\<close> and \<open>honours_receipts\<close> (host and chain for whole flows),
  \<open>receipt_honoured\<close> (the chain on the receipt of one session).
  Each is instantiated by concrete functions in the witnesses.

  Bounds. The tree has depth 20, so \<open>2 ^ 20\<close> leaves; properties over the tree hold for any
  number of leaves up to that. Actions have at most 4096 bytes. Approval counters are 32 bits,
  proposal counts 64 bits, and their overflow is an error of the handlers, which the
  properties cover. \<open>retry_count\<close> of a session wraps, as in a release build.

  Not modelled: \<open>cli\<close> and \<open>idl-gen\<close> (each is one call into the SPEL framework); the generated
  constants that \<open>include!\<close> brings in, which are arguments where they are used; benchmarks (timing
  only) and the crates' test modules; crate roots that only re-export; printed text other than
  errors, \<open>Display\<close> and \<open>Debug\<close>; messages inside \<open>SpelError\<close>; zeroing of buffers, except the
  \<open>Drop\<close> of members and provers.
\<close>

end
